(* ===== verification/FFB_Prelude.thy ===== *)
theory FFB_Prelude imports Main "HOL-Library.Word" "HOL-Library.Multiset" begin

text \<open>
  Shared ground of the development: the machine types of the program (bytes, 16, 32 and 64 bit
  words, UTF-16 strings), ASCII literals as code units, little-endian reading of words, and the
  generic list and word lemmas the component theories use.  Collections:
  \<open>codec\<close> holds the length and read-back equations of the wire writers,
  \<open>slist\<close> the laws of the interlocked lists of the telemetry queues, \<open>result\<close> the success conditions of
  chained checks.
\<close>

unbundle bit_operations_syntax

named_theorems codec \<open>length and read-back equations of byte writers\<close>
named_theorems slist \<open>laws of the interlocked singly linked lists\<close>

named_theorems result \<open>when chained checks succeed\<close>

section \<open>Machine types\<close>

type_synonym byte = "8 word"
type_synonym u16 = "16 word"
type_synonym u32 = "32 word"
type_synonym u64 = "64 word"

text \<open>Windows \<open>LONG\<close>, \<open>HRESULT\<close> and \<open>std::int32_t\<close> are 32 bit two's complement words:
  the same bits as \<open>u32\<close>, read by \<open>sint\<close>.\<close>

type_synonym i32 = "32 word"

text \<open>\<open>wchar_t\<close> of the Windows ABI is a 16 bit code unit; \<open>std::string\<close> is a byte list.\<close>

type_synonym wchar = "16 word"
type_synonym wstring = "wchar list"

definition ascii :: "string \<Rightarrow> byte list" where
  "ascii s = map of_char s"

definition wide :: "string \<Rightarrow> wstring" where
  "wide s = map of_char s"

lemma length_ascii [simp]: "length (ascii s) = length s"
  by (simp add: ascii_def)

lemma length_wide [simp]: "length (wide s) = length s"
  by (simp add: wide_def)

section \<open>The two processor architectures\<close>

datatype arch = X86 | X64

section \<open>Little-endian words\<close>

definition le16 :: "byte \<Rightarrow> byte \<Rightarrow> u16" where
  "le16 a b = ucast a OR push_bit 8 (ucast b)"

definition le32 :: "byte \<Rightarrow> byte \<Rightarrow> byte \<Rightarrow> byte \<Rightarrow> u32" where
  "le32 a b c d = ucast a OR push_bit 8 (ucast b) OR push_bit 16 (ucast c) OR push_bit 24 (ucast d)"

definition le64 :: "byte \<Rightarrow> byte \<Rightarrow> byte \<Rightarrow> byte \<Rightarrow> byte \<Rightarrow> byte \<Rightarrow> byte \<Rightarrow> byte \<Rightarrow> u64" where
  "le64 a b c d e f g h =
     ucast (le32 a b c d) OR push_bit 32 (ucast (le32 e f g h))"

lemma le16_split:
  "le16 (ucast x) (ucast (drop_bit 8 x)) = x"
  unfolding le16_def
  by (rule bit_word_eqI) (auto simp: bit_simps not_less)

lemma le32_split:
  "le32 (ucast x) (ucast (drop_bit 8 x)) (ucast (drop_bit 16 x)) (ucast (drop_bit 24 x)) = x"
  unfolding le32_def
proof (rule bit_word_eqI)
  fix n :: nat
  assume n: "n < LENGTH(32)"
  consider "n < 8" | "8 \<le> n \<and> n < 16" | "16 \<le> n \<and> n < 24" | "24 \<le> n \<and> n < 32"
    using n by fastforce
  then show "bit (ucast (ucast x :: byte) OR push_bit 8 (ucast (ucast (drop_bit 8 x) :: byte)) OR
      push_bit 16 (ucast (ucast (drop_bit 16 x) :: byte)) OR
      push_bit 24 (ucast (ucast (drop_bit 24 x) :: byte)) :: u32) n = bit x n"
    by cases (auto simp: bit_simps)
qed

lemma le64_split:
  "le64 (ucast x) (ucast (drop_bit 8 x)) (ucast (drop_bit 16 x)) (ucast (drop_bit 24 x))
     (ucast (drop_bit 32 x)) (ucast (drop_bit 40 x)) (ucast (drop_bit 48 x)) (ucast (drop_bit 56 x))
   = x"
proof -
  have lo: "le32 (ucast x) (ucast (drop_bit 8 x)) (ucast (drop_bit 16 x)) (ucast (drop_bit 24 x))
      = ucast x"
  proof -
    have "ucast (drop_bit k x) = (ucast (drop_bit k (ucast x :: u32)) :: byte)" if "k \<le> 24" for k
      using that by (intro bit_word_eqI) (auto simp: bit_simps)
    from this[of 8] this[of 16] this[of 24]
    have "ucast (drop_bit 8 x) = (ucast (drop_bit 8 (ucast x :: u32)) :: byte)"
      "ucast (drop_bit 16 x) = (ucast (drop_bit 16 (ucast x :: u32)) :: byte)"
      "ucast (drop_bit 24 x) = (ucast (drop_bit 24 (ucast x :: u32)) :: byte)" by simp_all
    moreover have "ucast x = (ucast (ucast x :: u32) :: byte)"
      by (rule bit_word_eqI) (auto simp: bit_simps)
    ultimately show ?thesis by (metis le32_split)
  qed
  have hi: "le32 (ucast (drop_bit 32 x)) (ucast (drop_bit 40 x)) (ucast (drop_bit 48 x))
      (ucast (drop_bit 56 x)) = ucast (drop_bit 32 x)"
  proof -
    have "ucast (drop_bit (32 + k) x) = (ucast (drop_bit k (ucast (drop_bit 32 x) :: u32)) :: byte)"
      if "k \<le> 24" for k
      using that by (intro bit_word_eqI) (auto simp: bit_simps ac_simps)
    from this[of 0] this[of 8] this[of 16] this[of 24]
    have "ucast (drop_bit 32 x) = (ucast (ucast (drop_bit 32 x) :: u32) :: byte)"
      "ucast (drop_bit 40 x) = (ucast (drop_bit 8 (ucast (drop_bit 32 x) :: u32)) :: byte)"
      "ucast (drop_bit 48 x) = (ucast (drop_bit 16 (ucast (drop_bit 32 x) :: u32)) :: byte)"
      "ucast (drop_bit 56 x) = (ucast (drop_bit 24 (ucast (drop_bit 32 x) :: u32)) :: byte)"
      by simp_all
    then show ?thesis by (metis le32_split)
  qed
  show ?thesis
    unfolding le64_def lo hi by (rule bit_word_eqI) (auto simp: bit_simps not_less)
qed

section \<open>Lists\<close>

lemma list_of_length_Suc: "length xs = Suc n \<longleftrightarrow> (\<exists>y ys. xs = y # ys \<and> length ys = n)"
  by (cases xs) auto

lemma take_length_append [simp]: "take (length xs) (xs @ ys) = xs"
  by simp

lemma list_all_take: "list_all P xs \<Longrightarrow> list_all P (take n xs)"
  by (auto simp: list_all_iff dest: in_set_takeD)

section \<open>Chained checks\<close>

text \<open>A function that returns early with an error is a value of \<open>'e + 'a\<close>.\<close>

definition and_then :: "'e + 'a \<Rightarrow> ('a \<Rightarrow> 'e + 'b) \<Rightarrow> 'e + 'b" where
  "and_then r f = (case r of Inl e \<Rightarrow> Inl e | Inr x \<Rightarrow> f x)"

definition require :: "bool \<Rightarrow> 'e \<Rightarrow> 'e + unit" where
  "require b e = (if b then Inr () else Inl e)"

definition or_fail :: "'a option \<Rightarrow> 'e \<Rightarrow> 'e + 'a" where
  "or_fail v e = (case v of None \<Rightarrow> Inl e | Some x \<Rightarrow> Inr x)"

lemma and_then_simps [simp]: "and_then (Inl e) f = Inl e" "and_then (Inr x) f = f x"
  by (simp_all add: and_then_def)

lemma and_then_Inr [result]: "and_then r f = Inr y \<longleftrightarrow> (\<exists>x. r = Inr x \<and> f x = Inr y)"
  by (cases r) auto

lemma require_Inr [result]: "require b e = Inr u \<longleftrightarrow> b"
  by (simp add: require_def)

lemma or_fail_Inr [result]: "or_fail v e = Inr x \<longleftrightarrow> v = Some x"
  by (cases v) (simp_all add: or_fail_def)

end
