(* ===== verification/Wire_Codec.thy ===== *)
theory Wire_Codec imports FFB_Prelude begin

text \<open>
  The byte writers of \<open>src/telemetry_protocol.cpp\<close> (\<open>put_u16\<close>, \<open>put_u32\<close>, \<open>put_u64\<close>,
  \<open>put_i32\<close>, \<open>put_guid\<close>, \<open>put_condition\<close>, \<open>put_fixed_string\<close>, \<open>put_string\<close>) and the readers
  of the viewer (\<open>struct.unpack_from\<close> in \<open>viewer/src/ffb_visualizer/protocol.py\<close>).
  A writer appends to a vector; its model is the bytes it appends.  The locale \<open>byte_codec\<close>
  is the contract between a writer and its reader: fixed width and read-back.  Arrays of a
  fixed number of elements inherit it (\<open>sublocale\<close>), and it is interpreted on every
  writer of the program.
\<close>

section \<open>Data\<close>

record GUID =
  guid_data1 :: u32
  guid_data2 :: u16
  guid_data3 :: u16
  guid_data4 :: "byte list"

definition GUID_NULL :: GUID where
  "GUID_NULL = \<lparr>guid_data1 = 0, guid_data2 = 0, guid_data3 = 0, guid_data4 = replicate 8 0\<rparr>"

definition guid_wf :: "GUID \<Rightarrow> bool" where
  "guid_wf g \<longleftrightarrow> length (guid_data4 g) = 8"

record ConditionSample =
  cs_offset :: i32
  cs_positive_coefficient :: i32
  cs_negative_coefficient :: i32
  cs_positive_saturation :: u32
  cs_negative_saturation :: u32
  cs_dead_band :: i32

definition zero_condition :: ConditionSample where
  "zero_condition = \<lparr>cs_offset = 0, cs_positive_coefficient = 0, cs_negative_coefficient = 0,
     cs_positive_saturation = 0, cs_negative_saturation = 0, cs_dead_band = 0\<rparr>"

section \<open>The writers\<close>

definition put_u16 :: "u16 \<Rightarrow> byte list" where
  "put_u16 value = [ucast value, ucast (drop_bit 8 value)]"

definition put_u32 :: "u32 \<Rightarrow> byte list" where
  "put_u32 value = map (\<lambda>i. ucast (drop_bit (8 * i) value)) [0, 1, 2, 3]"

definition put_u64 :: "u64 \<Rightarrow> byte list" where
  "put_u64 value = map (\<lambda>i. ucast (drop_bit (8 * i) value)) [0, 1, 2, 3, 4, 5, 6, 7]"

definition put_i32 :: "i32 \<Rightarrow> byte list" where
  "put_i32 value = put_u32 value"

text \<open>\<open>put_guid\<close> copies the object representation of the struct, which on the little-endian
  Windows targets is \<open>Data1\<close>, \<open>Data2\<close>, \<open>Data3\<close> least significant byte first, then \<open>Data4\<close>.\<close>

definition put_guid :: "GUID \<Rightarrow> byte list" where
  "put_guid g = put_u32 (guid_data1 g) @ put_u16 (guid_data2 g) @ put_u16 (guid_data3 g)
     @ guid_data4 g"

definition put_condition :: "ConditionSample \<Rightarrow> byte list" where
  "put_condition c =
     put_i32 (cs_offset c) @
     put_i32 (cs_positive_coefficient c) @
     put_i32 (cs_negative_coefficient c) @
     put_u32 (cs_positive_saturation c) @
     put_u32 (cs_negative_saturation c) @
     put_i32 (cs_dead_band c)"

text \<open>\<open>strnlen_s (text, max)\<close>: the number of bytes before the first NUL, at most \<open>max\<close>.\<close>

definition strnlen_s :: "byte list \<Rightarrow> nat \<Rightarrow> nat" where
  "strnlen_s text max_len = length (takeWhile (\<lambda>b. b \<noteq> 0) (take max_len text))"

definition put_string :: "byte list \<Rightarrow> byte list" where
  "put_string text =
     (let len = min (strnlen_s text 63) 63
      in put_u16 (word_of_nat len) @ take len text)"

definition put_fixed_string :: "byte list \<Rightarrow> nat \<Rightarrow> byte list" where
  "put_fixed_string text capacity = take capacity text"

section \<open>The readers\<close>

fun get_u16 :: "byte list \<Rightarrow> (u16 \<times> byte list) option" where
  "get_u16 (a # b # r) = Some (le16 a b, r)"
| "get_u16 _ = None"

fun get_u32 :: "byte list \<Rightarrow> (u32 \<times> byte list) option" where
  "get_u32 (a # b # c # d # r) = Some (le32 a b c d, r)"
| "get_u32 _ = None"

fun get_u64 :: "byte list \<Rightarrow> (u64 \<times> byte list) option" where
  "get_u64 (a # b # c # d # e # f # g # h # r) = Some (le64 a b c d e f g h, r)"
| "get_u64 _ = None"

definition get_bytes :: "nat \<Rightarrow> byte list \<Rightarrow> (byte list \<times> byte list) option" where
  "get_bytes n bs = (if n \<le> length bs then Some (take n bs, drop n bs) else None)"

definition get_condition :: "byte list \<Rightarrow> (ConditionSample \<times> byte list) option" where
  "get_condition bs =
     Option.bind (get_u32 bs) (\<lambda>(o1, bs).
     Option.bind (get_u32 bs) (\<lambda>(pc, bs).
     Option.bind (get_u32 bs) (\<lambda>(nc, bs).
     Option.bind (get_u32 bs) (\<lambda>(ps, bs).
     Option.bind (get_u32 bs) (\<lambda>(ns, bs).
     Option.bind (get_u32 bs) (\<lambda>(db, bs).
       Some (\<lparr>cs_offset = o1, cs_positive_coefficient = pc, cs_negative_coefficient = nc,
              cs_positive_saturation = ps, cs_negative_saturation = ns, cs_dead_band = db\<rparr>, bs)))))))"

fun get_many :: "(byte list \<Rightarrow> ('a \<times> byte list) option) \<Rightarrow> nat \<Rightarrow> byte list
    \<Rightarrow> ('a list \<times> byte list) option" where
  "get_many get 0 bs = Some ([], bs)"
| "get_many get (Suc n) bs =
     Option.bind (get bs) (\<lambda>(x, bs').
       map_option (\<lambda>(xs, r). (x # xs, r)) (get_many get n bs'))"

section \<open>The contract of a writer and its reader\<close>

locale byte_codec =
  fixes put :: "'a \<Rightarrow> byte list"
    and get :: "byte list \<Rightarrow> ('a \<times> byte list) option"
    and width :: nat
    and wf :: "'a \<Rightarrow> bool"
  assumes put_width: "wf x \<Longrightarrow> length (put x) = width"
    and get_put: "wf x \<Longrightarrow> get (put x @ r) = Some (x, r)"
begin

lemma get_put_nil: "wf x \<Longrightarrow> get (put x) = Some (x, [])"
  using get_put[of x "[]"] by simp

lemma put_inject: "wf x \<Longrightarrow> wf y \<Longrightarrow> put x @ r = put y @ s \<Longrightarrow> x = y \<and> r = s"
  by (metis get_put option.inject prod.inject)

lemma length_concat_put: "list_all wf xs \<Longrightarrow> length (concat (map put xs)) = length xs * width"
  by (induction xs) (auto simp: put_width)

lemma get_many_put:
  "list_all wf xs \<Longrightarrow> get_many get (length xs) (concat (map put xs) @ r) = Some (xs, r)"
  by (induction xs) (auto simp: get_put)

end

text \<open>An array of \<open>count\<close> elements is a codec of its own.\<close>

locale array_codec = byte_codec put get width wf
  for put :: "'a \<Rightarrow> byte list" and get width wf +
  fixes count :: nat
begin

sublocale arr: byte_codec "\<lambda>xs. concat (map put xs)" "get_many get count" "count * width"
  "\<lambda>xs. length xs = count \<and> list_all wf xs"
  by unfold_locales (auto simp: length_concat_put get_many_put)

end

section \<open>The writers of the program satisfy it\<close>

lemma put_u16_bytes: "put_u16 x @ r = ucast x # ucast (drop_bit 8 x) # r"
  by (simp add: put_u16_def)

lemma put_u32_bytes:
  "put_u32 x @ r = ucast x # ucast (drop_bit 8 x) # ucast (drop_bit 16 x) # ucast (drop_bit 24 x) # r"
  by (simp add: put_u32_def)

lemma put_u64_bytes:
  "put_u64 x @ r = ucast x # ucast (drop_bit 8 x) # ucast (drop_bit 16 x) # ucast (drop_bit 24 x)
     # ucast (drop_bit 32 x) # ucast (drop_bit 40 x) # ucast (drop_bit 48 x)
     # ucast (drop_bit 56 x) # r"
  by (simp add: put_u64_def)

interpretation u16c: byte_codec put_u16 get_u16 2 "\<lambda>_. True"
  by unfold_locales (simp_all add: put_u16_bytes le16_split, simp add: put_u16_def)

interpretation u32c: array_codec put_u32 get_u32 4 "\<lambda>_. True" 8
  by unfold_locales (simp_all add: put_u32_bytes le32_split, simp add: put_u32_def)

interpretation u64c: byte_codec put_u64 get_u64 8 "\<lambda>_. True"
  by unfold_locales (simp_all add: put_u64_bytes le64_split, simp add: put_u64_def)

interpretation i32c: array_codec put_i32 get_u32 4 "\<lambda>_. True" 8
  by unfold_locales (simp_all add: put_i32_def u32c.put_width u32c.get_put)

interpretation fixc: byte_codec "\<lambda>s. put_fixed_string s n" "get_bytes n" n "\<lambda>s. length s = n"
  for n by unfold_locales (simp_all add: put_fixed_string_def get_bytes_def)

interpretation condc: array_codec put_condition get_condition 24 "\<lambda>_. True" 8
  by unfold_locales
     (simp_all add: put_condition_def get_condition_def i32c.put_width u32c.put_width
        i32c.get_put u32c.get_put)

lemmas codec_widths [codec] =
  u16c.put_width[OF TrueI] u32c.put_width[OF TrueI] u64c.put_width[OF TrueI]
  i32c.put_width[OF TrueI] fixc.put_width condc.put_width[OF TrueI]

lemma array_widths [codec]:
  "length (concat (map put_i32 xs)) = length xs * 4"
  "length (concat (map put_condition cs)) = length cs * 24"
  by (simp_all add: i32c.length_concat_put condc.length_concat_put list_all_iff)

lemma array_reads [codec]:
  "length xs = n \<Longrightarrow> get_many get_u32 n (concat (map put_i32 xs) @ r) = Some (xs, r)"
  "length cs = n \<Longrightarrow> get_many get_condition n (concat (map put_condition cs) @ r) = Some (cs, r)"
  using i32c.get_many_put[of xs r] condc.get_many_put[of cs r] by (simp_all add: list_all_iff)

lemmas codec_reads [codec] =
  u16c.get_put[OF TrueI] u32c.get_put[OF TrueI] u64c.get_put[OF TrueI]
  i32c.get_put[OF TrueI] fixc.get_put condc.get_put[OF TrueI]

end
