(* ===== verification/Utf8_Text.thy ===== *)
theory Utf8_Text imports FFB_Prelude begin

text \<open>
  Bounded text copies: \<open>copy_utf8_truncated\<close> of \<open>src/telemetry_protocol.cpp\<close>, and the UTF-8
  decoder with replacement characters that the viewer applies to the copied bytes
  (\<open>bytes.decode ("utf-8", errors="replace")\<close> of the Python standard library).  The lemmas show
  that cutting well-formed UTF-8 at a byte that is no continuation byte leaves well-formed
  UTF-8 whose code points are a prefix of the original ones.
\<close>

section \<open>UTF-8\<close>

definition utf8_continuation :: "byte \<Rightarrow> bool" where
  "utf8_continuation b \<longleftrightarrow> b AND 0xC0 = 0x80"

text \<open>The remaining bytes of a sequence: how many are due, the range of the next one, the code
  point so far and the number of bytes used so far.  \<open>None\<close> is a malformed sequence.\<close>

fun utf8_tail :: "nat \<Rightarrow> nat \<Rightarrow> nat \<Rightarrow> nat \<Rightarrow> nat \<Rightarrow> byte list \<Rightarrow> nat option \<times> nat" where
  "utf8_tail 0 lo hi acc k bs = (Some acc, k)"
| "utf8_tail (Suc n) lo hi acc k [] = (None, k)"
| "utf8_tail (Suc n) lo hi acc k (b # bs) =
     (if lo \<le> unat b \<and> unat b \<le> hi
      then utf8_tail n 0x80 0xBF (acc * 64 + (unat b - 0x80)) (Suc k) bs
      else (None, k))"

fun utf8_step :: "byte list \<Rightarrow> nat option \<times> nat" where
  "utf8_step [] = (None, 0)"
| "utf8_step (a # r) =
     (let x = unat a in
      if x < 0x80 then (Some x, 1)
      else if 0xC2 \<le> x \<and> x \<le> 0xDF then utf8_tail 1 0x80 0xBF (x - 0xC0) 1 r
      else if 0xE0 \<le> x \<and> x \<le> 0xEF then
        utf8_tail 2 (if x = 0xE0 then 0xA0 else 0x80) (if x = 0xED then 0x9F else 0xBF)
          (x - 0xE0) 1 r
      else if 0xF0 \<le> x \<and> x \<le> 0xF4 then
        utf8_tail 3 (if x = 0xF0 then 0x90 else 0x80) (if x = 0xF4 then 0x8F else 0xBF)
          (x - 0xF0) 1 r
      else (None, 1))"

lemma utf8_tail_used: "k \<le> snd (utf8_tail n lo hi acc k bs)"
  by (induction n lo hi acc k bs rule: utf8_tail.induct) auto

lemma utf8_step_used: "bs \<noteq> [] \<Longrightarrow> 0 < snd (utf8_step bs)"
  using utf8_tail_used[of 1] by (cases bs) (auto simp: Let_def Suc_le_eq)

function utf8_decode :: "byte list \<Rightarrow> nat list" where
  "utf8_decode bs =
     (if bs = [] then []
      else (case fst (utf8_step bs) of None \<Rightarrow> 0xFFFD | Some c \<Rightarrow> c)
             # utf8_decode (drop (snd (utf8_step bs)) bs))"
  by pat_completeness auto
termination
  by (relation "measure length") (auto simp: utf8_step_used)

function utf8_valid :: "byte list \<Rightarrow> bool" where
  "utf8_valid bs =
     (if bs = [] then True
      else fst (utf8_step bs) \<noteq> None \<and> utf8_valid (drop (snd (utf8_step bs)) bs))"
  by pat_completeness auto
termination
  by (relation "measure length") (auto simp: utf8_step_used)

declare utf8_decode.simps [simp del] utf8_valid.simps [simp del]

lemma utf8_nil [simp]: "utf8_decode [] = []" "utf8_valid []"
  by (simp_all add: utf8_decode.simps utf8_valid.simps)

text \<open>A continuation byte is one of 0x80 to 0xBF.\<close>

lemma utf8_continuation_nat:
  "\<forall>n \<in> set [0..<256]. (word_of_nat n :: byte) AND 0xC0 = 0x80 \<longleftrightarrow> 0x80 \<le> n \<and> n \<le> 0xBF"
  by code_simp

lemma utf8_continuation_iff: "utf8_continuation b \<longleftrightarrow> 0x80 \<le> unat b \<and> unat b \<le> 0xBF"
proof -
  have "unat b \<in> set [0..<256]" using unsigned_less[of b] by simp
  from bspec[OF utf8_continuation_nat this] show ?thesis
    by (simp add: utf8_continuation_def)
qed

text \<open>A complete sequence: its later bytes are continuation bytes, and only they were read.\<close>

lemma utf8_tail_conts:
  assumes "utf8_tail n lo hi acc k bs = (Some c, m)" and "0x80 \<le> lo" and "hi \<le> 0xBF"
  shows "m = k + n \<and> n \<le> length bs \<and> (\<forall>i < n. utf8_continuation (bs ! i))"
  using assms
proof (induction n lo hi acc k bs rule: utf8_tail.induct)
  case (3 n lo hi acc k b bs)
  then show ?case
    by (auto simp: utf8_continuation_iff nth_Cons split: if_splits nat.splits)
qed auto

lemma utf8_tail_local:
  assumes "utf8_tail n lo hi acc k bs = (Some c, m)" and "n \<le> j"
  shows "utf8_tail n lo hi acc k (take j bs) = (Some c, m)"
  using assms
proof (induction n lo hi acc k bs arbitrary: j rule: utf8_tail.induct)
  case (3 n lo hi acc k b bs)
  then obtain i where "j = Suc i" "n \<le> i" by (cases j) auto
  with 3 show ?case by (auto split: if_splits)
qed auto

lemma utf8_step_multi:
  assumes "utf8_step (a # r) = (Some c, k)" and "\<not> unat a < 0x80"
  shows "\<exists>n lo hi acc. 0x80 \<le> lo \<and> hi \<le> 0xBF \<and>
    (\<forall>s. utf8_step (a # s) = utf8_tail n lo hi acc 1 s)"
proof -
  consider "0xC2 \<le> unat a \<and> unat a \<le> 0xDF" | "0xE0 \<le> unat a \<and> unat a \<le> 0xEF"
    | "0xF0 \<le> unat a \<and> unat a \<le> 0xF4"
    using assms by (auto simp: Let_def split: if_splits)
  then show ?thesis
  proof cases
    case 1
    then show ?thesis
      by (intro exI[of _ 1] exI[of _ "0x80"] exI[of _ "0xBF"] exI[of _ "unat a - 0xC0"])
         (auto simp: Let_def)
  next
    case 2
    then show ?thesis
      by (intro exI[of _ 2] exI[of _ "if unat a = 0xE0 then 0xA0 else 0x80"]
            exI[of _ "if unat a = 0xED then 0x9F else 0xBF"] exI[of _ "unat a - 0xE0"])
         (auto simp: Let_def)
  next
    case 3
    then show ?thesis
      by (intro exI[of _ 3] exI[of _ "if unat a = 0xF0 then 0x90 else 0x80"]
            exI[of _ "if unat a = 0xF4 then 0x8F else 0xBF"] exI[of _ "unat a - 0xF0"])
         (auto simp: Let_def)
  qed
qed

lemma utf8_step_conts:
  assumes "utf8_step bs = (Some c, k)"
  shows "0 < k \<and> k \<le> length bs \<and> (\<forall>i. 0 < i \<longrightarrow> i < k \<longrightarrow> utf8_continuation (bs ! i))
    \<and> (\<forall>j. k \<le> j \<longrightarrow> utf8_step (take j bs) = (Some c, k))"
proof (cases bs)
  case Nil
  with assms show ?thesis by simp
next
  case (Cons a r)
  show ?thesis
  proof (cases "unat a < 0x80")
    case True
    with assms Cons show ?thesis by (auto simp: Let_def take_Cons' Suc_le_eq)
  next
    case False
    from assms Cons have st: "utf8_step (a # r) = (Some c, k)" by (simp only:)
    from utf8_step_multi[OF st False] obtain n lo hi acc where lo: "0x80 \<le> lo" and hi: "hi \<le> 0xBF"
      and eqs: "\<forall>s. utf8_step (a # s) = utf8_tail n lo hi acc 1 s"
      by (elim exE conjE)
    note eq = spec[OF eqs]
    from st have t: "utf8_tail n lo hi acc 1 r = (Some c, k)" by (simp only: eq)
    from utf8_tail_conts[OF t lo hi] have m: "k = Suc n" "n \<le> length r"
      "\<forall>i < n. utf8_continuation (r ! i)" by auto
    have "utf8_step (take j bs) = (Some c, k)" if "k \<le> j" for j
    proof -
      from that m obtain j' where "j = Suc j'" "n \<le> j'" by (cases j) auto
      then show ?thesis
        using Cons utf8_tail_local[OF t, of j'] by (simp only: take_Suc_Cons eq)
    qed
    with m Cons show ?thesis by (auto simp: nth_Cons split: nat.splits)
  qed
qed

text \<open>Cutting well-formed text before a byte that is no continuation byte.\<close>

lemma utf8_cut:
  assumes "utf8_valid bs" and "n < length bs" and "n = 0 \<or> \<not> utf8_continuation (bs ! n)"
  shows "utf8_valid (take n bs)
    \<and> utf8_decode (take n bs) = take (length (utf8_decode (take n bs))) (utf8_decode bs)"
  using assms
proof (induction bs arbitrary: n rule: utf8_valid.induct)
  case (1 bs)
  from "1.prems"(2) have ne: "bs \<noteq> []" by auto
  with "1.prems"(1) obtain c k where st: "utf8_step bs = (Some c, k)"
    and rest: "utf8_valid (drop k bs)"
    by (cases "utf8_step bs") (auto simp: utf8_valid.simps[of bs])
  from utf8_step_conts[OF st] have k: "0 < k" "k \<le> length bs"
    and conts: "\<forall>i. 0 < i \<longrightarrow> i < k \<longrightarrow> utf8_continuation (bs ! i)"
    and loc: "\<forall>j. k \<le> j \<longrightarrow> utf8_step (take j bs) = (Some c, k)" by auto
  show ?case
  proof (cases "n = 0")
    case True
    then show ?thesis by simp
  next
    case False
    with conts "1.prems"(3) have kn: "k \<le> n" by (metis bot_nat_0.not_eq_extremum not_less)
    have len: "n - k < length (drop k bs)" using kn "1.prems"(2) by simp
    have "n - k = 0 \<or> \<not> utf8_continuation (drop k bs ! (n - k))"
      using False kn k(2) "1.prems"(3) by auto
    then have ih: "utf8_valid (take (n - k) (drop k bs))"
      "utf8_decode (take (n - k) (drop k bs)) =
         take (length (utf8_decode (take (n - k) (drop k bs)))) (utf8_decode (drop k bs))"
      using "1.IH"[OF ne, of "n - k"] st rest len by auto
    have dt: "drop k (take n bs) = take (n - k) (drop k bs)" by (simp add: drop_take)
    have tn: "take n bs \<noteq> []" using False ne by simp
    have "utf8_decode (take n bs) = c # utf8_decode (take (n - k) (drop k bs))"
      using tn loc kn dt by (simp add: utf8_decode.simps[of "take n bs"])
    moreover have "utf8_decode bs = c # utf8_decode (drop k bs)"
      using ne st by (simp add: utf8_decode.simps[of bs])
    moreover have "utf8_valid (take n bs)"
      using tn loc kn dt ih(1) by (simp add: utf8_valid.simps[of "take n bs"])
    ultimately show ?thesis using ih(2) by simp
  qed
qed

section \<open>copy_utf8_truncated\<close>

text \<open>The back-up loop: drop the excluded continuation bytes and their lead byte.\<close>

fun drop_partial_code_point :: "byte list \<Rightarrow> nat \<Rightarrow> nat" where
  "drop_partial_code_point text 0 = 0"
| "drop_partial_code_point text (Suc n) =
     (if text ! (Suc n) AND 0xC0 = 0x80 then drop_partial_code_point text n else Suc n)"

text \<open>\<open>None\<close> stands for a null pointer; the result is the destination buffer and the length.\<close>

definition copy_utf8_truncated ::
  "byte list option \<Rightarrow> nat \<Rightarrow> byte list option \<Rightarrow> nat \<Rightarrow> byte list option \<times> nat" where
  "copy_utf8_truncated dest capacity text sz =
     (case dest of
        None \<Rightarrow> (None, 0)
      | Some buf \<Rightarrow>
          if capacity = 0 then (Some buf, 0)
          else if text = None \<and> sz \<noteq> 0 then (Some (buf[0 := 0]), 0)
          else
            let t = (case text of None \<Rightarrow> [] | Some t \<Rightarrow> t);
                len0 = min sz (capacity - 1);
                len = (if len0 < sz then drop_partial_code_point t len0 else len0);
                copied = (if len \<noteq> 0 then take len t @ drop len buf else buf)
            in (Some (copied[len := 0]), len))"

lemma drop_partial_le: "drop_partial_code_point t n \<le> n"
  by (induction t n rule: drop_partial_code_point.induct) auto

lemma drop_partial_stop:
  "drop_partial_code_point t n = 0 \<or> \<not> utf8_continuation (t ! drop_partial_code_point t n)"
  by (induction t n rule: drop_partial_code_point.induct) (auto simp: utf8_continuation_def)

lemma drop_partial_skips:
  "drop_partial_code_point t n < i \<Longrightarrow> i \<le> n \<Longrightarrow> utf8_continuation (t ! i)"
proof (induction t n rule: drop_partial_code_point.induct)
  case (2 t n)
  then show ?case
    by (cases "i = Suc n") (auto simp: utf8_continuation_def split: if_splits)
qed simp

text \<open>The stored length and bytes of a copy from a real text into a real buffer.\<close>

lemma copy_utf8_truncated_eq:
  assumes "length buf = capacity" and "0 < capacity" and "length t = sz"
  defines "len \<equiv> (if sz \<le> capacity - 1 then sz else drop_partial_code_point t (capacity - 1))"
  shows "copy_utf8_truncated (Some buf) capacity (Some t) sz =
    (Some (take len t @ 0 # drop (Suc len) buf), len) \<and> len < capacity \<and> len \<le> sz"
proof -
  have lt: "len < capacity" "len \<le> sz"
    using assms(2) drop_partial_le[of t "capacity - 1"] unfolding len_def by (auto split: if_splits)
  have upd: "(take len t @ drop len buf)[len := 0] = take len t @ 0 # drop (Suc len) buf"
    using lt assms by (auto simp: list_update_append Cons_nth_drop_Suc [symmetric])
  moreover have "(if len \<noteq> 0 then take len t @ drop len buf else buf) = take len t @ drop len buf"
    by simp
  ultimately show ?thesis
    using lt assms(1-3) unfolding copy_utf8_truncated_def len_def
    by (auto simp: Let_def min_def)
qed

lemma utf8_step_lead:
  assumes "utf8_step (a # r) = (Some c, k)"
  shows "k \<le> 4 \<and> \<not> utf8_continuation a"
proof -
  have len: "m = k' + n" if "utf8_tail n lo hi acc k' bs = (Some c, m)" for n lo hi acc k' bs m
    using that
    by (induction n lo hi acc k' bs rule: utf8_tail.induct) (auto split: if_splits)
  from assms show ?thesis
    by (auto simp: Let_def utf8_continuation_iff split: if_splits dest!: len)
qed

lemma utf8_lead_near:
  assumes "utf8_valid bs" and "n < length bs"
  shows "\<exists>m \<le> n. n \<le> m + 3 \<and> \<not> utf8_continuation (bs ! m)"
  using assms
proof (induction bs arbitrary: n rule: utf8_valid.induct)
  case (1 bs)
  then obtain a r where bs: "bs = a # r" by (cases bs) auto
  with "1.prems"(1) obtain c k where st: "utf8_step (a # r) = (Some c, k)"
    and rest: "utf8_valid (drop k bs)"
    by (cases "utf8_step (a # r)") (auto simp: utf8_valid.simps[of "a # r"])
  from utf8_step_lead[OF st] have k: "k \<le> 4" and lead: "\<not> utf8_continuation a" by auto
  show ?case
  proof (cases "n < k")
    case True
    with k lead bs show ?thesis by (intro exI[of _ 0]) auto
  next
    case False
    have "drop (snd (utf8_step bs)) bs = drop k bs" "fst (utf8_step bs) \<noteq> None" "bs \<noteq> []"
      using st bs by (simp_all del: utf8_step.simps)
    from "1.IH"[OF this(3), of "n - k", unfolded this(1)] rest False "1.prems"(2)
    obtain m where "m \<le> n - k" "n - k \<le> m + 3" "\<not> utf8_continuation (drop k bs ! m)"
      by fastforce
    with False "1.prems"(2) show ?thesis by (intro exI[of _ "k + m"]) auto
  qed
qed

lemma drop_partial_near:
  assumes "utf8_valid t" and "n < length t"
  shows "n \<le> drop_partial_code_point t n + 3"
proof -
  obtain m where "m \<le> n" "n \<le> m + 3" "\<not> utf8_continuation (t ! m)"
    using utf8_lead_near[OF assms] by blast
  then show ?thesis using drop_partial_skips[of t n m] by linarith
qed

section \<open>Properties\<close>

text \<open>C4: copying well-formed UTF-8 into a buffer of \<open>capacity\<close> bytes stores a NUL-terminated
  prefix that fits, is well-formed itself, decodes to a prefix of the original code points, is the
  whole text when it fits, and drops at most three bytes of room otherwise; the bytes after the
  terminator are untouched.\<close>

theorem truncated_copy_is_utf8:
  assumes "length buf = capacity" and "0 < capacity" and "utf8_valid t"
  defines "len \<equiv> snd (copy_utf8_truncated (Some buf) capacity (Some t) (length t))"
  shows "copy_utf8_truncated (Some buf) capacity (Some t) (length t)
      = (Some (take len t @ 0 # drop (Suc len) buf), len)
    \<and> len < capacity \<and> (length t < capacity \<longrightarrow> len = length t)
    \<and> (capacity \<le> length t \<longrightarrow> capacity - 1 \<le> len + 3)
    \<and> utf8_valid (take len t)
    \<and> utf8_decode (take len t) = take (length (utf8_decode (take len t))) (utf8_decode t)"
proof -
  note eq = copy_utf8_truncated_eq[OF assms(1,2) refl, of t]
  have len: "len = (if length t \<le> capacity - 1 then length t
      else drop_partial_code_point t (capacity - 1))"
    using eq by (simp add: len_def)
  show ?thesis
  proof (cases "length t \<le> capacity - 1")
    case True
    with eq len assms(2,3) show ?thesis by auto
  next
    case False
    then have lt: "drop_partial_code_point t (capacity - 1) < length t"
      using drop_partial_le[of t "capacity - 1"] by linarith
    from utf8_cut[OF assms(3) lt drop_partial_stop]
      drop_partial_near[OF assms(3), of "capacity - 1"] eq len False
    show ?thesis by auto
  qed
qed

theorem truncated_copy_is_utf8_witness:
  "utf8_valid [0x61, 0xC3, 0xA9] \<and>
   copy_utf8_truncated (Some [7, 7, 7]) 3 (Some [0x61, 0xC3, 0xA9]) 3 = (Some [0x61, 0, 7], 1)"
proof -
  have v: "utf8_valid [0x61, 0xC3, 0xA9]" by (simp add: utf8_valid.simps)
  have l: "snd (copy_utf8_truncated (Some [7, 7, 7]) 3 (Some [0x61, 0xC3, 0xA9]) 3) = 1"
    by code_simp
  have "length [0x61, 0xC3, 0xA9 :: byte] = 3" by simp
  with v l truncated_copy_is_utf8[of "[7, 7, 7]" 3, OF _ _ v] show ?thesis
    by (simp del: One_nat_def add: numeral_3_eq_3 [symmetric] take_Cons')
qed

end
