(* ===== verification/Wire_Event.thy ===== *)
theory Wire_Event imports Wire_Codec Utf8_Text begin

text \<open>
  The event of \<open>src/telemetry_protocol.h\<close> and its wire format: the enums, \<open>struct Event\<close>,
  \<open>serialize_event\<close> and \<open>valid_frame\<close> of \<open>src/telemetry_protocol.cpp\<close>.  The record has one
  field per member, arrays as lists of their declared length (\<open>event_wf\<close>).
\<close>

section \<open>Constants and enums\<close>

definition kProtocolVersion :: u16 where "kProtocolVersion = 1"
definition kMaxFrameSize :: nat where "kMaxFrameSize = 64 * 1024"
definition kMaxAxes :: nat where "kMaxAxes = 8"

definition kEffectCreatedParametersAbsentFlag :: u32 where
  "kEffectCreatedParametersAbsentFlag = 0x08000000"
definition kEffectCreatedParametersPresentFlag :: u32 where
  "kEffectCreatedParametersPresentFlag = 0x10000000"
definition kEffectCreatedParametersPresenceMask :: u32 where
  "kEffectCreatedParametersPresenceMask =
     kEffectCreatedParametersAbsentFlag OR kEffectCreatedParametersPresentFlag"

datatype MessageType = Hello | DeviceCreated | DevicePropertyChanged | EffectCreated
  | EffectParametersChanged | EffectCommandMsg | DeviceCommand | DropNotice

fun message_code :: "MessageType \<Rightarrow> u16" where
  "message_code Hello = 1"
| "message_code DeviceCreated = 2"
| "message_code DevicePropertyChanged = 3"
| "message_code EffectCreated = 4"
| "message_code EffectParametersChanged = 5"
| "message_code EffectCommandMsg = 6"
| "message_code DeviceCommand = 7"
| "message_code DropNotice = 8"

datatype EffectKind = KindUnknown | KindConstant | KindRamp | KindSquare | KindSine | KindTriangle
  | KindSawtoothUp | KindSawtoothDown | KindSpring | KindDamper | KindInertia | KindFriction
  | KindCustom

fun kind_code :: "EffectKind \<Rightarrow> u16" where
  "kind_code KindUnknown = 0"
| "kind_code KindConstant = 1"
| "kind_code KindRamp = 2"
| "kind_code KindSquare = 3"
| "kind_code KindSine = 4"
| "kind_code KindTriangle = 5"
| "kind_code KindSawtoothUp = 6"
| "kind_code KindSawtoothDown = 7"
| "kind_code KindSpring = 8"
| "kind_code KindDamper = 9"
| "kind_code KindInertia = 10"
| "kind_code KindFriction = 11"
| "kind_code KindCustom = 12"

datatype EffectCommand = CmdDownload | CmdStart | CmdStop | CmdUnload | CmdRelease

fun command_code :: "EffectCommand \<Rightarrow> u16" where
  "command_code CmdDownload = 1"
| "command_code CmdStart = 2"
| "command_code CmdStop = 3"
| "command_code CmdUnload = 4"
| "command_code CmdRelease = 5"

datatype EffectParameterPresence = PresenceUnknown | PresenceAbsent | PresencePresent

section \<open>The event\<close>

record Event =
  ev_type :: MessageType
  ev_effect_kind :: EffectKind
  ev_presence :: EffectParameterPresence
  ev_command :: u16
  ev_flags :: u32
  ev_sequence :: u64
  ev_qpc_ticks :: u64
  ev_process_id :: u32
  ev_device_id :: u32
  ev_effect_id :: u32
  ev_effect_guid :: GUID
  ev_hresult :: i32
  ev_di_flags :: u32
  ev_duration :: u32
  ev_sample_period :: u32
  ev_gain :: u32
  ev_start_delay :: u32
  ev_trigger_button :: u32
  ev_trigger_repeat :: u32
  ev_iterations :: u32
  ev_attack_level :: u32
  ev_attack_time :: u32
  ev_fade_level :: u32
  ev_fade_time :: u32
  ev_qpc_frequency :: u32
  ev_property_id :: u32
  ev_dropped :: u32
  ev_magnitude :: i32
  ev_ramp_start :: i32
  ev_ramp_end :: i32
  ev_periodic_magnitude :: i32
  ev_periodic_offset :: i32
  ev_periodic_phase :: i32
  ev_periodic_period :: i32
  ev_axis_count :: u32
  ev_axes :: "i32 list"
  ev_directions :: "i32 list"
  ev_condition_count :: u32
  ev_conditions :: "ConditionSample list"
  ev_type_specific_size :: u32
  ev_custom_redacted :: bool
  ev_build_version :: "byte list"
  ev_session_id :: "byte list"
  ev_text :: "byte list"

text \<open>\<open>Event event{}\<close>: every member at its default initializer.\<close>

definition empty_event :: Event where
  "empty_event = \<lparr>
     ev_type = DropNotice, ev_effect_kind = KindUnknown, ev_presence = PresenceUnknown,
     ev_command = 0, ev_flags = 0, ev_sequence = 0, ev_qpc_ticks = 0, ev_process_id = 0,
     ev_device_id = 0, ev_effect_id = 0, ev_effect_guid = GUID_NULL, ev_hresult = 0,
     ev_di_flags = 0, ev_duration = 0, ev_sample_period = 0, ev_gain = 0, ev_start_delay = 0,
     ev_trigger_button = 0, ev_trigger_repeat = 0, ev_iterations = 0, ev_attack_level = 0,
     ev_attack_time = 0, ev_fade_level = 0, ev_fade_time = 0, ev_qpc_frequency = 0,
     ev_property_id = 0, ev_dropped = 0, ev_magnitude = 0, ev_ramp_start = 0, ev_ramp_end = 0,
     ev_periodic_magnitude = 0, ev_periodic_offset = 0, ev_periodic_phase = 0,
     ev_periodic_period = 0, ev_axis_count = 0, ev_axes = replicate kMaxAxes 0,
     ev_directions = replicate kMaxAxes 0, ev_condition_count = 0,
     ev_conditions = replicate kMaxAxes zero_condition, ev_type_specific_size = 0,
     ev_custom_redacted = False, ev_build_version = replicate 32 0,
     ev_session_id = replicate 32 0, ev_text = replicate 64 0\<rparr>"

text \<open>What the declaration of the struct fixes: the array lengths.  \<open>event_bounded\<close> adds the
  bounds every producer of events keeps: the two counts never exceed the arrays.\<close>

definition event_wf :: "Event \<Rightarrow> bool" where
  "event_wf e \<longleftrightarrow> guid_wf (ev_effect_guid e) \<and> length (ev_axes e) = kMaxAxes
     \<and> length (ev_directions e) = kMaxAxes \<and> length (ev_conditions e) = kMaxAxes
     \<and> length (ev_build_version e) = 32 \<and> length (ev_session_id e) = 32
     \<and> length (ev_text e) = 64"

definition event_bounded :: "Event \<Rightarrow> bool" where
  "event_bounded e \<longleftrightarrow> event_wf e \<and> unat (ev_axis_count e) \<le> kMaxAxes
     \<and> unat (ev_condition_count e) \<le> kMaxAxes"

lemma empty_event_bounded: "event_bounded empty_event"
  by (simp add: event_bounded_def event_wf_def guid_wf_def empty_event_def GUID_NULL_def)

section \<open>serialize_event\<close>

definition payload_numbers :: "Event \<Rightarrow> byte list" where
  "payload_numbers e =
     put_u32 (ev_process_id e) @
     put_u32 (ev_qpc_frequency e) @
     put_u32 (ev_device_id e) @
     put_u32 (ev_effect_id e) @
     put_guid (ev_effect_guid e) @
     put_i32 (ev_hresult e) @
     put_u32 (ev_di_flags e) @
     put_u32 (ev_duration e) @
     put_u32 (ev_sample_period e) @
     put_u32 (ev_gain e) @
     put_u32 (ev_start_delay e) @
     put_u32 (ev_trigger_button e) @
     put_u32 (ev_trigger_repeat e) @
     put_u32 (ev_iterations e) @
     put_u32 (ev_attack_level e) @
     put_u32 (ev_attack_time e) @
     put_u32 (ev_fade_level e) @
     put_u32 (ev_fade_time e) @
     put_u32 (ev_property_id e) @
     put_u32 (ev_dropped e) @
     put_i32 (ev_magnitude e) @
     put_i32 (ev_ramp_start e) @
     put_i32 (ev_ramp_end e) @
     put_i32 (ev_periodic_magnitude e) @
     put_i32 (ev_periodic_offset e) @
     put_i32 (ev_periodic_phase e) @
     put_i32 (ev_periodic_period e) @
     put_u32 (ev_axis_count e)"

definition payload_tail :: "Event \<Rightarrow> byte list" where
  "payload_tail e =
     concat (map put_i32 (take kMaxAxes (ev_axes e))) @
     concat (map put_i32 (take kMaxAxes (ev_directions e))) @
     put_u32 (ev_condition_count e) @
     concat (map put_condition (take kMaxAxes (ev_conditions e))) @
     put_u32 (ev_type_specific_size e) @
     put_u32 (if ev_custom_redacted e then 1 else 0) @
     put_fixed_string (ev_build_version e) 32 @
     put_fixed_string (ev_session_id e) 32 @
     put_string (ev_text e) @
     put_u16 (kind_code (ev_effect_kind e)) @
     put_u16 (ev_command e)"

definition event_payload :: "Event \<Rightarrow> byte list" where
  "event_payload e = payload_numbers e @ payload_tail e"

definition wire_flags :: "Event \<Rightarrow> u32" where
  "wire_flags e =
     (if ev_type e = EffectCreated then
        let cleared = ev_flags e AND NOT kEffectCreatedParametersPresenceMask in
        (case ev_presence e of
           PresenceAbsent \<Rightarrow> cleared OR kEffectCreatedParametersAbsentFlag
         | PresencePresent \<Rightarrow> cleared OR kEffectCreatedParametersPresentFlag
         | PresenceUnknown \<Rightarrow> cleared)
      else ev_flags e)"

definition serialize_event :: "Event \<Rightarrow> byte list" where
  "serialize_event e =
     (let payload = event_payload e in
        ascii ''FFB1'' @
        put_u16 kProtocolVersion @
        put_u16 (message_code (ev_type e)) @
        put_u32 (word_of_nat (32 + length payload)) @
        put_u32 (wire_flags e) @
        put_u64 (ev_sequence e) @
        put_u64 (ev_qpc_ticks e) @
        payload)"

section \<open>valid_frame\<close>

text \<open>\<open>data\<close> is the memory the pointer leads to (\<open>None\<close> for null), \<open>sz\<close> the size argument.\<close>

definition valid_frame :: "byte list option \<Rightarrow> nat \<Rightarrow> bool" where
  "valid_frame data sz =
     (case data of None \<Rightarrow> False
      | Some d \<Rightarrow>
          \<not> (sz < 32 \<or> sz > kMaxFrameSize) \<and>
          take 4 d = ascii ''FFB1'' \<and>
          le16 (d ! 4) (d ! 5) = kProtocolVersion \<and>
          unat (le32 (d ! 8) (d ! 9) (d ! 10) (d ! 11)) = sz)"

section \<open>Lengths\<close>

lemma put_guid_width [codec]: "guid_wf g \<Longrightarrow> length (put_guid g) = 16"
  by (simp add: put_guid_def guid_wf_def codec)

lemma put_string_width [codec]:
  "length (put_string s) = 2 + min (strnlen_s s 63) 63"
proof -
  have "strnlen_s s 63 \<le> length s"
    unfolding strnlen_s_def using length_takeWhile_le[of "\<lambda>b. b \<noteq> 0" "take 63 s"] by simp
  then show ?thesis by (simp add: put_string_def Let_def codec)
qed

lemma payload_numbers_length: "event_wf e \<Longrightarrow> length (payload_numbers e) = 124"
  by (simp add: payload_numbers_def event_wf_def codec)

lemma payload_tail_length:
  "event_wf e \<Longrightarrow> length (payload_tail e) = 338 + min (strnlen_s (ev_text e) 63) 63"
  by (simp add: payload_tail_def event_wf_def codec kMaxAxes_def)

lemma serialize_event_length:
  "event_wf e \<Longrightarrow> length (serialize_event e) = 494 + min (strnlen_s (ev_text e) 63) 63"
  by (simp add: serialize_event_def Let_def event_payload_def payload_numbers_length
      payload_tail_length codec)

lemma serialize_event_bounds:
  "event_wf e \<Longrightarrow> 494 \<le> length (serialize_event e) \<and> length (serialize_event e) \<le> 557"
  by (simp add: serialize_event_length)

lemma frame_length_field:
  "event_wf e \<Longrightarrow> unat (word_of_nat (32 + length (event_payload e)) :: u32)
     = length (serialize_event e)"
  by (simp add: serialize_event_length event_payload_def payload_numbers_length
      payload_tail_length of_nat_inverse)

text \<open>The header of a serialized event, byte by byte.\<close>

lemma serialize_event_header:
  "\<exists>r. serialize_event e = 0x46 # 0x46 # 0x42 # 0x31 # 1 # 0 #
     ucast (message_code (ev_type e)) # ucast (drop_bit 8 (message_code (ev_type e))) #
     put_u32 (word_of_nat (32 + length (event_payload e))) @ put_u32 (wire_flags e) @
     put_u64 (ev_sequence e) @ put_u64 (ev_qpc_ticks e) @ r \<and> r = event_payload e"
  by (simp add: serialize_event_def Let_def ascii_def put_u16_bytes kProtocolVersion_def)

end
