(* ===== verification/Viewer_Decode.thy ===== *)
theory Viewer_Decode imports Wire_Event "HOL-Library.Monad_Syntax" begin

text \<open>
  The consumer side of the wire: \<open>decode_frame\<close> and \<open>iter_frames\<close> of
  \<open>viewer/src/ffb_visualizer/protocol.py\<close>, with the \<open>Frame\<close> and \<open>Condition\<close> classes.  Python
  integers are \<open>int\<close>, strings are lists of code points, a \<open>ProtocolError\<close> is a value of
  \<open>protocol_error\<close> (one constructor per message), and \<open>struct.error\<close>, which no path reaches,
  is one of them.  The lemmas prove that the reader inverts the writer of the C++ side.
\<close>

section \<open>Frames\<close>

record PyCondition =
  pc_offset :: int
  pc_positive_coefficient :: int
  pc_negative_coefficient :: int
  pc_positive_saturation :: int
  pc_negative_saturation :: int
  pc_dead_band :: int

record Frame =
  fr_message_type :: int
  fr_flags :: int
  fr_sequence :: int
  fr_qpc_ticks :: int
  fr_process_id :: int
  fr_qpc_frequency :: int
  fr_device_id :: int
  fr_effect_id :: int
  fr_effect_guid :: "byte list"
  fr_hresult :: int
  fr_di_flags :: int
  fr_duration :: int
  fr_sample_period :: int
  fr_gain :: int
  fr_start_delay :: int
  fr_trigger_button :: int
  fr_trigger_repeat :: int
  fr_iterations :: int
  fr_attack_level :: int
  fr_attack_time :: int
  fr_fade_level :: int
  fr_fade_time :: int
  fr_property_id :: int
  fr_dropped :: int
  fr_magnitude :: int
  fr_ramp_start :: int
  fr_ramp_end :: int
  fr_periodic_magnitude :: int
  fr_periodic_offset :: int
  fr_periodic_phase :: int
  fr_periodic_period :: int
  fr_axes :: "int list"
  fr_directions :: "int list"
  fr_conditions :: "PyCondition list"
  fr_type_specific_size :: int
  fr_custom_redacted :: bool
  fr_build_version :: "nat list"
  fr_session_id :: "nat list"
  fr_text :: "nat list"
  fr_effect_kind :: int
  fr_command :: int

datatype protocol_error = TruncatedHeader | BadMagic | UnsupportedVersion int | InvalidFrameSize
  | FragmentedOrTrailing | TruncatedPayload | AxisCountExceedsLimit | ConditionCountExceedsLimit
  | InvalidTextLength | InvalidTrailingPayload | StructError

definition py_condition :: "ConditionSample \<Rightarrow> PyCondition" where
  "py_condition c = \<lparr>pc_offset = sint (cs_offset c),
     pc_positive_coefficient = sint (cs_positive_coefficient c),
     pc_negative_coefficient = sint (cs_negative_coefficient c),
     pc_positive_saturation = uint (cs_positive_saturation c),
     pc_negative_saturation = uint (cs_negative_saturation c),
     pc_dead_band = sint (cs_dead_band c)\<rparr>"

text \<open>\<open>x.split (b"\\0", 1)[0].decode ("utf-8", errors="replace")\<close>\<close>

definition c_string :: "byte list \<Rightarrow> nat list" where
  "c_string bs = utf8_decode (takeWhile (\<lambda>b. b \<noteq> 0) bs)"

section \<open>decode_frame\<close>

text \<open>The \<open>_BASE\<close> block: the frame with the fields after the axis count still at the defaults
  of the data class, the axis count, and the rest of the payload.\<close>

definition decode_base :: "u16 \<Rightarrow> u32 \<Rightarrow> u64 \<Rightarrow> u64 \<Rightarrow> byte list
    \<Rightarrow> (Frame \<times> u32 \<times> byte list) option" where
  "decode_base message_type flags sequence qpc_ticks bs = do {
     (process_id, bs) \<leftarrow> get_u32 bs;
     (qpc_frequency, bs) \<leftarrow> get_u32 bs;
     (device_id, bs) \<leftarrow> get_u32 bs;
     (effect_id, bs) \<leftarrow> get_u32 bs;
     (guid, bs) \<leftarrow> get_bytes 16 bs;
     (hresult, bs) \<leftarrow> get_u32 bs;
     (di_flags, bs) \<leftarrow> get_u32 bs;
     (duration, bs) \<leftarrow> get_u32 bs;
     (sample_period, bs) \<leftarrow> get_u32 bs;
     (gain, bs) \<leftarrow> get_u32 bs;
     (start_delay, bs) \<leftarrow> get_u32 bs;
     (trigger_button, bs) \<leftarrow> get_u32 bs;
     (trigger_repeat, bs) \<leftarrow> get_u32 bs;
     (iterations, bs) \<leftarrow> get_u32 bs;
     (attack_level, bs) \<leftarrow> get_u32 bs;
     (attack_time, bs) \<leftarrow> get_u32 bs;
     (fade_level, bs) \<leftarrow> get_u32 bs;
     (fade_time, bs) \<leftarrow> get_u32 bs;
     (property_id, bs) \<leftarrow> get_u32 bs;
     (dropped, bs) \<leftarrow> get_u32 bs;
     (magnitude, bs) \<leftarrow> get_u32 bs;
     (ramp_start, bs) \<leftarrow> get_u32 bs;
     (ramp_end, bs) \<leftarrow> get_u32 bs;
     (periodic_magnitude, bs) \<leftarrow> get_u32 bs;
     (periodic_offset, bs) \<leftarrow> get_u32 bs;
     (periodic_phase, bs) \<leftarrow> get_u32 bs;
     (periodic_period, bs) \<leftarrow> get_u32 bs;
     (axis_count, bs) \<leftarrow> get_u32 bs;
     Some (\<lparr>fr_message_type = uint message_type, fr_flags = uint flags,
       fr_sequence = uint sequence, fr_qpc_ticks = uint qpc_ticks,
       fr_process_id = uint process_id, fr_qpc_frequency = uint qpc_frequency,
       fr_device_id = uint device_id, fr_effect_id = uint effect_id, fr_effect_guid = guid,
       fr_hresult = sint hresult, fr_di_flags = uint di_flags, fr_duration = uint duration,
       fr_sample_period = uint sample_period, fr_gain = uint gain,
       fr_start_delay = uint start_delay, fr_trigger_button = uint trigger_button,
       fr_trigger_repeat = uint trigger_repeat, fr_iterations = uint iterations,
       fr_attack_level = uint attack_level, fr_attack_time = uint attack_time,
       fr_fade_level = uint fade_level, fr_fade_time = uint fade_time,
       fr_property_id = uint property_id, fr_dropped = uint dropped,
       fr_magnitude = sint magnitude, fr_ramp_start = sint ramp_start,
       fr_ramp_end = sint ramp_end, fr_periodic_magnitude = sint periodic_magnitude,
       fr_periodic_offset = sint periodic_offset, fr_periodic_phase = sint periodic_phase,
       fr_periodic_period = sint periodic_period, fr_axes = [], fr_directions = [],
       fr_conditions = [], fr_type_specific_size = 0, fr_custom_redacted = False,
       fr_build_version = [], fr_session_id = [], fr_text = [], fr_effect_kind = 0,
       fr_command = 0\<rparr>, axis_count, bs)
   }"

text \<open>Everything after the axis count, whose bound is checked before.\<close>

definition decode_text :: "Frame \<Rightarrow> u16 \<Rightarrow> byte list \<Rightarrow> protocol_error + Frame" where
  "decode_text f text_length bs =
     (if unat text_length > 63 \<or> unat text_length > length bs then Inl InvalidTextLength
      else
        let f' = f\<lparr>fr_text := utf8_decode (take (unat text_length) bs)\<rparr>;
            rest = drop (unat text_length) bs
        in if length rest \<noteq> 0 \<and> length rest \<noteq> 4 then Inl InvalidTrailingPayload
           else if length rest = 4 then
             (case (do { (kind, r) \<leftarrow> get_u16 rest; (command, r) \<leftarrow> get_u16 r; Some (kind, command) }) of
                None \<Rightarrow> Inl StructError
              | Some (kind, command) \<Rightarrow>
                  Inr (f'\<lparr>fr_effect_kind := uint kind, fr_command := uint command\<rparr>))
           else Inr f')"

definition decode_blocks :: "byte list
    \<Rightarrow> (i32 list \<times> i32 list \<times> u32 \<times> byte list) option" where
  "decode_blocks bs = do {
     (axes, bs) \<leftarrow> get_many get_u32 kMaxAxes bs;
     (directions, bs) \<leftarrow> get_many get_u32 kMaxAxes bs;
     (condition_count, bs) \<leftarrow> get_u32 bs;
     Some (axes, directions, condition_count, bs)
   }"

definition decode_fixed :: "byte list
    \<Rightarrow> (ConditionSample list \<times> u32 \<times> u32 \<times> byte list \<times> byte list \<times> u16 \<times> byte list) option" where
  "decode_fixed bs = do {
     (conditions, bs) \<leftarrow> get_many get_condition kMaxAxes bs;
     (type_specific_size, bs) \<leftarrow> get_u32 bs;
     (redacted, bs) \<leftarrow> get_u32 bs;
     (build_version, bs) \<leftarrow> get_bytes 32 bs;
     (session_id, bs) \<leftarrow> get_bytes 32 bs;
     (text_length, bs) \<leftarrow> get_u16 bs;
     Some (conditions, type_specific_size, redacted, build_version, session_id, text_length, bs)
   }"

definition decode_tail :: "Frame \<Rightarrow> u32 \<Rightarrow> byte list \<Rightarrow> protocol_error + Frame" where
  "decode_tail f axis_count bs =
     (case decode_blocks bs of
        None \<Rightarrow> Inl StructError
      | Some (axes, directions, condition_count, bs) \<Rightarrow>
          if unat condition_count > kMaxAxes then Inl ConditionCountExceedsLimit
          else
            (case decode_fixed bs of
               None \<Rightarrow> Inl StructError
             | Some (conditions, tss, redacted, build_version, session_id, text_length, bs) \<Rightarrow>
                 decode_text
                   (f\<lparr>fr_axes := take (unat axis_count) (map sint axes),
                      fr_directions := take (unat axis_count) (map sint directions),
                      fr_conditions := map py_condition (take (unat condition_count) conditions),
                      fr_type_specific_size := uint tss, fr_custom_redacted := redacted \<noteq> 0,
                      fr_build_version := c_string build_version,
                      fr_session_id := c_string session_id\<rparr>) text_length bs))"

definition decode_header :: "byte list \<Rightarrow> (byte list \<times> u16 \<times> u16 \<times> u32 \<times> u32 \<times> u64 \<times> u64 \<times> byte list) option"
  where
  "decode_header bs = do {
     (magic, bs) \<leftarrow> get_bytes 4 bs;
     (version, bs) \<leftarrow> get_u16 bs;
     (message_type, bs) \<leftarrow> get_u16 bs;
     (frame_size, bs) \<leftarrow> get_u32 bs;
     (flags, bs) \<leftarrow> get_u32 bs;
     (sequence, bs) \<leftarrow> get_u64 bs;
     (qpc_ticks, bs) \<leftarrow> get_u64 bs;
     Some (magic, version, message_type, frame_size, flags, sequence, qpc_ticks, bs)
   }"

definition minimum_payload :: nat where
  "minimum_payload = 124 + kMaxAxes * 4 * 2 + 4 + kMaxAxes * 24 + 74"

definition decode_frame :: "byte list \<Rightarrow> protocol_error + Frame" where
  "decode_frame raw =
     (if length raw < 32 then Inl TruncatedHeader
      else case decode_header raw of
        None \<Rightarrow> Inl StructError
      | Some (magic, version, message_type, frame_size, flags, sequence, qpc_ticks, payload) \<Rightarrow>
          if magic \<noteq> ascii ''FFB1'' then Inl BadMagic
          else if version \<noteq> kProtocolVersion then Inl (UnsupportedVersion (uint version))
          else if unat frame_size < 32 \<or> unat frame_size > kMaxFrameSize then Inl InvalidFrameSize
          else if unat frame_size \<noteq> length raw then Inl FragmentedOrTrailing
          else if length payload < minimum_payload then Inl TruncatedPayload
          else (case decode_base message_type flags sequence qpc_ticks payload of
              None \<Rightarrow> Inl StructError
            | Some (f, axis_count, bs) \<Rightarrow>
                if unat axis_count > kMaxAxes then Inl AxisCountExceedsLimit
                else decode_tail f axis_count bs))"

section \<open>iter_frames\<close>

text \<open>The generator over the receive buffer: the frames it yields, the error it raises (if any)
  and the bytes it leaves in the buffer.\<close>

function iter_frames :: "byte list \<Rightarrow> Frame list \<times> protocol_error option \<times> byte list" where
  "iter_frames buffer =
     (if length buffer < 32 then ([], None, buffer)
      else if take 4 buffer \<noteq> ascii ''FFB1'' then ([], Some BadMagic, buffer)
      else
        let frame_size = unat (le32 (buffer ! 8) (buffer ! 9) (buffer ! 10) (buffer ! 11)) in
        if frame_size < 32 \<or> frame_size > kMaxFrameSize then ([], Some InvalidFrameSize, buffer)
        else if length buffer < frame_size then ([], None, buffer)
        else case decode_frame (take frame_size buffer) of
            Inl err \<Rightarrow> ([], Some err, drop frame_size buffer)
          | Inr f \<Rightarrow>
              (let (fs, err, rest) = iter_frames (drop frame_size buffer) in (f # fs, err, rest)))"
  by pat_completeness auto
termination
  by (relation "measure length") auto

declare iter_frames.simps [simp del]

section \<open>What a well-formed event decodes to\<close>

definition frame_of_event :: "Event \<Rightarrow> Frame" where
  "frame_of_event e = \<lparr>
     fr_message_type = uint (message_code (ev_type e)), fr_flags = uint (wire_flags e),
     fr_sequence = uint (ev_sequence e), fr_qpc_ticks = uint (ev_qpc_ticks e),
     fr_process_id = uint (ev_process_id e), fr_qpc_frequency = uint (ev_qpc_frequency e),
     fr_device_id = uint (ev_device_id e), fr_effect_id = uint (ev_effect_id e),
     fr_effect_guid = put_guid (ev_effect_guid e), fr_hresult = sint (ev_hresult e),
     fr_di_flags = uint (ev_di_flags e), fr_duration = uint (ev_duration e),
     fr_sample_period = uint (ev_sample_period e), fr_gain = uint (ev_gain e),
     fr_start_delay = uint (ev_start_delay e), fr_trigger_button = uint (ev_trigger_button e),
     fr_trigger_repeat = uint (ev_trigger_repeat e), fr_iterations = uint (ev_iterations e),
     fr_attack_level = uint (ev_attack_level e), fr_attack_time = uint (ev_attack_time e),
     fr_fade_level = uint (ev_fade_level e), fr_fade_time = uint (ev_fade_time e),
     fr_property_id = uint (ev_property_id e), fr_dropped = uint (ev_dropped e),
     fr_magnitude = sint (ev_magnitude e), fr_ramp_start = sint (ev_ramp_start e),
     fr_ramp_end = sint (ev_ramp_end e),
     fr_periodic_magnitude = sint (ev_periodic_magnitude e),
     fr_periodic_offset = sint (ev_periodic_offset e),
     fr_periodic_phase = sint (ev_periodic_phase e),
     fr_periodic_period = sint (ev_periodic_period e),
     fr_axes = map sint (take (unat (ev_axis_count e)) (ev_axes e)),
     fr_directions = map sint (take (unat (ev_axis_count e)) (ev_directions e)),
     fr_conditions = map py_condition (take (unat (ev_condition_count e)) (ev_conditions e)),
     fr_type_specific_size = uint (ev_type_specific_size e),
     fr_custom_redacted = ev_custom_redacted e,
     fr_build_version = c_string (ev_build_version e),
     fr_session_id = c_string (ev_session_id e),
     fr_text = c_string (take 63 (ev_text e)),
     fr_effect_kind = uint (kind_code (ev_effect_kind e)), fr_command = uint (ev_command e)\<rparr>"

section \<open>The reader inverts the writer\<close>

lemma get_guid [codec]: "guid_wf g \<Longrightarrow> get_bytes 16 (put_guid g @ r) = Some (put_guid g, r)"
  by (simp add: get_bytes_def codec)

lemma decode_header_event:
  "decode_header (serialize_event e) = Some (ascii ''FFB1'', kProtocolVersion,
     message_code (ev_type e), word_of_nat (32 + length (event_payload e)), wire_flags e,
     ev_sequence e, ev_qpc_ticks e, event_payload e)"
  by (simp add: decode_header_def serialize_event_def Let_def codec get_bytes_def)

lemma decode_base_event:
  "event_wf e \<Longrightarrow> decode_base mt fl sq qp (payload_numbers e @ r) =
     Some ((frame_of_event e)\<lparr>fr_message_type := uint mt, fr_flags := uint fl,
       fr_sequence := uint sq, fr_qpc_ticks := uint qp, fr_axes := [], fr_directions := [],
       fr_conditions := [], fr_type_specific_size := 0, fr_custom_redacted := False,
       fr_build_version := [], fr_session_id := [], fr_text := [], fr_effect_kind := 0,
       fr_command := 0\<rparr>, ev_axis_count e, r)"
  by (simp add: decode_base_def payload_numbers_def codec event_wf_def frame_of_event_def)

lemma strnlen_s_le: "strnlen_s s n \<le> n"
  unfolding strnlen_s_def using length_takeWhile_le[of "\<lambda>b. b \<noteq> 0" "take n s"] by simp

lemma take_strnlen: "take (strnlen_s s n) s = takeWhile (\<lambda>b. b \<noteq> 0) (take n s)"
proof -
  have "take (strnlen_s s n) s = take (strnlen_s s n) (take n s)"
    by (simp add: min_absorb1 strnlen_s_le)
  also have "\<dots> = takeWhile (\<lambda>b. b \<noteq> 0) (take n s)"
    by (simp only: strnlen_s_def takeWhile_eq_take [symmetric])
  finally show ?thesis .
qed

lemma put_string_eq:
  "put_string s = put_u16 (word_of_nat (strnlen_s s 63)) @ takeWhile (\<lambda>b. b \<noteq> 0) (take 63 s)"
  by (simp add: put_string_def Let_def take_strnlen min_absorb1 strnlen_s_le)

lemma decode_text_event:
  assumes "n = strnlen_s s 63"
  shows "decode_text f (word_of_nat n) (takeWhile (\<lambda>b. b \<noteq> 0) (take 63 s) @ put_u16 kind @ put_u16 cmd)
    = Inr (f\<lparr>fr_text := c_string (take 63 s), fr_effect_kind := uint kind, fr_command := uint cmd\<rparr>)"
proof -
  have n: "n \<le> 63" using assms strnlen_s_le[of s 63] by simp
  then have "unat (word_of_nat n :: u16) = n" by (simp add: of_nat_inverse)
  moreover have "length (takeWhile (\<lambda>b. b \<noteq> 0) (take 63 s)) = n"
    by (simp add: assms strnlen_s_def)
  ultimately show ?thesis
    using n u16c.get_put_nil[of cmd]
    by (simp add: decode_text_def Let_def codec c_string_def)
qed

lemma decode_tail_event:
  assumes "event_wf e" and "unat (ev_condition_count e) \<le> kMaxAxes"
  shows "decode_tail f (ev_axis_count e) (payload_tail e) =
    Inr (f\<lparr>fr_axes := fr_axes (frame_of_event e), fr_directions := fr_directions (frame_of_event e),
      fr_conditions := fr_conditions (frame_of_event e),
      fr_type_specific_size := fr_type_specific_size (frame_of_event e),
      fr_custom_redacted := ev_custom_redacted e,
      fr_build_version := fr_build_version (frame_of_event e),
      fr_session_id := fr_session_id (frame_of_event e), fr_text := fr_text (frame_of_event e),
      fr_effect_kind := fr_effect_kind (frame_of_event e), fr_command := fr_command (frame_of_event e)\<rparr>)"
proof -
  let ?after = "takeWhile (\<lambda>b. b \<noteq> 0) (take 63 (ev_text e)) @
     put_u16 (kind_code (ev_effect_kind e)) @ put_u16 (ev_command e)"
  have blocks: "decode_blocks (payload_tail e) = Some (ev_axes e, ev_directions e,
      ev_condition_count e, concat (map put_condition (take kMaxAxes (ev_conditions e))) @
     put_u32 (ev_type_specific_size e) @ put_u32 (if ev_custom_redacted e then 1 else 0) @
     put_fixed_string (ev_build_version e) 32 @ put_fixed_string (ev_session_id e) 32 @
     put_string (ev_text e) @ put_u16 (kind_code (ev_effect_kind e)) @ put_u16 (ev_command e))"
    using assms(1) by (simp add: decode_blocks_def payload_tail_def codec event_wf_def)
  have fixed: "decode_fixed (concat (map put_condition (take kMaxAxes (ev_conditions e))) @
     put_u32 (ev_type_specific_size e) @ put_u32 (if ev_custom_redacted e then 1 else 0) @
     put_fixed_string (ev_build_version e) 32 @ put_fixed_string (ev_session_id e) 32 @
     put_string (ev_text e) @ put_u16 (kind_code (ev_effect_kind e)) @ put_u16 (ev_command e)) =
     Some (ev_conditions e, ev_type_specific_size e, (if ev_custom_redacted e then 1 else 0),
       ev_build_version e, ev_session_id e, word_of_nat (strnlen_s (ev_text e) 63), ?after)"
    using assms(1) by (simp add: decode_fixed_def codec event_wf_def put_string_eq)
  show ?thesis
    using assms(2)
    by (simp add: decode_tail_def blocks fixed decode_text_event[OF refl] not_less
        frame_of_event_def take_map)
qed

lemma decode_frame_event:
  assumes "event_bounded e"
  shows "decode_frame (serialize_event e) = Inr (frame_of_event e)"
proof -
  have wf: "event_wf e" and ax: "unat (ev_axis_count e) \<le> kMaxAxes"
    and cc: "unat (ev_condition_count e) \<le> kMaxAxes"
    using assms by (auto simp: event_bounded_def)
  have len: "494 \<le> length (serialize_event e)" "length (serialize_event e) \<le> 557"
    using serialize_event_bounds[OF wf] by auto
  have pay: "minimum_payload \<le> length (event_payload e)"
    by (simp add: minimum_payload_def kMaxAxes_def event_payload_def
        payload_numbers_length[OF wf] payload_tail_length[OF wf])
  have base: "decode_base mt fl sq qp (event_payload e) = Some ((frame_of_event e)\<lparr>
      fr_message_type := uint mt, fr_flags := uint fl,
       fr_sequence := uint sq, fr_qpc_ticks := uint qp, fr_axes := [], fr_directions := [],
       fr_conditions := [], fr_type_specific_size := 0, fr_custom_redacted := False,
       fr_build_version := [], fr_session_id := [], fr_text := [], fr_effect_kind := 0,
       fr_command := 0\<rparr>, ev_axis_count e, payload_tail e)" for mt fl sq qp
    by (simp add: event_payload_def decode_base_event[OF wf])
  show ?thesis
    using len pay ax frame_length_field[OF wf]
    by (simp add: decode_frame_def decode_header_event kMaxFrameSize_def
        base decode_tail_event[OF wf cc] not_less) (simp add: frame_of_event_def)
qed

lemma serialize_event_magic:
  "take 4 (serialize_event e @ r) = ascii ''FFB1''"
  by (simp add: serialize_event_def Let_def)

lemma serialize_event_size_field:
  assumes "event_wf e" and "s = serialize_event e @ r"
  shows "unat (le32 (s ! 8) (s ! 9) (s ! 10) (s ! 11)) = length (serialize_event e)"
proof -
  let ?n = "word_of_nat (32 + length (event_payload e)) :: u32"
  have "s ! 8 = ucast ?n" "s ! 9 = ucast (drop_bit 8 ?n)" "s ! 10 = ucast (drop_bit 16 ?n)"
    "s ! 11 = ucast (drop_bit 24 ?n)"
    using serialize_event_header[of e] assms(2) by (auto simp: put_u32_bytes)
  then show ?thesis by (simp only: le32_split frame_length_field[OF assms(1)])
qed

lemma valid_frame_event:
  "event_wf e \<Longrightarrow> valid_frame (Some (serialize_event e)) (length (serialize_event e))"
  using serialize_event_size_field[of e _ "[]"] serialize_event_magic[of e "[]"]
    serialize_event_bounds[of e] serialize_event_header[of e]
  by (auto simp: valid_frame_def kMaxFrameSize_def kProtocolVersion_def le16_def)

lemma iter_frames_partial:
  assumes "event_wf e" and "n < length (serialize_event e)"
  shows "iter_frames (take n (serialize_event e)) = ([], None, take n (serialize_event e))"
proof (cases "n < 32")
  case True
  then show ?thesis by (subst iter_frames.simps) (simp add: min_def)
next
  case False
  have "take 4 (take n (serialize_event e)) = ascii ''FFB1''"
    using False serialize_event_magic[of e "[]"] by (simp add: min_absorb1)
  moreover have "unat (le32 (take n (serialize_event e) ! 8) (take n (serialize_event e) ! 9)
      (take n (serialize_event e) ! 10) (take n (serialize_event e) ! 11)) = length (serialize_event e)"
    using False serialize_event_size_field[OF assms(1), of _ "[]"] by simp
  ultimately show ?thesis
    using assms(2) False serialize_event_bounds[OF assms(1)]
    by (subst iter_frames.simps) (simp add: Let_def kMaxFrameSize_def)
qed

lemma iter_frames_event:
  assumes "event_bounded e"
  shows "iter_frames (serialize_event e @ r) =
    (let (fs, err, rest) = iter_frames r in (frame_of_event e # fs, err, rest))"
proof -
  have wf: "event_wf e" using assms by (simp add: event_bounded_def)
  show ?thesis
    using serialize_event_bounds[OF wf] serialize_event_size_field[OF wf refl, of r]
      serialize_event_magic[of e r]
    by (subst iter_frames.simps) (simp add: Let_def kMaxFrameSize_def decode_frame_event[OF assms])
qed

lemma iter_frames_stream:
  assumes "list_all event_bounded es" and "iter_frames r = (fs, err, rest)"
  shows "iter_frames (concat (map serialize_event es) @ r) = (map frame_of_event es @ fs, err, rest)"
  using assms by (induction es) (auto simp: iter_frames_event)

section \<open>The two validators\<close>

lemma decode_header_bytes:
  assumes "32 \<le> length d"
  shows "\<exists>flags sq qp. decode_header d = Some (take 4 d, le16 (d ! 4) (d ! 5), le16 (d ! 6) (d ! 7),
    le32 (d ! 8) (d ! 9) (d ! 10) (d ! 11), flags, sq, qp, drop 32 d)"
proof -
  define rest where "rest = drop 32 d"
  have split: "d = map (\<lambda>i. d ! i) [0..<32] @ rest"
    unfolding rest_def using assms by (metis append_take_drop_id map_nth take_map take_upt
        add_0 length_upt map_nth minus_nat.diff_0)
  show ?thesis
    by (subst split, subst (2 3 4 5 6 7 8 9 10 11) split)
       (simp add: decode_header_def get_bytes_def upt_rec numeral_eq_Suc rest_def)
qed

definition framing_error :: "protocol_error + Frame \<Rightarrow> bool" where
  "framing_error r \<longleftrightarrow> r \<in> {Inl TruncatedHeader, Inl BadMagic, Inl InvalidFrameSize,
     Inl FragmentedOrTrailing} \<or> (\<exists>v. r = Inl (UnsupportedVersion v))"

lemma decode_tail_not_framing: "\<not> framing_error (decode_tail f n bs)"
  by (auto simp: framing_error_def decode_tail_def decode_text_def Let_def
      split: option.splits prod.splits if_splits)

lemma valid_frame_iff_not_framing_error:
  "valid_frame (Some d) (length d) \<longleftrightarrow> \<not> framing_error (decode_frame d)"
proof (cases "length d < 32")
  case True
  then show ?thesis by (simp add: valid_frame_def decode_frame_def framing_error_def)
next
  case False
  then obtain flags sq qp where h: "decode_header d = Some (take 4 d, le16 (d ! 4) (d ! 5),
      le16 (d ! 6) (d ! 7), le32 (d ! 8) (d ! 9) (d ! 10) (d ! 11), flags, sq, qp, drop 32 d)"
    using decode_header_bytes[of d] by auto
  show ?thesis
    using False decode_tail_not_framing
    by (auto simp: decode_frame_def h valid_frame_def framing_error_def
        split: option.splits prod.splits if_splits)
qed

section \<open>Properties\<close>

text \<open>C2: every event whose two counts respect the arrays is serialized to a frame that the
  producer's own check accepts, that fits the protocol's size bound, and that the viewer decodes
  to exactly the event's fields: numbers read with their signs, arrays cut to their counts,
  presence folded into the flags, text up to the first NUL.\<close>

theorem wire_roundtrip:
  assumes "event_bounded e"
  shows "valid_frame (Some (serialize_event e)) (length (serialize_event e))
    \<and> length (serialize_event e) \<le> 557
    \<and> decode_frame (serialize_event e) = Inr (frame_of_event e)"
proof -
  from assms have "event_wf e" by (simp add: event_bounded_def)
  then show ?thesis
    using valid_frame_event serialize_event_bounds decode_frame_event[OF assms] by blast
qed

theorem wire_roundtrip_witness:
  "event_bounded (empty_event\<lparr>ev_type := EffectCreated, ev_magnitude := 0xFFFFFFFF\<rparr>)
   \<and> decode_frame (serialize_event (empty_event\<lparr>ev_type := EffectCreated, ev_magnitude := 0xFFFFFFFF\<rparr>))
     = Inr (frame_of_event (empty_event\<lparr>ev_type := EffectCreated, ev_magnitude := 0xFFFFFFFF\<rparr>))
   \<and> fr_magnitude (frame_of_event (empty_event\<lparr>ev_type := EffectCreated, ev_magnitude := 0xFFFFFFFF\<rparr>)) = -1"
proof -
  have b: "event_bounded (empty_event\<lparr>ev_type := EffectCreated, ev_magnitude := 0xFFFFFFFF\<rparr>)"
    using empty_event_bounded by (simp add: event_bounded_def event_wf_def)
  show ?thesis using b wire_roundtrip[OF b] by (simp add: frame_of_event_def)
qed

text \<open>A pipe stream of serialized events followed by the cut-off start of one more is split
  into exactly the frames sent, in order, without an error, and the partial frame stays in the
  buffer.\<close>

theorem stream_roundtrip:
  assumes "list_all event_bounded es" and "event_bounded e" and "n < length (serialize_event e)"
  shows "iter_frames (concat (map serialize_event es) @ take n (serialize_event e))
    = (map frame_of_event es, None, take n (serialize_event e))"
proof -
  from assms(2) have "event_wf e" by (simp add: event_bounded_def)
  then show ?thesis
    using iter_frames_stream[OF assms(1) iter_frames_partial[OF _ assms(3)]] by simp
qed

theorem stream_roundtrip_witness:
  "iter_frames (concat (map serialize_event [empty_event, empty_event]) @ take 40 (serialize_event empty_event))
    = ([frame_of_event empty_event, frame_of_event empty_event], None, take 40 (serialize_event empty_event))"
proof -
  have "40 < length (serialize_event empty_event)"
    using serialize_event_bounds[of empty_event] empty_event_bounded
    by (simp add: event_bounded_def)
  then show ?thesis
    using stream_roundtrip[of "[empty_event, empty_event]" empty_event 40]
    by (simp add: empty_event_bounded)
qed

text \<open>C3: the producer's frame check and the viewer's agree on every byte string: a buffer
  passes \<open>valid_frame\<close> exactly when \<open>decode_frame\<close> raises none of its framing errors (short
  header, magic, version, size field).\<close>

theorem validators_agree:
  "valid_frame (Some d) (length d) \<longleftrightarrow>
     decode_frame d \<notin> {Inl TruncatedHeader, Inl BadMagic, Inl InvalidFrameSize, Inl FragmentedOrTrailing}
     \<and> (\<forall>v. decode_frame d \<noteq> Inl (UnsupportedVersion v))"
  using valid_frame_iff_not_framing_error[of d] by (auto simp: framing_error_def)

end
