(* ===== verification/Effect_Capture.thy ===== *)
theory Effect_Capture imports Wire_Event begin

text \<open>
  Capturing a DirectInput effect: \<open>effect_kind_from_guid\<close> and \<open>fill_effect_parameters\<close> of
  \<open>src/telemetry_protocol.cpp\<close>.  The caller's structures live in the game's memory, so every
  pointer is null, unreadable, or leads to a value (\<open>ptr\<close>), and reading past the readable
  part of an array or buffer is an access violation.  The structured exception handler of the
  function is the sum type: \<open>Inl e\<close> is a violation raised with the event in state \<open>e\<close>,
  \<open>Inr e\<close> a normal continuation.  The \<open>DIEP_*\<close> flags, the effect GUIDs and the structure sizes
  are the documented constants of \<open>dinput.h\<close>; the sizes depend on the architecture.
\<close>

section \<open>DirectInput structures\<close>

datatype 'a ptr = NullPtr | BadPtr | Ptr 'a

record DIENVELOPE =
  env_size :: u32
  env_attack_level :: u32
  env_attack_time :: u32
  env_fade_level :: u32
  env_fade_time :: u32

text \<open>\<open>die_start_delay\<close> is the last member, absent from the DX5 layout: \<open>None\<close> when the caller's
  memory ends before it.\<close>

record DIEFFECT =
  die_size :: u32
  die_flags :: u32
  die_duration :: u32
  die_sample_period :: u32
  die_gain :: u32
  die_trigger_button :: u32
  die_trigger_repeat :: u32
  die_axis_count :: u32
  die_axes :: "u32 list ptr"
  die_directions :: "i32 list ptr"
  die_envelope :: "DIENVELOPE ptr"
  die_type_specific_size :: u32
  die_type_specific :: "byte list ptr"
  die_start_delay :: "u32 option"

definition sizeof_DIEFFECT :: "arch \<Rightarrow> nat" where
  "sizeof_DIEFFECT a = (case a of X86 \<Rightarrow> 56 | X64 \<Rightarrow> 80)"
definition sizeof_DIEFFECT_DX5 :: "arch \<Rightarrow> nat" where
  "sizeof_DIEFFECT_DX5 a = (case a of X86 \<Rightarrow> 52 | X64 \<Rightarrow> 72)"
definition sizeof_DIENVELOPE :: nat where "sizeof_DIENVELOPE = 20"
definition sizeof_DICONSTANTFORCE :: nat where "sizeof_DICONSTANTFORCE = 4"
definition sizeof_DIRAMPFORCE :: nat where "sizeof_DIRAMPFORCE = 8"
definition sizeof_DIPERIODIC :: nat where "sizeof_DIPERIODIC = 16"
definition sizeof_DICONDITION :: nat where "sizeof_DICONDITION = 24"

definition DIEP_DURATION :: u32 where "DIEP_DURATION = 0x1"
definition DIEP_SAMPLEPERIOD :: u32 where "DIEP_SAMPLEPERIOD = 0x2"
definition DIEP_GAIN :: u32 where "DIEP_GAIN = 0x4"
definition DIEP_TRIGGERBUTTON :: u32 where "DIEP_TRIGGERBUTTON = 0x8"
definition DIEP_TRIGGERREPEATINTERVAL :: u32 where "DIEP_TRIGGERREPEATINTERVAL = 0x10"
definition DIEP_AXES :: u32 where "DIEP_AXES = 0x20"
definition DIEP_DIRECTION :: u32 where "DIEP_DIRECTION = 0x40"
definition DIEP_ENVELOPE :: u32 where "DIEP_ENVELOPE = 0x80"
definition DIEP_TYPESPECIFICPARAMS :: u32 where "DIEP_TYPESPECIFICPARAMS = 0x100"
definition DIEP_STARTDELAY :: u32 where "DIEP_STARTDELAY = 0x200"

text \<open>The effect GUIDs share all but the first word.\<close>

definition effect_guid :: "u32 \<Rightarrow> GUID" where
  "effect_guid d1 = \<lparr>guid_data1 = d1, guid_data2 = 0x8E33, guid_data3 = 0x11D0,
     guid_data4 = [0x9A, 0xD0, 0x00, 0xA0, 0xC9, 0xA0, 0x6E, 0x35]\<rparr>"

definition GUID_ConstantForce :: GUID where "GUID_ConstantForce = effect_guid 0x13541C20"
definition GUID_RampForce :: GUID where "GUID_RampForce = effect_guid 0x13541C21"
definition GUID_Square :: GUID where "GUID_Square = effect_guid 0x13541C22"
definition GUID_Sine :: GUID where "GUID_Sine = effect_guid 0x13541C23"
definition GUID_Triangle :: GUID where "GUID_Triangle = effect_guid 0x13541C24"
definition GUID_SawtoothUp :: GUID where "GUID_SawtoothUp = effect_guid 0x13541C25"
definition GUID_SawtoothDown :: GUID where "GUID_SawtoothDown = effect_guid 0x13541C26"
definition GUID_Spring :: GUID where "GUID_Spring = effect_guid 0x13541C27"
definition GUID_Damper :: GUID where "GUID_Damper = effect_guid 0x13541C28"
definition GUID_Inertia :: GUID where "GUID_Inertia = effect_guid 0x13541C29"
definition GUID_Friction :: GUID where "GUID_Friction = effect_guid 0x13541C2A"
definition GUID_CustomForce :: GUID where "GUID_CustomForce = effect_guid 0x13541C2B"

section \<open>effect_kind_from_guid\<close>

definition effect_kind_from_guid :: "GUID \<Rightarrow> EffectKind" where
  "effect_kind_from_guid g =
     (if g = GUID_ConstantForce then KindConstant
      else if g = GUID_RampForce then KindRamp
      else if g = GUID_Square then KindSquare
      else if g = GUID_Sine then KindSine
      else if g = GUID_Triangle then KindTriangle
      else if g = GUID_SawtoothUp then KindSawtoothUp
      else if g = GUID_SawtoothDown then KindSawtoothDown
      else if g = GUID_Spring then KindSpring
      else if g = GUID_Damper then KindDamper
      else if g = GUID_Inertia then KindInertia
      else if g = GUID_Friction then KindFriction
      else if g = GUID_CustomForce then KindCustom
      else KindUnknown)"

definition opaque_kind :: "EffectKind \<Rightarrow> bool" where
  "opaque_kind k \<longleftrightarrow> k = KindCustom \<or> k = KindUnknown"

section \<open>Guarded reads\<close>

type_synonym guarded = "Event + Event"

fun guarded_bind :: "guarded \<Rightarrow> (Event \<Rightarrow> guarded) \<Rightarrow> guarded" where
  "guarded_bind (Inl e) f = Inl e"
| "guarded_bind (Inr e) f = f e"

text \<open>A loop that copies element \<open>i\<close> for \<open>i < n\<close> and faults at the first unreadable one.\<close>

fun copy_elements :: "(nat \<Rightarrow> 'b option) \<Rightarrow> (nat \<Rightarrow> 'b \<Rightarrow> Event \<Rightarrow> Event) \<Rightarrow> nat \<Rightarrow> nat \<Rightarrow> Event
    \<Rightarrow> guarded" where
  "copy_elements rd store i 0 e = Inr e"
| "copy_elements rd store i (Suc n) e =
     (case rd i of None \<Rightarrow> Inl e | Some v \<Rightarrow> copy_elements rd store (Suc i) n (store i v e))"

definition list_read :: "'a list \<Rightarrow> nat \<Rightarrow> 'a option" where
  "list_read xs i = (if i < length xs then Some (xs ! i) else None)"

definition read_u32_at :: "byte list \<Rightarrow> nat \<Rightarrow> u32 option" where
  "read_u32_at mem off = map_option fst (get_u32 (drop off mem))"

text \<open>The six 32-bit members of a \<open>DICONDITION\<close>, in the order of the structure, which is the
  order the code assigns them: member \<open>j mod 6\<close> of \<open>values[j div 6]\<close> is word \<open>j\<close> of the array.\<close>

definition store_condition_field :: "nat \<Rightarrow> u32 \<Rightarrow> ConditionSample \<Rightarrow> ConditionSample" where
  "store_condition_field k v c =
     (if k = 0 then c\<lparr>cs_offset := v\<rparr>
      else if k = 1 then c\<lparr>cs_positive_coefficient := v\<rparr>
      else if k = 2 then c\<lparr>cs_negative_coefficient := v\<rparr>
      else if k = 3 then c\<lparr>cs_positive_saturation := v\<rparr>
      else if k = 4 then c\<lparr>cs_negative_saturation := v\<rparr>
      else c\<lparr>cs_dead_band := v\<rparr>)"

definition store_condition_word :: "nat \<Rightarrow> u32 \<Rightarrow> Event \<Rightarrow> Event" where
  "store_condition_word j v e =
     e\<lparr>ev_conditions := (ev_conditions e)[j div 6 :=
         store_condition_field (j mod 6) v (ev_conditions e ! (j div 6))]\<rparr>"

section \<open>fill_effect_parameters\<close>

definition captures :: "bool \<Rightarrow> u32 \<Rightarrow> u32 \<Rightarrow> bool" where
  "captures capture_all requested flag \<longleftrightarrow> capture_all \<or> requested AND flag \<noteq> 0"

definition fill_axes :: "bool \<Rightarrow> DIEFFECT \<Rightarrow> Event \<Rightarrow> guarded" where
  "fill_axes cap d e =
     (if cap then
        (case die_axes d of NullPtr \<Rightarrow> Inr e
         | BadPtr \<Rightarrow> (if ev_axis_count e = 0 then Inr e else Inl e)
         | Ptr xs \<Rightarrow> copy_elements (list_read xs) (\<lambda>i v e. e\<lparr>ev_axes := (ev_axes e)[i := v]\<rparr>)
             0 (unat (ev_axis_count e)) e)
      else Inr e)"

definition fill_directions :: "bool \<Rightarrow> DIEFFECT \<Rightarrow> Event \<Rightarrow> guarded" where
  "fill_directions cap d e =
     (if cap then
        (case die_directions d of NullPtr \<Rightarrow> Inr e
         | BadPtr \<Rightarrow> (if ev_axis_count e = 0 then Inr e else Inl e)
         | Ptr xs \<Rightarrow> copy_elements (list_read xs)
             (\<lambda>i v e. e\<lparr>ev_directions := (ev_directions e)[i := v]\<rparr>)
             0 (unat (ev_axis_count e)) e)
      else Inr e)"

definition fill_envelope :: "bool \<Rightarrow> DIEFFECT \<Rightarrow> Event \<Rightarrow> guarded" where
  "fill_envelope cap d e =
     (if cap then
        (case die_envelope d of NullPtr \<Rightarrow> Inr e
         | BadPtr \<Rightarrow> Inl e
         | Ptr v \<Rightarrow>
             (if sizeof_DIENVELOPE \<le> unat (env_size v) then
                Inr (e\<lparr>ev_attack_level := env_attack_level v, ev_attack_time := env_attack_time v,
                  ev_fade_level := env_fade_level v, ev_fade_time := env_fade_time v\<rparr>)
              else Inr e))
      else Inr e)"

definition fill_constant :: "byte list \<Rightarrow> Event \<Rightarrow> guarded" where
  "fill_constant mem e =
     (if sizeof_DICONSTANTFORCE \<le> unat (ev_type_specific_size e) then
        (case read_u32_at mem 0 of None \<Rightarrow> Inl e | Some v \<Rightarrow> Inr (e\<lparr>ev_magnitude := v\<rparr>))
      else Inr e)"

definition fill_ramp :: "byte list \<Rightarrow> Event \<Rightarrow> guarded" where
  "fill_ramp mem e =
     (if sizeof_DIRAMPFORCE \<le> unat (ev_type_specific_size e) then
        (case read_u32_at mem 0 of None \<Rightarrow> Inl e
         | Some a \<Rightarrow> let e = e\<lparr>ev_ramp_start := a\<rparr> in
            (case read_u32_at mem 4 of None \<Rightarrow> Inl e | Some b \<Rightarrow> Inr (e\<lparr>ev_ramp_end := b\<rparr>)))
      else Inr e)"

definition fill_periodic :: "byte list \<Rightarrow> Event \<Rightarrow> guarded" where
  "fill_periodic mem e =
     (if sizeof_DIPERIODIC \<le> unat (ev_type_specific_size e) then
        (case read_u32_at mem 0 of None \<Rightarrow> Inl e
         | Some m \<Rightarrow> let e = e\<lparr>ev_periodic_magnitude := m\<rparr> in
        (case read_u32_at mem 4 of None \<Rightarrow> Inl e
         | Some off \<Rightarrow> let e = e\<lparr>ev_periodic_offset := off\<rparr> in
        (case read_u32_at mem 8 of None \<Rightarrow> Inl e
         | Some ph \<Rightarrow> let e = e\<lparr>ev_periodic_phase := ph\<rparr> in
        (case read_u32_at mem 12 of None \<Rightarrow> Inl e
         | Some per \<Rightarrow> let e = e\<lparr>ev_periodic_period := per\<rparr> in
             Inr (e\<lparr>ev_magnitude := ev_periodic_magnitude e\<rparr>)))))
      else Inr e)"

definition fill_conditions :: "byte list \<Rightarrow> Event \<Rightarrow> guarded" where
  "fill_conditions mem e =
     (if sizeof_DICONDITION \<le> unat (ev_type_specific_size e) then
        let available = unat (ev_type_specific_size e) div sizeof_DICONDITION;
            count = min (if ev_axis_count e = 0 then available else unat (ev_axis_count e)) kMaxAxes;
            e = e\<lparr>ev_condition_count := word_of_nat (min count available)\<rparr>
        in copy_elements (\<lambda>j. read_u32_at mem (4 * j)) store_condition_word
             0 (6 * unat (ev_condition_count e)) e
      else Inr e)"

definition fill_type_specific :: "byte list \<Rightarrow> Event \<Rightarrow> guarded" where
  "fill_type_specific mem e =
     (case ev_effect_kind e of
        KindConstant \<Rightarrow> fill_constant mem e
      | KindRamp \<Rightarrow> fill_ramp mem e
      | KindSquare \<Rightarrow> fill_periodic mem e
      | KindSine \<Rightarrow> fill_periodic mem e
      | KindTriangle \<Rightarrow> fill_periodic mem e
      | KindSawtoothUp \<Rightarrow> fill_periodic mem e
      | KindSawtoothDown \<Rightarrow> fill_periodic mem e
      | KindSpring \<Rightarrow> fill_conditions mem e
      | KindDamper \<Rightarrow> fill_conditions mem e
      | KindInertia \<Rightarrow> fill_conditions mem e
      | KindFriction \<Rightarrow> fill_conditions mem e
      | _ \<Rightarrow> Inr (e\<lparr>ev_custom_redacted := True\<rparr>))"

text \<open>\<open>if (cond) event.member = value;\<close>\<close>

definition assign_if :: "bool \<Rightarrow> (Event \<Rightarrow> Event) \<Rightarrow> Event \<Rightarrow> Event" where
  "assign_if b store e = (if b then store e else e)"

text \<open>The scalar members up to the axis count.  Only \<open>dwStartDelay\<close> can be unreadable here.\<close>

definition fill_scalars :: "arch \<Rightarrow> (u32 \<Rightarrow> bool) \<Rightarrow> DIEFFECT \<Rightarrow> Event \<Rightarrow> guarded" where
  "fill_scalars a cap d e =
     (let e = e\<lparr>ev_di_flags := die_flags d\<rparr>;
          e = assign_if (cap DIEP_DURATION) (\<lambda>e. e\<lparr>ev_duration := die_duration d\<rparr>) e;
          e = assign_if (cap DIEP_SAMPLEPERIOD) (\<lambda>e. e\<lparr>ev_sample_period := die_sample_period d\<rparr>) e;
          e = assign_if (cap DIEP_GAIN) (\<lambda>e. e\<lparr>ev_gain := die_gain d\<rparr>) e
      in guarded_bind
          (if cap DIEP_STARTDELAY \<and> sizeof_DIEFFECT a \<le> unat (die_size d) then
             (case die_start_delay d of None \<Rightarrow> Inl e | Some v \<Rightarrow> Inr (e\<lparr>ev_start_delay := v\<rparr>))
           else Inr e)
          (\<lambda>e. let
              e = assign_if (cap DIEP_TRIGGERBUTTON)
                    (\<lambda>e. e\<lparr>ev_trigger_button := die_trigger_button d\<rparr>) e;
              e = assign_if (cap DIEP_TRIGGERREPEATINTERVAL)
                    (\<lambda>e. e\<lparr>ev_trigger_repeat := die_trigger_repeat d\<rparr>) e;
              e = assign_if (cap DIEP_AXES \<or> cap DIEP_DIRECTION)
                    (\<lambda>e. e\<lparr>ev_axis_count := word_of_nat (min (unat (die_axis_count d)) kMaxAxes)\<rparr>) e
            in Inr e))"

definition fill_specific :: "(u32 \<Rightarrow> bool) \<Rightarrow> DIEFFECT \<Rightarrow> Event \<Rightarrow> guarded" where
  "fill_specific cap d e =
     (let e = (if opaque_kind (ev_effect_kind e) then e\<lparr>ev_custom_redacted := True\<rparr> else e) in
      if \<not> cap DIEP_TYPESPECIFICPARAMS then Inr e
      else
        let e = e\<lparr>ev_type_specific_size := die_type_specific_size d\<rparr> in
        if die_type_specific d = NullPtr \<or> ev_type_specific_size e = 0 then
          Inr (if opaque_kind (ev_effect_kind e) then e\<lparr>ev_custom_redacted := True\<rparr> else e)
        else (case die_type_specific d of Ptr mem \<Rightarrow> fill_type_specific mem e
              | _ \<Rightarrow> fill_type_specific [] e))"

definition fill_body :: "arch \<Rightarrow> DIEFFECT \<Rightarrow> Event \<Rightarrow> guarded" where
  "fill_body a d e =
     (if unat (die_size d) < sizeof_DIEFFECT_DX5 a then
        Inr (e\<lparr>ev_custom_redacted := opaque_kind (ev_effect_kind e)\<rparr>)
      else
        let cap = captures (ev_type e = EffectCreated) (ev_flags e) in
        guarded_bind (fill_scalars a cap d e) (\<lambda>e.
        guarded_bind (fill_axes (cap DIEP_AXES) d e) (\<lambda>e.
        guarded_bind (fill_directions (cap DIEP_DIRECTION) d e) (\<lambda>e.
        guarded_bind (fill_envelope (cap DIEP_ENVELOPE) d e) (\<lambda>e.
        fill_specific cap d e)))))"

text \<open>The handler of the \<open>__except\<close> block.\<close>

definition fill_handler :: "Event \<Rightarrow> Event" where
  "fill_handler e = e\<lparr>ev_custom_redacted := True, ev_axis_count := 0, ev_condition_count := 0\<rparr>"

definition fill_effect_parameters :: "arch \<Rightarrow> Event \<Rightarrow> DIEFFECT ptr \<Rightarrow> Event" where
  "fill_effect_parameters a e eff =
     (case eff of NullPtr \<Rightarrow> e
      | BadPtr \<Rightarrow> fill_handler e
      | Ptr d \<Rightarrow> (case fill_body a d e of Inl e' \<Rightarrow> fill_handler e' | Inr e' \<Rightarrow> e'))"

section \<open>Facts that hold after every step\<close>

text \<open>\<open>guarded_all P g\<close>: the event satisfies \<open>P\<close>, whether the step faulted or not.\<close>

fun guarded_all :: "(Event \<Rightarrow> bool) \<Rightarrow> guarded \<Rightarrow> bool" where
  "guarded_all P (Inl e) = P e"
| "guarded_all P (Inr e) = P e"

lemma guarded_all_bind:
  "guarded_all P g \<Longrightarrow> (\<And>e. P e \<Longrightarrow> guarded_all P (f e)) \<Longrightarrow> guarded_all P (guarded_bind g f)"
  by (cases g) auto

lemma guarded_all_copy:
  assumes "\<And>i v e. P e \<Longrightarrow> P (store i v e)" and "P e"
  shows "guarded_all P (copy_elements rd store i n e)"
  using assms(2) by (induction n arbitrary: i e) (auto split: option.split intro: assms(1))

text \<open>The stores the function may make when the flags of \<open>cap\<close> are captured and the effect kind
  is \<open>k\<close>; a predicate kept by these is kept by the function.\<close>

definition kept_by_stores :: "(u32 \<Rightarrow> bool) \<Rightarrow> EffectKind \<Rightarrow> (Event \<Rightarrow> bool) \<Rightarrow> bool" where
  "kept_by_stores cap k P \<longleftrightarrow>
     (\<forall>e v. P e \<longrightarrow> P (e\<lparr>ev_di_flags := v\<rparr>)
        \<and> (cap DIEP_DURATION \<longrightarrow> P (e\<lparr>ev_duration := v\<rparr>))
        \<and> (cap DIEP_SAMPLEPERIOD \<longrightarrow> P (e\<lparr>ev_sample_period := v\<rparr>))
        \<and> (cap DIEP_GAIN \<longrightarrow> P (e\<lparr>ev_gain := v\<rparr>))
        \<and> (cap DIEP_STARTDELAY \<longrightarrow> P (e\<lparr>ev_start_delay := v\<rparr>))
        \<and> (cap DIEP_TRIGGERBUTTON \<longrightarrow> P (e\<lparr>ev_trigger_button := v\<rparr>))
        \<and> (cap DIEP_TRIGGERREPEATINTERVAL \<longrightarrow> P (e\<lparr>ev_trigger_repeat := v\<rparr>))
        \<and> (cap DIEP_TYPESPECIFICPARAMS \<longrightarrow> P (e\<lparr>ev_type_specific_size := v\<rparr>)))
   \<and> (\<forall>e n. P e \<longrightarrow> n \<le> kMaxAxes \<longrightarrow> cap DIEP_AXES \<or> cap DIEP_DIRECTION \<longrightarrow>
        P (e\<lparr>ev_axis_count := word_of_nat n\<rparr>))
   \<and> (\<forall>e i v. P e \<longrightarrow> (cap DIEP_AXES \<longrightarrow> P (e\<lparr>ev_axes := (ev_axes e)[i := v]\<rparr>))
        \<and> (cap DIEP_DIRECTION \<longrightarrow> P (e\<lparr>ev_directions := (ev_directions e)[i := v]\<rparr>)))
   \<and> (\<forall>e v w x y. P e \<longrightarrow> cap DIEP_ENVELOPE \<longrightarrow>
        P (e\<lparr>ev_attack_level := v, ev_attack_time := w, ev_fade_level := x, ev_fade_time := y\<rparr>))
   \<and> (\<forall>e b. P e \<longrightarrow> P (e\<lparr>ev_custom_redacted := b\<rparr>))
   \<and> (cap DIEP_TYPESPECIFICPARAMS \<longrightarrow> \<not> opaque_kind k \<longrightarrow>
      (\<forall>e v. P e \<longrightarrow> P (e\<lparr>ev_magnitude := v\<rparr>) \<and> P (e\<lparr>ev_ramp_start := v\<rparr>) \<and> P (e\<lparr>ev_ramp_end := v\<rparr>)
        \<and> P (e\<lparr>ev_periodic_magnitude := v\<rparr>) \<and> P (e\<lparr>ev_periodic_offset := v\<rparr>)
        \<and> P (e\<lparr>ev_periodic_phase := v\<rparr>) \<and> P (e\<lparr>ev_periodic_period := v\<rparr>))
    \<and> (\<forall>e i v. P e \<longrightarrow> P (store_condition_word i v e))
    \<and> (\<forall>e n. P e \<longrightarrow> n \<le> kMaxAxes \<longrightarrow> P (e\<lparr>ev_condition_count := word_of_nat n\<rparr>)))
   \<and> (\<forall>e. P e \<longrightarrow> ev_effect_kind e = k)"

lemma fill_type_specific_all:
  assumes k: "kept_by_stores cap k P" and p: "P e" and c: "cap DIEP_TYPESPECIFICPARAMS"
  shows "guarded_all P (fill_type_specific mem e)"
proof (cases "opaque_kind k")
  case True
  then show ?thesis
    using k p by (auto simp: fill_type_specific_def kept_by_stores_def opaque_kind_def)
next
  case False
  have copy: "guarded_all P (copy_elements (\<lambda>j. read_u32_at mem (4 * j)) store_condition_word i n e)"
    if "P e" for i n e
    using k that False c by (intro guarded_all_copy) (auto simp: kept_by_stores_def)
  have "guarded_all P (fill_conditions mem e)"
    using k p False c by (auto simp: fill_conditions_def Let_def kept_by_stores_def intro!: copy)
  moreover have "guarded_all P (fill_constant mem e)" "guarded_all P (fill_ramp mem e)"
    "guarded_all P (fill_periodic mem e)"
    using k p False c by (auto simp: fill_constant_def fill_ramp_def fill_periodic_def Let_def
        kept_by_stores_def split: option.split)
  moreover have "P (e\<lparr>ev_custom_redacted := True\<rparr>)"
    using k p by (simp add: kept_by_stores_def)
  ultimately show ?thesis by (auto simp: fill_type_specific_def split: EffectKind.split)
qed

lemma assign_if_kept: "P e \<Longrightarrow> (b \<Longrightarrow> P (store e)) \<Longrightarrow> P (assign_if b store e)"
  by (simp add: assign_if_def)

lemma kept_scalar:
  assumes "kept_by_stores cap k P" and "P e"
  shows "P (e\<lparr>ev_di_flags := v\<rparr>)"
    and "cap DIEP_DURATION \<Longrightarrow> P (e\<lparr>ev_duration := v\<rparr>)"
    and "cap DIEP_SAMPLEPERIOD \<Longrightarrow> P (e\<lparr>ev_sample_period := v\<rparr>)"
    and "cap DIEP_GAIN \<Longrightarrow> P (e\<lparr>ev_gain := v\<rparr>)"
    and "cap DIEP_STARTDELAY \<Longrightarrow> P (e\<lparr>ev_start_delay := v\<rparr>)"
    and "cap DIEP_TRIGGERBUTTON \<Longrightarrow> P (e\<lparr>ev_trigger_button := v\<rparr>)"
    and "cap DIEP_TRIGGERREPEATINTERVAL \<Longrightarrow> P (e\<lparr>ev_trigger_repeat := v\<rparr>)"
    and "cap DIEP_AXES \<or> cap DIEP_DIRECTION \<Longrightarrow>
      P (e\<lparr>ev_axis_count := word_of_nat (min n kMaxAxes)\<rparr>)"
  using assms unfolding kept_by_stores_def by simp_all

lemma guarded_all_if: "(b \<Longrightarrow> guarded_all P x) \<Longrightarrow> guarded_all P y \<Longrightarrow> guarded_all P (if b then x else y)"
  by simp

lemma guarded_all_case_option:
  "P e \<Longrightarrow> (\<And>v. guarded_all P (f v)) \<Longrightarrow>
     guarded_all P (case x of None \<Rightarrow> Inl e | Some v \<Rightarrow> f v)"
  by (cases x) auto

lemma fill_scalars_all:
  assumes k: "kept_by_stores cap k P" and p: "P e"
  shows "guarded_all P (fill_scalars a cap d e)"
  unfolding fill_scalars_def Let_def
  by (intro guarded_all_bind guarded_all_if guarded_all_case_option
      guarded_all.simps[THEN iffD2] assign_if_kept[of P] kept_scalar[OF k] p)
    (assumption | erule conjE)+

lemma fill_arrays_all:
  assumes "kept_by_stores cap k P" and "P e"
  shows "guarded_all P (fill_axes (cap DIEP_AXES) d e)"
    and "guarded_all P (fill_directions (cap DIEP_DIRECTION) d e)"
    and "guarded_all P (fill_envelope (cap DIEP_ENVELOPE) d e)"
  using assms by (auto simp: fill_axes_def fill_directions_def fill_envelope_def
        kept_by_stores_def split: ptr.split intro!: guarded_all_copy)

lemma fill_specific_all:
  assumes k: "kept_by_stores cap k P" and "P e"
  shows "guarded_all P (fill_specific cap d e)"
proof -
  have redact: "P (e\<lparr>ev_custom_redacted := b\<rparr>)" if "P e" for e b
    using k that by (simp add: kept_by_stores_def)
  have size: "P (e\<lparr>ev_type_specific_size := v\<rparr>)" if "P e" "cap DIEP_TYPESPECIFICPARAMS" for e v
    using k that by (simp add: kept_by_stores_def)
  show ?thesis
    using assms(2) fill_type_specific_all[OF k]
    by (auto simp: fill_specific_def Let_def redact size split: ptr.split)
qed

lemma fill_body_all:
  assumes k: "kept_by_stores (captures (ev_type e = EffectCreated) (ev_flags e)) k P" and p: "P e"
  shows "guarded_all P (fill_body a d e)"
proof -
  have "P (e\<lparr>ev_custom_redacted := b\<rparr>)" for b
    using k p by (simp add: kept_by_stores_def)
  then show ?thesis
    unfolding fill_body_def Let_def
    by (auto intro!: guarded_all_bind fill_scalars_all[OF k p] fill_arrays_all[OF k]
        fill_specific_all[OF k])
qed

lemma fill_effect_parameters_all:
  assumes "kept_by_stores (captures (ev_type e = EffectCreated) (ev_flags e)) k P"
    and "\<And>e. P e \<Longrightarrow> P (fill_handler e)" and "P e"
  shows "P (fill_effect_parameters a e eff)"
proof (cases eff)
  case (Ptr d)
  from fill_body_all[OF assms(1,3)] have "guarded_all P (fill_body a d e)" .
  with Ptr assms(2) show ?thesis
    by (cases "fill_body a d e") (auto simp: fill_effect_parameters_def)
qed (use assms in \<open>auto simp: fill_effect_parameters_def\<close>)

lemma event_bounded_kept:
  "kept_by_stores cap k (\<lambda>e. event_bounded e \<and> ev_effect_kind e = k)"
  unfolding kept_by_stores_def event_bounded_def event_wf_def store_condition_word_def
  by (simp add: kMaxAxes_def of_nat_inverse)

lemma fill_handler_bounded: "event_bounded e \<Longrightarrow> event_bounded (fill_handler e)"
  by (auto simp: fill_handler_def event_bounded_def event_wf_def)

lemma fill_handler_kind [simp]: "ev_effect_kind (fill_handler e) = ev_effect_kind e"
  by (simp add: fill_handler_def)

section \<open>Opaque effects\<close>

definition effect_content :: "Event \<Rightarrow> i32 list \<times> ConditionSample list" where
  "effect_content e = ([ev_magnitude e, ev_ramp_start e, ev_ramp_end e, ev_periodic_magnitude e,
     ev_periodic_offset e, ev_periodic_phase e, ev_periodic_period e], ev_conditions e)"

lemma effect_content_kept:
  "opaque_kind k \<or> \<not> cap DIEP_TYPESPECIFICPARAMS \<Longrightarrow>
     kept_by_stores cap k (\<lambda>e. effect_content e = c \<and> ev_effect_kind e = k)"
  by (auto simp: kept_by_stores_def effect_content_def)

lemma kind_kept: "kept_by_stores cap k (\<lambda>e. ev_effect_kind e = k)"
  by (simp add: kept_by_stores_def store_condition_word_def)

lemma fill_specific_opaque:
  assumes "opaque_kind (ev_effect_kind e)"
  shows "\<exists>e'. fill_specific cap d e = Inr e' \<and> ev_custom_redacted e'"
  using assms by (auto simp: fill_specific_def Let_def fill_type_specific_def opaque_kind_def
      split: ptr.split)

lemma guarded_bind_Inr: "guarded_bind g f = Inr e \<longleftrightarrow> (\<exists>e'. g = Inr e' \<and> f e' = Inr e)"
  by (cases g) auto

lemma fill_specific_opaque_same:
  assumes "opaque_kind (ev_effect_kind e)" and "p \<noteq> NullPtr" and "q \<noteq> NullPtr"
  shows "fill_specific cap (d\<lparr>die_type_specific := p\<rparr>) e = fill_specific cap (d\<lparr>die_type_specific := q\<rparr>) e"
  using assms by (auto simp: fill_specific_def Let_def fill_type_specific_def opaque_kind_def
      split: ptr.split)

text \<open>The steps before the opaque part do not look at it, and keep the effect kind.\<close>

lemma fill_prefix_type_specific [simp]:
  "fill_scalars a cap (d\<lparr>die_type_specific := p\<rparr>) = fill_scalars a cap d"
  "fill_axes c (d\<lparr>die_type_specific := p\<rparr>) = fill_axes c d"
  "fill_directions c (d\<lparr>die_type_specific := p\<rparr>) = fill_directions c d"
  "fill_envelope c (d\<lparr>die_type_specific := p\<rparr>) = fill_envelope c d"
  by (rule ext, cases d, simp only: fill_scalars_def fill_axes_def fill_directions_def
      fill_envelope_def DIEFFECT.select_convs DIEFFECT.update_convs)+

lemma guarded_bind_cong_all:
  assumes "guarded_all P g" and "\<And>e. P e \<Longrightarrow> f e = h e"
  shows "guarded_bind g f = guarded_bind g h"
  using assms by (cases g) auto

lemma fill_body_opaque_same:
  assumes "opaque_kind (ev_effect_kind e)" and "p \<noteq> NullPtr" and "q \<noteq> NullPtr"
  shows "fill_body a (d\<lparr>die_type_specific := p\<rparr>) e = fill_body a (d\<lparr>die_type_specific := q\<rparr>) e"
proof -
  let ?cap = "captures (ev_type e = EffectCreated) (ev_flags e)"
  let ?P = "\<lambda>x. ev_effect_kind x = ev_effect_kind e"
  note kept = kind_kept[of ?cap "ev_effect_kind e"]
  note all = fill_scalars_all[OF kept] fill_arrays_all[OF kept]
  have spec: "fill_specific ?cap (d\<lparr>die_type_specific := p\<rparr>) x =
      fill_specific ?cap (d\<lparr>die_type_specific := q\<rparr>) x" if "?P x" for x
    using that assms by (intro fill_specific_opaque_same) auto
  show ?thesis
    unfolding fill_body_def Let_def fill_prefix_type_specific
    by (simp, intro impI guarded_bind_cong_all[where P = ?P] all spec refl)
qed

lemma fill_body_opaque_redacted:
  assumes "opaque_kind (ev_effect_kind e)" and "fill_body a d e = Inr e'"
  shows "ev_custom_redacted e'"
proof -
  let ?cap = "captures (ev_type e = EffectCreated) (ev_flags e)"
  note kept = kind_kept[of ?cap "ev_effect_kind e"]
  note all = fill_scalars_all[OF kept, of e a d] fill_arrays_all[OF kept]
  show ?thesis
  proof (cases "unat (die_size d) < sizeof_DIEFFECT_DX5 a")
    case True
    with assms show ?thesis by (auto simp: fill_body_def)
  next
    case False
    with assms(2) obtain e1 e2 e3 e4 where
      s: "fill_scalars a ?cap d e = Inr e1" "fill_axes (?cap DIEP_AXES) d e1 = Inr e2"
        "fill_directions (?cap DIEP_DIRECTION) d e2 = Inr e3"
        "fill_envelope (?cap DIEP_ENVELOPE) d e3 = Inr e4" "fill_specific ?cap d e4 = Inr e'"
      by (auto simp: fill_body_def Let_def guarded_bind_Inr)
    have "ev_effect_kind e4 = ev_effect_kind e"
      using all(1) all(2)[of e1 d] all(3)[of e2 d] all(4)[of e3 d] s by simp
    with fill_specific_opaque[of e4 ?cap d] assms(1) s(5) show ?thesis by auto
  qed
qed

section \<open>Well-formed structures are read without a fault\<close>

text \<open>What a caller that follows the DirectInput documentation passes: the memory each member
  declares is readable.\<close>

definition readable_effect :: "arch \<Rightarrow> DIEFFECT \<Rightarrow> bool" where
  "readable_effect a d \<longleftrightarrow>
     (sizeof_DIEFFECT a \<le> unat (die_size d) \<longrightarrow> die_start_delay d \<noteq> None)
   \<and> (case die_axes d of NullPtr \<Rightarrow> True | BadPtr \<Rightarrow> False
      | Ptr xs \<Rightarrow> unat (die_axis_count d) \<le> length xs)
   \<and> (case die_directions d of NullPtr \<Rightarrow> True | BadPtr \<Rightarrow> False
      | Ptr xs \<Rightarrow> unat (die_axis_count d) \<le> length xs)
   \<and> die_envelope d \<noteq> BadPtr
   \<and> (case die_type_specific d of NullPtr \<Rightarrow> True | BadPtr \<Rightarrow> False
      | Ptr mem \<Rightarrow> unat (die_type_specific_size d) \<le> length mem)"

lemma copy_elements_ok:
  assumes "\<And>j. i \<le> j \<Longrightarrow> j < i + n \<Longrightarrow> rd j \<noteq> None"
  shows "\<exists>e'. copy_elements rd store i n e = Inr e'"
  using assms
proof (induction n arbitrary: i e)
  case (Suc n)
  from Suc.prems[of i] obtain v where "rd i = Some v" by auto
  with Suc.IH[of "Suc i"] Suc.prems show ?case by simp
qed simp

lemma read_u32_at_ok: "off + 4 \<le> length mem \<Longrightarrow> read_u32_at mem off \<noteq> None"
proof -
  assume "off + 4 \<le> length mem"
  then have "4 \<le> length (drop off mem)" by simp
  then obtain b0 b1 b2 b3 r where "drop off mem = b0 # b1 # b2 # b3 # r"
    by (auto simp: Suc_le_length_iff numeral_eq_Suc simp del: length_drop)
  then show ?thesis by (simp add: read_u32_at_def)
qed

lemma fill_type_specific_ok:
  assumes "unat (ev_type_specific_size e) \<le> length mem"
  shows "\<exists>e'. fill_type_specific mem e = Inr e'"
proof -
  note rd = read_u32_at_ok[of _ mem]
  have "\<exists>e'. fill_constant mem e = Inr e'" "\<exists>e'. fill_ramp mem e = Inr e'"
    "\<exists>e'. fill_periodic mem e = Inr e'"
    using assms rd[of 0] rd[of 4] rd[of 8] rd[of 12]
    by (auto simp: fill_constant_def fill_ramp_def fill_periodic_def Let_def
        sizeof_DICONSTANTFORCE_def sizeof_DIRAMPFORCE_def sizeof_DIPERIODIC_def split: option.split)
  moreover have "\<exists>e'. fill_conditions mem e = Inr e'"
  proof -
    define available where "available = unat (ev_type_specific_size e) div sizeof_DICONDITION"
    define count where
      "count = min (if ev_axis_count e = 0 then available else unat (ev_axis_count e)) kMaxAxes"
    have "min count available \<le> 8" by (simp add: count_def kMaxAxes_def)
    then have n: "unat (word_of_nat (min count available) :: u32) = min count available"
      by (intro of_nat_inverse) simp_all
    have "24 * min count available \<le> length mem"
    proof -
      have "24 * available \<le> unat (ev_type_specific_size e)"
        by (simp add: available_def sizeof_DICONDITION_def)
      with assms show ?thesis by linarith
    qed
    then have "\<exists>e'. copy_elements (\<lambda>j. read_u32_at mem (4 * j)) store_condition_word 0
        (6 * min count available) x = Inr e'" for x
      by (intro copy_elements_ok rd) auto
    then show ?thesis
      using n by (simp add: fill_conditions_def Let_def flip: available_def count_def)
  qed
  ultimately show ?thesis by (auto simp: fill_type_specific_def split: EffectKind.split)
qed

lemma assign_if_scalar [simp]:
  "ev_axis_count (assign_if b (\<lambda>e. e\<lparr>ev_duration := v\<rparr>) e) = ev_axis_count e"
  "ev_axis_count (assign_if b (\<lambda>e. e\<lparr>ev_sample_period := v\<rparr>) e) = ev_axis_count e"
  "ev_axis_count (assign_if b (\<lambda>e. e\<lparr>ev_gain := v\<rparr>) e) = ev_axis_count e"
  "ev_axis_count (assign_if b (\<lambda>e. e\<lparr>ev_trigger_button := v\<rparr>) e) = ev_axis_count e"
  "ev_axis_count (assign_if b (\<lambda>e. e\<lparr>ev_trigger_repeat := v\<rparr>) e) = ev_axis_count e"
  "ev_axis_count (assign_if b (\<lambda>e. e\<lparr>ev_axis_count := c\<rparr>) e) = (if b then c else ev_axis_count e)"
  by (simp_all add: assign_if_def)

lemma fill_scalars_ok:
  assumes "sizeof_DIEFFECT a \<le> unat (die_size d) \<longrightarrow> die_start_delay d \<noteq> None"
  shows "\<exists>e1. fill_scalars a cap d e = Inr e1 \<and> ev_axis_count e1 =
    (if cap DIEP_AXES \<or> cap DIEP_DIRECTION
     then word_of_nat (min (unat (die_axis_count d)) kMaxAxes) else ev_axis_count e)"
proof (cases "cap DIEP_STARTDELAY \<and> sizeof_DIEFFECT a \<le> unat (die_size d)")
  case True
  with assms obtain v where "die_start_delay d = Some v" by auto
  with True show ?thesis by (simp add: fill_scalars_def Let_def)
next
  case False
  then show ?thesis by (auto simp: fill_scalars_def Let_def)
qed

lemma copy_elements_axis_count:
  assumes "\<And>i v e. ev_axis_count (store i v e) = ev_axis_count e"
  shows "copy_elements rd store i n e = Inr e' \<Longrightarrow> ev_axis_count e' = ev_axis_count e"
  using assms by (induction n arbitrary: i e) (auto split: option.splits)

lemma fill_axes_ok:
  assumes "readable_effect a d" and "cap \<longrightarrow> unat (ev_axis_count e) \<le> unat (die_axis_count d)"
  shows "\<exists>e'. fill_axes cap d e = Inr e' \<and> ev_axis_count e' = ev_axis_count e"
proof (cases "cap \<and> (\<exists>xs. die_axes d = Ptr xs)")
  case True
  then obtain xs where xs: "die_axes d = Ptr xs" and cap by auto
  let ?store = "\<lambda>i v e. e\<lparr>ev_axes := (ev_axes e)[i := v]\<rparr>"
  have "list_read xs j \<noteq> None" if "j < unat (ev_axis_count e)" for j
    using that assms xs \<open>cap\<close> by (simp add: readable_effect_def list_read_def)
  then obtain e' where e': "copy_elements (list_read xs) ?store 0 (unat (ev_axis_count e)) e = Inr e'"
    using copy_elements_ok[of 0 "unat (ev_axis_count e)" "list_read xs" ?store e] by auto
  have "ev_axis_count e' = ev_axis_count e"
    by (rule copy_elements_axis_count[OF _ e']) simp
  with xs e' \<open>cap\<close> show ?thesis by (simp add: fill_axes_def)
qed (use assms in \<open>auto simp: fill_axes_def readable_effect_def split: ptr.split\<close>)

lemma fill_directions_ok:
  assumes "readable_effect a d" and "cap \<longrightarrow> unat (ev_axis_count e) \<le> unat (die_axis_count d)"
  shows "\<exists>e'. fill_directions cap d e = Inr e' \<and> ev_axis_count e' = ev_axis_count e"
proof (cases "cap \<and> (\<exists>xs. die_directions d = Ptr xs)")
  case True
  then obtain xs where xs: "die_directions d = Ptr xs" and cap by auto
  let ?store = "\<lambda>i v e. e\<lparr>ev_directions := (ev_directions e)[i := v]\<rparr>"
  have "list_read xs j \<noteq> None" if "j < unat (ev_axis_count e)" for j
    using that assms xs \<open>cap\<close> by (simp add: readable_effect_def list_read_def)
  then obtain e' where e': "copy_elements (list_read xs) ?store 0 (unat (ev_axis_count e)) e = Inr e'"
    using copy_elements_ok[of 0 "unat (ev_axis_count e)" "list_read xs" ?store e] by auto
  have "ev_axis_count e' = ev_axis_count e"
    by (rule copy_elements_axis_count[OF _ e']) simp
  with xs e' \<open>cap\<close> show ?thesis by (simp add: fill_directions_def)
qed (use assms in \<open>auto simp: fill_directions_def readable_effect_def split: ptr.split\<close>)

lemma fill_envelope_ok: "readable_effect a d \<Longrightarrow> \<exists>e'. fill_envelope cap d e = Inr e'"
  by (auto simp: fill_envelope_def readable_effect_def split: ptr.split)

lemma fill_specific_ok:
  assumes "readable_effect a d"
  shows "\<exists>e'. fill_specific cap d e = Inr e'"
proof (cases "die_type_specific d")
  case (Ptr mem)
  with assms have "unat (die_type_specific_size d) \<le> length mem"
    by (simp add: readable_effect_def)
  then have "\<exists>e'. fill_type_specific mem (x\<lparr>ev_type_specific_size := die_type_specific_size d\<rparr>) = Inr e'"
    for x by (intro fill_type_specific_ok) simp
  with Ptr show ?thesis by (simp add: fill_specific_def Let_def)
qed (use assms in \<open>auto simp: fill_specific_def readable_effect_def Let_def\<close>)

lemma fill_body_ok:
  assumes "readable_effect a d"
  shows "\<exists>e'. fill_body a d e = Inr e'"
proof (cases "unat (die_size d) < sizeof_DIEFFECT_DX5 a")
  case True
  then show ?thesis by (simp add: fill_body_def)
next
  case False
  let ?cap = "captures (ev_type e = EffectCreated) (ev_flags e)"
  let ?n = "min (unat (die_axis_count d)) kMaxAxes"
  have n: "unat (word_of_nat ?n :: u32) = ?n" by (intro of_nat_inverse) (simp_all add: kMaxAxes_def)
  have "sizeof_DIEFFECT a \<le> unat (die_size d) \<longrightarrow> die_start_delay d \<noteq> None"
    using assms by (simp add: readable_effect_def)
  from fill_scalars_ok[OF this, of ?cap e] obtain e1 where e1: "fill_scalars a ?cap d e = Inr e1"
    "?cap DIEP_AXES \<or> ?cap DIEP_DIRECTION \<longrightarrow> ev_axis_count e1 = word_of_nat ?n" by auto
  then have le1: "?cap DIEP_AXES \<longrightarrow> unat (ev_axis_count e1) \<le> unat (die_axis_count d)"
    and le2: "?cap DIEP_DIRECTION \<longrightarrow> unat (ev_axis_count e1) \<le> unat (die_axis_count d)"
    using n by simp_all
  from fill_axes_ok[OF assms le1] obtain e2 where e2: "fill_axes (?cap DIEP_AXES) d e1 = Inr e2"
    "ev_axis_count e2 = ev_axis_count e1" by auto
  with le2 have le3: "?cap DIEP_DIRECTION \<longrightarrow> unat (ev_axis_count e2) \<le> unat (die_axis_count d)"
    by simp
  from fill_directions_ok[OF assms le3] obtain e3 where
    e3: "fill_directions (?cap DIEP_DIRECTION) d e2 = Inr e3" by auto
  from fill_envelope_ok[OF assms] obtain e4 where
    e4: "fill_envelope (?cap DIEP_ENVELOPE) d e3 = Inr e4" by blast
  from fill_specific_ok[OF assms] obtain e5 where "fill_specific ?cap d e4 = Inr e5" by blast
  with False e1(1) e2(1) e3 e4 show ?thesis by (simp add: fill_body_def Let_def)
qed

section \<open>What is captured of a new effect\<close>

definition captured_scalars :: "Event \<Rightarrow> u32 list" where
  "captured_scalars e = [ev_duration e, ev_sample_period e, ev_gain e, ev_trigger_button e,
     ev_trigger_repeat e, ev_axis_count e]"

lemma fill_scalars_captured:
  assumes "fill_scalars a (\<lambda>_. True) d e = Inr e'"
  shows "captured_scalars e' = [die_duration d, die_sample_period d, die_gain d,
     die_trigger_button d, die_trigger_repeat d, word_of_nat (min (unat (die_axis_count d)) kMaxAxes)]
     \<and> length (ev_axes e') = length (ev_axes e) \<and> length (ev_directions e') = length (ev_directions e)"
  using assms
  by (auto simp: fill_scalars_def Let_def assign_if_def captured_scalars_def guarded_bind_Inr
      split: if_splits option.splits)

lemma copy_elements_all:
  assumes "copy_elements rd store i n e = Inr e'" and "\<And>i v e. P e \<Longrightarrow> P (store i v e)" and "P e"
  shows "P e'"
  using assms guarded_all_copy[of P store e rd i n] by auto

lemma copy_axes:
  "copy_elements (list_read xs) (\<lambda>i v e. e\<lparr>ev_axes := (ev_axes e)[i := v]\<rparr>) i n e = Inr e' \<Longrightarrow>
   i + n \<le> length (ev_axes e) \<Longrightarrow>
   take (i + n) (ev_axes e') = take i (ev_axes e) @ take n (drop i xs)"
proof (induction n arbitrary: i e)
  case (Suc n)
  from Suc.prems obtain v where v: "list_read xs i = Some v" by (auto split: option.splits)
  then have i: "i < length xs" "v = xs ! i" by (auto simp: list_read_def split: if_splits)
  have "take (Suc i + n) (ev_axes e') = take (Suc i) ((ev_axes e)[i := v]) @ take n (drop (Suc i) xs)"
    using Suc.IH[of "Suc i" "e\<lparr>ev_axes := (ev_axes e)[i := v]\<rparr>"] Suc.prems v by simp
  then show ?case
    using i Suc.prems(2) by (simp add: take_Suc_conv_app_nth Cons_nth_drop_Suc[symmetric])
qed simp

lemma copy_directions:
  "copy_elements (list_read xs) (\<lambda>i v e. e\<lparr>ev_directions := (ev_directions e)[i := v]\<rparr>) i n e = Inr e' \<Longrightarrow>
   i + n \<le> length (ev_directions e) \<Longrightarrow>
   take (i + n) (ev_directions e') = take i (ev_directions e) @ take n (drop i xs)"
proof (induction n arbitrary: i e)
  case (Suc n)
  from Suc.prems obtain v where v: "list_read xs i = Some v" by (auto split: option.splits)
  then have i: "i < length xs" "v = xs ! i" by (auto simp: list_read_def split: if_splits)
  have "take (Suc i + n) (ev_directions e')
      = take (Suc i) ((ev_directions e)[i := v]) @ take n (drop (Suc i) xs)"
    using Suc.IH[of "Suc i" "e\<lparr>ev_directions := (ev_directions e)[i := v]\<rparr>"] Suc.prems v by simp
  then show ?case
    using i Suc.prems(2) by (simp add: take_Suc_conv_app_nth Cons_nth_drop_Suc[symmetric])
qed simp

text \<open>The later steps keep what an earlier one stored.\<close>

definition stored :: "Event \<Rightarrow> u32 list \<times> i32 list \<times> i32 list" where
  "stored e = (captured_scalars e, ev_axes e, ev_directions e)"

lemma stored_update:
  "stored (x\<lparr>ev_custom_redacted := b\<rparr>) = stored x"
  "stored (x\<lparr>ev_type_specific_size := v\<rparr>) = stored x"
  "stored (x\<lparr>ev_condition_count := v\<rparr>) = stored x"
  "stored (store_condition_word i v x) = stored x"
  "stored (x\<lparr>ev_magnitude := v\<rparr>) = stored x"
  "stored (x\<lparr>ev_ramp_start := v\<rparr>) = stored x"
  "stored (x\<lparr>ev_ramp_end := v\<rparr>) = stored x"
  "stored (x\<lparr>ev_periodic_magnitude := v\<rparr>) = stored x"
  "stored (x\<lparr>ev_periodic_offset := v\<rparr>) = stored x"
  "stored (x\<lparr>ev_periodic_phase := v\<rparr>) = stored x"
  "stored (x\<lparr>ev_periodic_period := v\<rparr>) = stored x"
  "stored (x\<lparr>ev_attack_level := v, ev_attack_time := w, ev_fade_level := y, ev_fade_time := z\<rparr>) = stored x"
  by (simp_all add: stored_def captured_scalars_def store_condition_word_def)

lemma stored_type_specific:
  assumes "stored x = s"
  shows "guarded_all (\<lambda>x. stored x = s) (fill_type_specific mem x)"
proof -
  have "guarded_all (\<lambda>x. stored x = s)
      (copy_elements (\<lambda>j. read_u32_at mem (4 * j)) store_condition_word i n x)"
    if "stored x = s" for mem i n x
    using that by (intro guarded_all_copy) (simp_all add: stored_update)
  with assms have "guarded_all (\<lambda>x. stored x = s) (fill_conditions mem x)"
    by (simp add: fill_conditions_def Let_def stored_update)
  moreover have "guarded_all (\<lambda>x. stored x = s) (fill_constant mem x)"
    "guarded_all (\<lambda>x. stored x = s) (fill_ramp mem x)"
    "guarded_all (\<lambda>x. stored x = s) (fill_periodic mem x)"
    using assms by (simp_all add: fill_constant_def fill_ramp_def fill_periodic_def
        Let_def stored_update split: option.split)
  ultimately show ?thesis
    using assms by (simp add: fill_type_specific_def stored_update split: EffectKind.split)
qed

lemma stored_specific:
  "stored x = s \<Longrightarrow> guarded_all (\<lambda>x. stored x = s) (fill_specific cap d x)"
  by (simp add: fill_specific_def Let_def stored_update stored_type_specific split: ptr.split)

lemma stored_envelope:
  "stored x = s \<Longrightarrow> guarded_all (\<lambda>x. stored x = s) (fill_envelope c d x)"
  by (simp add: fill_envelope_def stored_update split: ptr.split)

lemma fill_axes_captured:
  assumes "fill_axes True d e = Inr e'" and "die_axes d = Ptr xs"
    and "unat (ev_axis_count e) \<le> length (ev_axes e)"
  shows "captured_scalars e' = captured_scalars e \<and> ev_directions e' = ev_directions e \<and>
    take (unat (ev_axis_count e)) (ev_axes e') = take (unat (ev_axis_count e)) xs"
proof -
  have c: "copy_elements (list_read xs) (\<lambda>i v e. e\<lparr>ev_axes := (ev_axes e)[i := v]\<rparr>) 0
      (unat (ev_axis_count e)) e = Inr e'" using assms by (simp add: fill_axes_def)
  have "captured_scalars e' = captured_scalars e \<and> ev_directions e' = ev_directions e"
    by (rule copy_elements_all[OF c]) (simp_all add: captured_scalars_def)
  with copy_axes[OF c] assms(3) show ?thesis by simp
qed

lemma fill_directions_captured:
  assumes "fill_directions True d e = Inr e'" and "die_directions d = Ptr xs"
    and "unat (ev_axis_count e) \<le> length (ev_directions e)"
  shows "captured_scalars e' = captured_scalars e \<and> ev_axes e' = ev_axes e \<and>
    take (unat (ev_axis_count e)) (ev_directions e') = take (unat (ev_axis_count e)) xs"
proof -
  have c: "copy_elements (list_read xs) (\<lambda>i v e. e\<lparr>ev_directions := (ev_directions e)[i := v]\<rparr>) 0
      (unat (ev_axis_count e)) e = Inr e'" using assms by (simp add: fill_directions_def)
  have "captured_scalars e' = captured_scalars e \<and> ev_axes e' = ev_axes e"
    by (rule copy_elements_all[OF c]) (simp_all add: captured_scalars_def)
  with copy_directions[OF c] assms(3) show ?thesis by simp
qed

section \<open>The properties\<close>

text \<open>Whatever the caller's pointers lead to, capturing never breaks the bounds of the event:
  both element counts stay within the arrays, so serialization stays within a frame.\<close>

theorem fill_keeps_bounds:
  "event_bounded e \<Longrightarrow> event_bounded (fill_effect_parameters a e eff)"
  using fill_effect_parameters_all[OF event_bounded_kept, where eff = eff and a = a]
  by (simp add: fill_handler_bounded)

definition sample_effect :: DIEFFECT where
  "sample_effect = \<lparr>die_size = 80, die_flags = 0x12, die_duration = 1000, die_sample_period = 0,
     die_gain = 10000, die_trigger_button = 0xFFFFFFFF, die_trigger_repeat = 0, die_axis_count = 2,
     die_axes = Ptr [0, 4], die_directions = Ptr [1, 2], die_envelope = NullPtr,
     die_type_specific_size = 4, die_type_specific = Ptr [0x10, 0x27, 0, 0],
     die_start_delay = Some 7\<rparr>"

theorem fill_keeps_bounds_witness:
  "event_bounded (fill_effect_parameters X64 empty_event (Ptr sample_effect))"
  by (rule fill_keeps_bounds, rule empty_event_bounded)

text \<open>C5: an effect of a custom or unknown kind is opaque: its type-specific memory is neither
  copied nor looked at.  The event is marked redacted, its force content is the one it had, and
  the outcome is the same for any two buffers.\<close>

theorem opaque_effects_are_redacted:
  assumes "opaque_kind (ev_effect_kind e)"
  shows "(eff \<noteq> NullPtr \<longrightarrow> ev_custom_redacted (fill_effect_parameters a e eff))
    \<and> effect_content (fill_effect_parameters a e eff) = effect_content e
    \<and> (p \<noteq> NullPtr \<longrightarrow> q \<noteq> NullPtr \<longrightarrow>
        fill_effect_parameters a e (Ptr (d\<lparr>die_type_specific := p\<rparr>)) =
        fill_effect_parameters a e (Ptr (d\<lparr>die_type_specific := q\<rparr>)))"
proof (intro conjI impI)
  assume "eff \<noteq> NullPtr"
  then show "ev_custom_redacted (fill_effect_parameters a e eff)"
    using fill_body_opaque_redacted[OF assms]
    by (cases eff) (auto simp: fill_effect_parameters_def fill_handler_def split: sum.split)
next
  have "(\<lambda>x. effect_content x = effect_content e \<and> ev_effect_kind x = ev_effect_kind e)
      (fill_effect_parameters a e eff)"
    by (rule fill_effect_parameters_all[OF effect_content_kept])
      (use assms in \<open>auto simp: effect_content_def fill_handler_def\<close>)
  then show "effect_content (fill_effect_parameters a e eff) = effect_content e" by simp
next
  assume "p \<noteq> NullPtr" and "q \<noteq> NullPtr"
  from fill_body_opaque_same[OF assms this]
  show "fill_effect_parameters a e (Ptr (d\<lparr>die_type_specific := p\<rparr>)) =
      fill_effect_parameters a e (Ptr (d\<lparr>die_type_specific := q\<rparr>))"
    by (simp add: fill_effect_parameters_def)
qed

theorem opaque_effects_are_redacted_witness:
  "ev_custom_redacted (fill_effect_parameters X64 empty_event (Ptr sample_effect))"
proof -
  have "opaque_kind (ev_effect_kind empty_event)" by (simp add: empty_event_def opaque_kind_def)
  from opaque_effects_are_redacted[OF this, of "Ptr sample_effect" X64] show ?thesis by simp
qed

text \<open>Of a created effect whose structure is readable, the event holds the scalar members,
  the axis count capped at eight, and that many axes and directions of the caller's arrays.\<close>

theorem created_effect_captured:
  assumes "ev_type e = EffectCreated" and "event_wf e" and "readable_effect a d"
    and "sizeof_DIEFFECT_DX5 a \<le> unat (die_size d)"
    and "die_axes d = Ptr xs" and "die_directions d = Ptr ys"
    and "e' = fill_effect_parameters a e (Ptr d)"
    and "n = min (unat (die_axis_count d)) kMaxAxes"
  shows "captured_scalars e' = [die_duration d, die_sample_period d, die_gain d,
      die_trigger_button d, die_trigger_repeat d, word_of_nat n]
    \<and> take n (ev_axes e') = take n xs \<and> take n (ev_directions e') = take n ys"
proof -
  have n: "unat (word_of_nat n :: u32) = n" "n \<le> 8"
    using assms(8) by (auto intro: of_nat_inverse simp: kMaxAxes_def)
  have cap: "captures (ev_type e = EffectCreated) (ev_flags e) = (\<lambda>_. True)"
    using assms(1) by (auto simp: captures_def)
  from fill_body_ok[OF assms(3)] obtain x where x: "fill_body a d e = Inr x" by blast
  with assms(7) have x': "x = e'" by (simp add: fill_effect_parameters_def)
  from x[unfolded fill_body_def cap Let_def] x' assms(4) obtain e1 e2 e3 e4 where
    s: "fill_scalars a (\<lambda>_. True) d e = Inr e1" "fill_axes True d e1 = Inr e2"
      "fill_directions True d e2 = Inr e3" "fill_envelope True d e3 = Inr e4"
      "fill_specific (\<lambda>_. True) d e4 = Inr e'"
    by (auto simp: guarded_bind_Inr split: if_splits)
  note sc = fill_scalars_captured[OF s(1)]
  then have c1: "ev_axis_count e1 = word_of_nat n" using assms(8) by (simp add: captured_scalars_def)
  have len: "n \<le> length (ev_axes e1)" "n \<le> length (ev_directions e1)"
    using sc assms(2) n by (simp_all add: event_wf_def kMaxAxes_def)
  note ax = fill_axes_captured[OF s(2) assms(5), unfolded c1 n(1), OF len(1)]
  then have c2: "ev_axis_count e2 = word_of_nat n" "ev_directions e2 = ev_directions e1"
    using c1 by (simp_all add: captured_scalars_def)
  note dir = fill_directions_captured[OF s(3) assms(6), unfolded c2 n(1), OF len(2)]
  have "stored e4 = stored e3" "stored e' = stored e4"
    using stored_envelope[of e3 "stored e3" True d] stored_specific[of e4 "stored e4" "\<lambda>_. True" d] s
    by simp_all
  with sc ax dir assms(8) show ?thesis by (simp add: stored_def)
qed

theorem created_effect_captured_witness:
  "take 2 (ev_axes (fill_effect_parameters X64 (empty_event\<lparr>ev_type := EffectCreated\<rparr>)
     (Ptr sample_effect))) = [0, 4]"
  using created_effect_captured[of "empty_event\<lparr>ev_type := EffectCreated\<rparr>" X64 sample_effect
      "[0, 4]" "[1, 2]", OF _ _ _ _ _ _ refl refl] empty_event_bounded
  by (simp add: sample_effect_def readable_effect_def event_bounded_def event_wf_def
      sizeof_DIEFFECT_DX5_def sizeof_DIEFFECT_def kMaxAxes_def)

text \<open>When an effect is only updated, the members the caller did not name in the flags keep the
  value they had, on every path, a fault included.\<close>

theorem unrequested_members_are_kept:
  assumes "ev_type e \<noteq> EffectCreated" and "e' = fill_effect_parameters a e eff"
  shows "(ev_flags e AND DIEP_DURATION = 0 \<longrightarrow> ev_duration e' = ev_duration e)
    \<and> (ev_flags e AND DIEP_GAIN = 0 \<longrightarrow> ev_gain e' = ev_gain e)
    \<and> (ev_flags e AND DIEP_STARTDELAY = 0 \<longrightarrow> ev_start_delay e' = ev_start_delay e)
    \<and> (ev_flags e AND DIEP_TRIGGERBUTTON = 0 \<longrightarrow> ev_trigger_button e' = ev_trigger_button e)
    \<and> (ev_flags e AND DIEP_AXES = 0 \<longrightarrow> ev_axes e' = ev_axes e)
    \<and> (ev_flags e AND DIEP_DIRECTION = 0 \<longrightarrow> ev_directions e' = ev_directions e)
    \<and> (ev_flags e AND DIEP_ENVELOPE = 0 \<longrightarrow> ev_attack_level e' = ev_attack_level e)
    \<and> (ev_flags e AND DIEP_TYPESPECIFICPARAMS = 0 \<longrightarrow> effect_content e' = effect_content e)"
proof -
  have keep: "f e' = f e"
    if k: "kept_by_stores (captures False (ev_flags e)) (ev_effect_kind e)
        (\<lambda>x. f x = f e \<and> ev_effect_kind x = ev_effect_kind e)"
      and h: "\<And>x. f (fill_handler x) = f x" for f :: "Event \<Rightarrow> 'b"
  proof -
    let ?P = "\<lambda>x. f x = f e \<and> ev_effect_kind x = ev_effect_kind e"
    have "captures (ev_type e = EffectCreated) (ev_flags e) = captures False (ev_flags e)"
      using assms(1) by simp
    with k have "kept_by_stores (captures (ev_type e = EffectCreated) (ev_flags e)) (ev_effect_kind e) ?P"
      by simp
    then have "?P (fill_effect_parameters a e eff)"
      by (rule fill_effect_parameters_all) (simp_all add: h)
    then show ?thesis by (simp only: assms(2))
  qed
  note facts = kept_by_stores_def captures_def fill_handler_def store_condition_word_def effect_content_def
  have "ev_duration e' = ev_duration e" if "ev_flags e AND DIEP_DURATION = 0"
    by (rule keep[of ev_duration]) (simp_all add: facts that)
  moreover have "ev_gain e' = ev_gain e" if "ev_flags e AND DIEP_GAIN = 0"
    by (rule keep[of ev_gain]) (simp_all add: facts that)
  moreover have "ev_start_delay e' = ev_start_delay e" if "ev_flags e AND DIEP_STARTDELAY = 0"
    by (rule keep[of ev_start_delay]) (simp_all add: facts that)
  moreover have "ev_trigger_button e' = ev_trigger_button e" if "ev_flags e AND DIEP_TRIGGERBUTTON = 0"
    by (rule keep[of ev_trigger_button]) (simp_all add: facts that)
  moreover have "ev_axes e' = ev_axes e" if "ev_flags e AND DIEP_AXES = 0"
    by (rule keep[of ev_axes]) (simp_all add: facts that)
  moreover have "ev_directions e' = ev_directions e" if "ev_flags e AND DIEP_DIRECTION = 0"
    by (rule keep[of ev_directions]) (simp_all add: facts that)
  moreover have "ev_attack_level e' = ev_attack_level e" if "ev_flags e AND DIEP_ENVELOPE = 0"
    by (rule keep[of ev_attack_level]) (simp_all add: facts that)
  moreover have "effect_content e' = effect_content e" if "ev_flags e AND DIEP_TYPESPECIFICPARAMS = 0"
    by (rule keep[of effect_content]) (simp_all add: facts that)
  ultimately show ?thesis by (intro conjI impI)
qed

theorem unrequested_members_are_kept_witness:
  "ev_gain (fill_effect_parameters X64 (empty_event\<lparr>ev_flags := 0x100, ev_gain := 3\<rparr>) (Ptr sample_effect)) = 3"
proof -
  let ?e = "empty_event\<lparr>ev_flags := 0x100, ev_gain := 3\<rparr>"
  have "ev_type ?e \<noteq> EffectCreated" by (simp add: empty_event_def)
  note kept = unrequested_members_are_kept[OF this refl, THEN conjunct2, THEN conjunct1]
  have "ev_flags ?e AND DIEP_GAIN = 0" by (simp add: DIEP_GAIN_def)
  with kept have "ev_gain (fill_effect_parameters X64 ?e (Ptr sample_effect)) = ev_gain ?e" ..
  then show ?thesis by simp
qed

end
