(* ===== verification/Slist_Pool.thy ===== *)
theory Slist_Pool imports FFB_Prelude begin

text \<open>
  The interlocked singly linked lists (\<open>SLIST_HEADER\<close>) that hold the telemetry nodes.  The contract
  a client relies on is the locale \<open>interlocked_list\<close>: a push adds one entry, a pop takes one, a
  flush takes all, each atomically.  The list model is last in, first out, as the documentation
  of the interlocked lists promises; the entries are node indices.
\<close>

section \<open>The contract\<close>

locale interlocked_list =
  fixes push :: "'a \<Rightarrow> 's \<Rightarrow> 's"
    and pop :: "'s \<Rightarrow> 'a option \<times> 's"
    and flush :: "'s \<Rightarrow> 'a list \<times> 's"
    and entries :: "'s \<Rightarrow> 'a multiset"
  assumes entries_push: "entries (push x s) = add_mset x (entries s)"
    and pop_none: "pop s = (None, s') \<Longrightarrow> entries s = {#} \<and> s' = s"
    and pop_some: "pop s = (Some x, s') \<Longrightarrow> entries s = add_mset x (entries s')"
    and flush_all: "flush s = (xs, s') \<Longrightarrow> mset xs = entries s \<and> entries s' = {#}"
begin

text \<open>A pool of two lists: what is free and what is pending.  Every node a thread takes from one
  and gives to the other stays accounted for.\<close>

lemma move:
  "pop s = (Some x, s') \<Longrightarrow> entries s' + entries (push x t) = entries s + entries t"
  by (simp add: entries_push pop_some)

fun push_all :: "'a list \<Rightarrow> 's \<Rightarrow> 's" where
  "push_all [] s = s"
| "push_all (x # xs) s = push_all xs (push x s)"

lemma entries_push_all: "entries (push_all xs s) = mset xs + entries s"
  by (induction xs arbitrary: s) (simp_all add: entries_push)

lemma recycle:
  "flush s = (xs, s') \<Longrightarrow> entries (push_all xs t) + entries s' = entries s + entries t"
  by (auto simp: entries_push_all dest: flush_all)

end

section \<open>The list model\<close>

definition slist_push :: "'a \<Rightarrow> 'a list \<Rightarrow> 'a list" where
  "slist_push x s = x # s"

fun slist_pop :: "'a list \<Rightarrow> 'a option \<times> 'a list" where
  "slist_pop [] = (None, [])"
| "slist_pop (x # s) = (Some x, s)"

definition slist_flush :: "'a list \<Rightarrow> 'a list \<times> 'a list" where
  "slist_flush s = (s, [])"

interpretation sl: interlocked_list slist_push slist_pop slist_flush mset
proof
  fix s s' :: "'a list" and x :: 'a and xs :: "'a list"
  show "mset (slist_push x s) = add_mset x (mset s)" by (simp add: slist_push_def)
  show "slist_pop s = (None, s') \<Longrightarrow> mset s = {#} \<and> s' = s" by (cases s) auto
  show "slist_pop s = (Some x, s') \<Longrightarrow> mset s = add_mset x (mset s')" by (cases s) auto
  show "slist_flush s = (xs, s') \<Longrightarrow> mset xs = mset s \<and> mset s' = {#}" by (auto simp: slist_flush_def)
qed

lemma slist_pop_none [slist]: "slist_pop s = (None, s') \<longleftrightarrow> s = [] \<and> s' = []"
  by (cases s) auto

lemma slist_pop_some [slist]: "slist_pop s = (Some x, s') \<longleftrightarrow> s = x # s'"
  by (cases s) auto

lemma push_all_rev: "sl.push_all xs s = rev xs @ s"
  by (induction xs arbitrary: s) (simp_all add: slist_push_def)

end
