(* ===== verification/Telemetry.thy ===== *)
theory Telemetry imports Wire_Event Slist_Pool begin

text \<open>
  The telemetry engine of \<open>src/telemetry.h\<close> and \<open>src/telemetry.cpp\<close>: two sinks, each with a pool
  of 1024 nodes, a worker thread that owns the pipe, and producers that emit under one lock.
  \<open>worker_step\<close> is one atomic action of \<open>Telemetry::run\<close> on its sink; its \<open>worker\<close> value is the
  program point with the live local variables.  \<open>tstep\<close> is the interleaving of the workers, the
  lock holder and \<open>start\<close>.  Pipe and thread calls return whatever the environment decides.
  Three ghost fields record the history the properties speak of: the frames written to the current
  pipe, and how many events were offered to and delivered by the sink.
\<close>

section \<open>State\<close>

definition kQueueCapacity :: nat where "kQueueCapacity = 1024"
definition kSinkCount :: nat where "kSinkCount = 2"

text \<open>The program points of \<open>run\<close>.  \<open>r\<close> is \<open>reported_drops\<close>, \<open>c\<close> is \<open>count\<close>, \<open>d\<close> is \<open>drops\<close>; the
  node lists are what is left of \<open>list\<close> and of the sorted \<open>batch\<close>.\<close>

datatype worker =
    WIdle
  | WConnect
  | WHello
  | WRecycle (wk_list: "nat list")
  | WLoop u64
  | WOverflow u64 "nat list" "nat list"
  | WSend u64 "nat list" nat
  | WFail "nat list"
  | WCheck u64 nat
  | WLock u64 u64 nat
  | WNotice u64 u64 nat u64
  | WWait u64 nat

record sink =
  sk_free :: "nat list"
  sk_pending :: "nat list"
  sk_nodes :: "nat \<Rightarrow> Event"
  sk_running :: bool
  sk_dropped :: u64
  sk_worker :: worker
  sk_wire :: "Event list"
  sk_offered :: nat
  sk_delivered :: nat

text \<open>The holder of \<open>m_emit_lock\<close>: a producer with its event, the sinks it has still to serve and
  the node it has popped for the first of them.\<close>

datatype emit_lock = Unlocked | Emitting Event "nat list" "nat option"

record telemetry =
  tm_lock :: emit_lock
  tm_sequence :: u64
  tm_sinks :: "nat \<Rightarrow> sink"
  tm_issued :: nat

text \<open>The constructor pushes the nodes in index order.\<close>

definition initial_sink :: sink where
  "initial_sink = \<lparr>sk_free = sl.push_all [0..<kQueueCapacity] [], sk_pending = [],
     sk_nodes = (\<lambda>_. empty_event), sk_running = False, sk_dropped = 0, sk_worker = WIdle,
     sk_wire = [], sk_offered = 0, sk_delivered = 0\<rparr>"

definition initial_telemetry :: telemetry where
  "initial_telemetry = \<lparr>tm_lock = Unlocked, tm_sequence = 0, tm_sinks = (\<lambda>_. initial_sink),
     tm_issued = 0\<rparr>"

section \<open>Producers\<close>

text \<open>\<open>enqueue\<close> in its two atomic actions on the shared lists.\<close>

definition enqueue_pop :: "sink \<Rightarrow> nat option \<times> sink" where
  "enqueue_pop s =
     (case slist_pop (sk_free s) of
        (None, _) \<Rightarrow> (None, s\<lparr>sk_dropped := sk_dropped s + 1, sk_offered := Suc (sk_offered s)\<rparr>)
      | (Some n, rest) \<Rightarrow> (Some n, s\<lparr>sk_free := rest, sk_offered := Suc (sk_offered s)\<rparr>))"

definition enqueue_push :: "nat \<Rightarrow> Event \<Rightarrow> sink \<Rightarrow> sink" where
  "enqueue_push n e s =
     s\<lparr>sk_nodes := (sk_nodes s)(n := e), sk_pending := slist_push n (sk_pending s)\<rparr>"

definition enqueue :: "Event \<Rightarrow> sink \<Rightarrow> sink" where
  "enqueue e s =
     (case enqueue_pop s of (None, s) \<Rightarrow> s | (Some n, s) \<Rightarrow> enqueue_push n e s)"

text \<open>The stamp of \<open>emit\<close>: the next sequence number, and the clock unless the caller read it.\<close>

definition stamp :: "u64 \<Rightarrow> u64 \<Rightarrow> Event \<Rightarrow> Event" where
  "stamp seq now e =
     e\<lparr>ev_sequence := seq, ev_qpc_ticks := (if ev_qpc_ticks e = 0 then now else ev_qpc_ticks e)\<rparr>"

section \<open>The worker\<close>

definition release_node :: "nat \<Rightarrow> sink \<Rightarrow> sink" where
  "release_node n s = s\<lparr>sk_free := slist_push n (sk_free s)\<rparr>"

definition drop_node :: "nat \<Rightarrow> sink \<Rightarrow> sink" where
  "drop_node n s = release_node n (s\<lparr>sk_dropped := sk_dropped s + 1\<rparr>)"

definition goto :: "worker \<Rightarrow> sink \<Rightarrow> sink" where
  "goto w s = s\<lparr>sk_worker := w\<rparr>"

definition flush_to :: "(nat list \<Rightarrow> worker) \<Rightarrow> sink \<Rightarrow> sink" where
  "flush_to w s =
     (case slist_flush (sk_pending s) of (xs, rest) \<Rightarrow> s\<lparr>sk_pending := rest, sk_worker := w xs\<rparr>)"

definition sort_batch :: "(nat \<Rightarrow> Event) \<Rightarrow> nat list \<Rightarrow> nat list" where
  "sort_batch nodes batch = sort_key (\<lambda>n. ev_sequence (nodes n)) batch"

definition drop_notice :: "u32 \<Rightarrow> u64 \<Rightarrow> u64 \<Rightarrow> u64 \<Rightarrow> Event" where
  "drop_notice pid now d seq =
     empty_event\<lparr>ev_type := DropNotice, ev_process_id := pid,
       ev_dropped := ucast (min d 0xFFFFFFFF), ev_qpc_ticks := now, ev_sequence := seq\<rparr>"

text \<open>\<open>env\<close> carries what the action learns from outside: whether the pipe call succeeds, and the
  hello event, process id and clock it uses.\<close>

record io =
  io_ok :: bool
  io_hello :: Event
  io_pid :: u32
  io_now :: u64

definition worker_step :: "io \<Rightarrow> sink \<Rightarrow> sink" where
  "worker_step env s =
     (case sk_worker s of
        WIdle \<Rightarrow> s
      | WConnect \<Rightarrow> if io_ok env then goto WHello s else flush_to WRecycle s
      | WHello \<Rightarrow>
          if io_ok env then goto (WLoop 0) (s\<lparr>sk_wire := [io_hello env]\<rparr>)
          else flush_to WRecycle s
      | WRecycle [] \<Rightarrow> goto WConnect s
      | WRecycle (n # ns) \<Rightarrow> goto (WRecycle ns) (drop_node n s)
      | WLoop r \<Rightarrow>
          flush_to (\<lambda>xs. WOverflow r (take kQueueCapacity xs) (drop kQueueCapacity xs)) s
      | WOverflow r batch [] \<Rightarrow> goto (WSend r (sort_batch (sk_nodes s) batch) (length batch)) s
      | WOverflow r batch (n # ns) \<Rightarrow> goto (WOverflow r batch ns) (drop_node n s)
      | WSend r [] c \<Rightarrow> goto (WCheck r c) s
      | WSend r (n # ns) c \<Rightarrow>
          if io_ok env then
            goto (WSend r ns c) (release_node n (s\<lparr>sk_wire := sk_wire s @ [sk_nodes s n],
              sk_delivered := Suc (sk_delivered s)\<rparr>))
          else goto (WFail ns) (drop_node n s)
      | WFail [] \<Rightarrow> goto WConnect s
      | WFail (n # ns) \<Rightarrow> goto (WFail ns) (drop_node n s)
      | WCheck r c \<Rightarrow> if sk_dropped s \<noteq> r then goto (WLock r (sk_dropped s) c) s
          else goto (WWait r c) s
      | WLock r d c \<Rightarrow> s
      | WNotice r d c seq \<Rightarrow>
          if io_ok env then
            goto (WWait d c) (s\<lparr>sk_wire := sk_wire s @ [drop_notice (io_pid env) (io_now env) d seq]\<rparr>)
          else goto WConnect s
      | WWait r c \<Rightarrow> goto (WLoop r) s)"

section \<open>Interleaving\<close>

definition on_sink :: "nat \<Rightarrow> (sink \<Rightarrow> sink) \<Rightarrow> telemetry \<Rightarrow> telemetry" where
  "on_sink i f t = t\<lparr>tm_sinks := (tm_sinks t)(i := f (tm_sinks t i))\<rparr>"

definition next_sequence :: "telemetry \<Rightarrow> telemetry" where
  "next_sequence t = t\<lparr>tm_sequence := tm_sequence t + 1, tm_issued := Suc (tm_issued t)\<rparr>"

inductive tstep :: "telemetry \<Rightarrow> telemetry \<Rightarrow> bool" where
  start_thread: "i < kSinkCount \<Longrightarrow> sk_worker (tm_sinks t i) = WIdle \<Longrightarrow>
    tstep t (on_sink i (goto WConnect) t)"
| start_running: "i < kSinkCount \<Longrightarrow> sk_worker (tm_sinks t i) \<noteq> WIdle \<Longrightarrow>
    tstep t (on_sink i (sk_running_update (\<lambda>_. True)) t)"
| emit_begin: "tm_lock t = Unlocked \<Longrightarrow> i < kSinkCount \<Longrightarrow> sk_running (tm_sinks t i) \<Longrightarrow>
    tstep t ((next_sequence t)\<lparr>tm_lock := Emitting (stamp (tm_sequence t + 1) now e) [0..<kSinkCount] None\<rparr>)"
| emit_skip: "tm_lock t = Emitting e (i # js) None \<Longrightarrow> \<not> sk_running (tm_sinks t i) \<Longrightarrow>
    tstep t (t\<lparr>tm_lock := Emitting e js None\<rparr>)"
| emit_drop: "tm_lock t = Emitting e (i # js) None \<Longrightarrow> sk_running (tm_sinks t i) \<Longrightarrow>
    enqueue_pop (tm_sinks t i) = (None, s) \<Longrightarrow>
    tstep t ((on_sink i (\<lambda>_. s) t)\<lparr>tm_lock := Emitting e js None\<rparr>)"
| emit_pop: "tm_lock t = Emitting e (i # js) None \<Longrightarrow> sk_running (tm_sinks t i) \<Longrightarrow>
    enqueue_pop (tm_sinks t i) = (Some n, s) \<Longrightarrow>
    tstep t ((on_sink i (\<lambda>_. s) t)\<lparr>tm_lock := Emitting e (i # js) (Some n)\<rparr>)"
| emit_push: "tm_lock t = Emitting e (i # js) (Some n) \<Longrightarrow>
    tstep t ((on_sink i (enqueue_push n e) t)\<lparr>tm_lock := Emitting e js None\<rparr>)"
| emit_end: "tm_lock t = Emitting e [] None \<Longrightarrow> tstep t (t\<lparr>tm_lock := Unlocked\<rparr>)"
| worker: "i < kSinkCount \<Longrightarrow> tstep t (on_sink i (worker_step env) t)"
| notice_commit: "i < kSinkCount \<Longrightarrow> sk_worker (tm_sinks t i) = WLock r d c \<Longrightarrow>
    tm_lock t = Unlocked \<Longrightarrow> sk_pending (tm_sinks t i) = [] \<Longrightarrow>
    tstep t (on_sink i (goto (WNotice r d c (tm_sequence t + 1))) (next_sequence t))"
| notice_defer: "i < kSinkCount \<Longrightarrow> sk_worker (tm_sinks t i) = WLock r d c \<Longrightarrow>
    tm_lock t = Unlocked \<Longrightarrow> sk_pending (tm_sinks t i) \<noteq> [] \<Longrightarrow>
    tstep t (on_sink i (goto (WWait r c)) t)"

inductive reachable :: "telemetry \<Rightarrow> bool" where
  start: "reachable initial_telemetry"
| step: "reachable t \<Longrightarrow> tstep t t' \<Longrightarrow> reachable t'"

end
