(* ===== verification/Telemetry_Invariants.thy ===== *)
theory Telemetry_Invariants imports Telemetry begin

text \<open>
  What holds in every reachable state of the telemetry engine, stated per sink: \<open>pool_ok\<close> (no node
  is lost or shared), \<open>account_ok\<close> (every event offered to the sink is delivered, counted as
  dropped, or still on its way) and \<open>order_ok\<close> (what is on the pipe, then in the worker's hands,
  then pending, then in the producer's hands is in strictly increasing sequence order).  \<open>hand\<close> is
  the node the lock holder has popped from this sink, \<open>coming\<close> the number it has yet to queue here.
\<close>

section \<open>The invariants of one sink\<close>

fun worker_nodes :: "worker \<Rightarrow> nat list" where
  "worker_nodes (WRecycle ns) = ns"
| "worker_nodes (WOverflow r b ns) = b @ ns"
| "worker_nodes (WSend r ns c) = ns"
| "worker_nodes (WFail ns) = ns"
| "worker_nodes _ = []"

definition pool_ok :: "nat list \<Rightarrow> sink \<Rightarrow> bool" where
  "pool_ok hand s \<longleftrightarrow>
     mset (sk_free s) + mset (sk_pending s) + mset (worker_nodes (sk_worker s)) + mset hand
       = mset [0..<kQueueCapacity]"

definition account_ok :: "nat list \<Rightarrow> sink \<Rightarrow> bool" where
  "account_ok hand s \<longleftrightarrow>
     (word_of_nat (sk_offered s) :: u64) = word_of_nat (sk_delivered s) + sk_dropped s +
       word_of_nat (length (sk_pending s) + length (worker_nodes (sk_worker s)) + length hand)"

definition seq_of :: "sink \<Rightarrow> nat \<Rightarrow> nat" where
  "seq_of s n = unat (ev_sequence (sk_nodes s n))"

fun worker_seqs :: "sink \<Rightarrow> worker \<Rightarrow> nat list" where
  "worker_seqs s (WOverflow r b ns) = rev (map (seq_of s) b)"
| "worker_seqs s (WSend r ns c) = map (seq_of s) ns"
| "worker_seqs s (WNotice r d c q) = [unat q]"
| "worker_seqs s _ = []"

definition wire_seqs :: "sink \<Rightarrow> nat list" where
  "wire_seqs s = map (\<lambda>e. unat (ev_sequence e)) (tl (sk_wire s))"

definition timeline :: "nat list \<Rightarrow> sink \<Rightarrow> nat list" where
  "timeline coming s = wire_seqs s @ worker_seqs s (sk_worker s)
     @ rev (map (seq_of s) (sk_pending s)) @ coming"

fun connected :: "worker \<Rightarrow> bool" where
  "connected WIdle = False"
| "connected WConnect = False"
| "connected WHello = False"
| "connected (WRecycle _) = False"
| "connected (WFail _) = False"
| "connected _ = True"

definition order_ok :: "nat \<Rightarrow> nat list \<Rightarrow> sink \<Rightarrow> bool" where
  "order_ok N coming s \<longleftrightarrow> sorted_wrt (<) (timeline coming s) \<and> (\<forall>x \<in> set (timeline coming s). x \<le> N)
     \<and> (connected (sk_worker s) \<longrightarrow> sk_wire s \<noteq> [])
     \<and> (\<forall>r b ns. sk_worker s = WOverflow r b ns \<longrightarrow> ns = [])"

lemmas sink_update_defs = goto_def flush_to_def drop_node_def release_node_def slist_flush_def
  slist_push_def

lemma mset_take_drop:
  "mset (take k xs) + mset (drop k xs) = mset xs"
  "mset (take k xs) + (mset (drop k xs) + M) = mset xs + M"
  by (simp_all flip: mset_append add.assoc)

lemma pool_worker: "pool_ok h s \<Longrightarrow> pool_ok h (worker_step env s)"
  by (cases "sk_worker s" rule: worker.exhaust)
    (auto simp: pool_ok_def worker_step_def sink_update_defs sort_batch_def ac_simps
      mset_take_drop split: list.split)

lemma account_worker: "account_ok h s \<Longrightarrow> account_ok h (worker_step env s)"
  by (cases "sk_worker s" rule: worker.exhaust)
    (auto simp: account_ok_def worker_step_def sink_update_defs sort_batch_def
      split: list.split)

lemma pool_facts:
  assumes "pool_ok h s"
  shows "length (sk_pending s) \<le> kQueueCapacity"
    and "distinct (sk_free s @ sk_pending s @ worker_nodes (sk_worker s) @ h)"
    and "set (sk_free s @ sk_pending s @ worker_nodes (sk_worker s) @ h) = {..<kQueueCapacity}"
proof -
  have m: "mset (sk_free s @ sk_pending s @ worker_nodes (sk_worker s) @ h) = mset [0..<kQueueCapacity]"
    using assms by (simp add: pool_ok_def ac_simps)
  from mset_eq_length[OF m] show "length (sk_pending s) \<le> kQueueCapacity" by simp
  from m show "distinct (sk_free s @ sk_pending s @ worker_nodes (sk_worker s) @ h)"
    using mset_eq_imp_distinct_iff distinct_upt by blast
  from mset_eq_setD[OF m] show
    "set (sk_free s @ sk_pending s @ worker_nodes (sk_worker s) @ h) = {..<kQueueCapacity}"
    by (simp add: lessThan_atLeast0)
qed

lemma sort_batch_rev:
  assumes "sorted_wrt (<) (rev (map (\<lambda>n. unat (ev_sequence (nodes n))) b))"
  shows "sort_batch nodes b = rev b"
proof -
  let ?f = "\<lambda>n. ev_sequence (nodes n)"
  have s: "sorted_wrt (<) (map ?f (rev b))"
    using assms by (simp add: rev_map sorted_wrt_map word_less_nat_alt)
  then have "distinct (map ?f (rev b))" "sorted (map ?f (rev b))"
    by (simp_all add: strict_sorted_iff)
  then have "inj_on ?f (set b)" by (simp add: distinct_map)
  with \<open>sorted (map ?f (rev b))\<close> show ?thesis
    unfolding sort_batch_def by (intro sort_key_inj_key_eq) simp_all
qed

lemma order_worker:
  assumes "order_ok N c s" and "pool_ok h s"
  shows "order_ok N c (worker_step env s)"
proof (cases "sk_worker s")
  case (WOverflow r b ns)
  with assms(1) have ns: "ns = []" by (simp add: order_ok_def)
  from assms(1) WOverflow have "sorted_wrt (<) (rev (map (seq_of s) b))"
    by (simp add: order_ok_def timeline_def sorted_wrt_append)
  then have "sort_batch (sk_nodes s) b = rev b"
    by (intro sort_batch_rev) (simp add: seq_of_def[abs_def])
  with WOverflow ns assms(1) show ?thesis
    by (simp add: worker_step_def goto_def order_ok_def timeline_def wire_seqs_def seq_of_def[abs_def]
        rev_map)
next
  case (WLoop r)
  with pool_facts(1)[OF assms(2)] assms(1) show ?thesis
    by (simp add: worker_step_def flush_to_def slist_flush_def order_ok_def timeline_def wire_seqs_def
        seq_of_def[abs_def])
next
  case (WSend r ns c)
  with assms(1) show ?thesis
    by (cases ns) (auto simp: worker_step_def sink_update_defs order_ok_def timeline_def wire_seqs_def
        seq_of_def[abs_def] sorted_wrt_append tl_append2)
qed (use assms in \<open>auto simp: worker_step_def sink_update_defs order_ok_def timeline_def wire_seqs_def
        seq_of_def[abs_def] sorted_wrt_append drop_notice_def tl_append2 split: list.split\<close>)


section \<open>Producers\<close>

lemma enqueue_pop_cases:
  assumes "enqueue_pop s = (r, s')"
  obtains (none) "r = None" "sk_free s = []"
      "s' = s\<lparr>sk_dropped := sk_dropped s + 1, sk_offered := Suc (sk_offered s)\<rparr>"
  | (some) n rest where "r = Some n" "sk_free s = n # rest"
      "s' = s\<lparr>sk_free := rest, sk_offered := Suc (sk_offered s)\<rparr>"
  using assms by (auto simp: enqueue_pop_def slist split: prod.splits option.splits)

lemma pool_pop: "pool_ok [] s \<Longrightarrow> enqueue_pop s = (r, s') \<Longrightarrow> pool_ok (case r of None \<Rightarrow> [] | Some n \<Rightarrow> [n]) s'"
  by (elim enqueue_pop_cases) (auto simp: pool_ok_def ac_simps)

lemma account_pop:
  "account_ok [] s \<Longrightarrow> enqueue_pop s = (r, s') \<Longrightarrow> account_ok (case r of None \<Rightarrow> [] | Some n \<Rightarrow> [n]) s'"
  by (elim enqueue_pop_cases) (auto simp: account_ok_def)

lemma worker_seqs_same:
  "(\<forall>n \<in> set (worker_nodes w). seq_of s' n = seq_of s n) \<Longrightarrow> worker_seqs s' w = worker_seqs s w"
  by (cases w) auto

lemma order_same_worker:
  assumes "order_ok N c s" and "sk_nodes s' = sk_nodes s" and "sk_pending s' = sk_pending s"
    and "sk_worker s' = sk_worker s" and "sk_wire s' = sk_wire s"
  shows "order_ok N c s'"
proof -
  have "worker_seqs s' (sk_worker s) = worker_seqs s (sk_worker s)"
    using assms(2) by (intro worker_seqs_same) (simp add: seq_of_def)
  with assms show ?thesis by (simp add: order_ok_def timeline_def wire_seqs_def seq_of_def[abs_def])
qed

lemma order_pop:
  "order_ok N c s \<Longrightarrow> enqueue_pop s = (r, s') \<Longrightarrow> order_ok N c s'"
  by (elim enqueue_pop_cases) (auto elim: order_same_worker)

lemma pool_push: "pool_ok [n] s \<Longrightarrow> pool_ok [] (enqueue_push n e s)"
  by (simp add: pool_ok_def enqueue_push_def slist_push_def ac_simps)

lemma account_push: "account_ok [n] s \<Longrightarrow> account_ok [] (enqueue_push n e s)"
  by (simp add: account_ok_def enqueue_push_def slist_push_def)

lemma order_push:
  assumes "order_ok N [unat (ev_sequence e)] s" and "pool_ok [n] s"
  shows "order_ok N [] (enqueue_push n e s)"
proof -
  let ?s = "enqueue_push n e s"
  have "n \<notin> set (sk_pending s)" "n \<notin> set (worker_nodes (sk_worker s))"
    using pool_facts(2)[OF assms(2)] by auto
  then have pending: "map (seq_of ?s) (sk_pending s) = map (seq_of s) (sk_pending s)"
    and held: "worker_seqs ?s (sk_worker s) = worker_seqs s (sk_worker s)"
    by (auto intro!: worker_seqs_same simp: seq_of_def enqueue_push_def)
  have "timeline [] ?s = timeline [unat (ev_sequence e)] s"
    using pending held
    by (simp add: timeline_def enqueue_push_def slist_push_def wire_seqs_def seq_of_def)
  with assms(1) show ?thesis by (simp add: order_ok_def enqueue_push_def)
qed

lemma order_mono: "order_ok N c s \<Longrightarrow> N \<le> N' \<Longrightarrow> order_ok N' c s"
  unfolding order_ok_def using order_trans by blast

lemma order_coming: "order_ok N [] s \<Longrightarrow> order_ok (Suc N) [Suc N] s"
  by (auto simp: order_ok_def timeline_def sorted_wrt_append le_imp_less_Suc intro: le_SucI)

lemma order_skip: "order_ok N [q] s \<Longrightarrow> order_ok N [] s"
  by (auto simp: order_ok_def timeline_def sorted_wrt_append)

lemma order_notice:
  assumes "order_ok N [] s" and "sk_worker s = WLock r d c" and "sk_pending s = []"
    and "unat q = Suc N"
  shows "order_ok (Suc N) [] (goto (WNotice r d c q) s)"
  using assms by (auto simp: order_ok_def timeline_def sorted_wrt_append goto_def wire_seqs_def
      le_imp_less_Suc intro: le_SucI)

section \<open>The invariant of the engine\<close>

fun hand :: "emit_lock \<Rightarrow> nat \<Rightarrow> nat list" where
  "hand (Emitting e (j # js) (Some n)) i = (if i = j then [n] else [])"
| "hand _ i = []"

fun coming :: "emit_lock \<Rightarrow> nat \<Rightarrow> nat list" where
  "coming (Emitting e js h) i = (if i \<in> set js then [unat (ev_sequence e)] else [])"
| "coming Unlocked i = []"

fun lock_ok :: "emit_lock \<Rightarrow> bool" where
  "lock_ok (Emitting e js h) \<longleftrightarrow> distinct js \<and> set js \<subseteq> {..<kSinkCount} \<and> (h \<noteq> None \<longrightarrow> js \<noteq> [])"
| "lock_ok Unlocked \<longleftrightarrow> True"

definition sink_inv :: "nat \<Rightarrow> nat list \<Rightarrow> nat list \<Rightarrow> sink \<Rightarrow> bool" where
  "sink_inv N h c s \<longleftrightarrow> pool_ok h s \<and> account_ok h s \<and> (N < 2 ^ 64 \<longrightarrow> order_ok N c s)"

definition telemetry_inv :: "telemetry \<Rightarrow> bool" where
  "telemetry_inv t \<longleftrightarrow> tm_sequence t = word_of_nat (tm_issued t) \<and> lock_ok (tm_lock t)
     \<and> (\<forall>i < kSinkCount. sink_inv (tm_issued t) (hand (tm_lock t) i) (coming (tm_lock t) i) (tm_sinks t i))"

lemma sink_inv_worker: "sink_inv N h c s \<Longrightarrow> sink_inv N h c (worker_step env s)"
  unfolding sink_inv_def using pool_worker account_worker order_worker by blast

lemma sink_inv_goto:
  assumes "sink_inv N h c s" and "worker_nodes w = worker_nodes (sk_worker s)"
    and "worker_seqs s w = worker_seqs s (sk_worker s)" and "connected w \<longrightarrow> connected (sk_worker s)"
    and "\<And>r b ns. w \<noteq> WOverflow r b ns"
  shows "sink_inv N h c (goto w s)"
proof -
  have "worker_seqs (goto w s) w = worker_seqs s w"
    by (intro worker_seqs_same) (simp add: goto_def seq_of_def)
  with assms show ?thesis
    by (auto simp: sink_inv_def pool_ok_def account_ok_def order_ok_def timeline_def goto_def
      wire_seqs_def seq_of_def[abs_def])
qed

lemma issued_word: "N < 2 ^ 64 \<Longrightarrow> unat (word_of_nat N :: u64) = N"
  by (simp add: unat_of_nat)

lemma sequence_next:
  assumes "tm_sequence t = word_of_nat (tm_issued t)" and "Suc (tm_issued t) < 2 ^ 64"
  shows "unat (tm_sequence t + 1) = Suc (tm_issued t)"
proof -
  have "tm_sequence t + 1 = word_of_nat (Suc (tm_issued t))" using assms(1) by simp
  with assms(2) show ?thesis by (simp only: issued_word)
qed


lemma sink_inv_same:
  assumes "sink_inv N h c s" and "sk_free s' = sk_free s" and "sk_pending s' = sk_pending s"
    and "sk_worker s' = sk_worker s" and "sk_nodes s' = sk_nodes s" and "sk_wire s' = sk_wire s"
    and "sk_offered s' = sk_offered s" and "sk_delivered s' = sk_delivered s"
    and "sk_dropped s' = sk_dropped s"
  shows "sink_inv N h c s'"
  using assms by (auto simp: sink_inv_def pool_ok_def account_ok_def intro: order_same_worker[of N c s])

lemma telemetry_inv_on_sink:
  assumes "telemetry_inv t" and "sink_inv (tm_issued t) (hand (tm_lock t) i) (coming (tm_lock t) i)
      (f (tm_sinks t i))"
  shows "telemetry_inv (on_sink i f t)"
  using assms by (auto simp: telemetry_inv_def on_sink_def)

lemma telemetry_inv_initial: "telemetry_inv initial_telemetry"
proof -
  have "mset (sk_free initial_sink) = mset [0..<kQueueCapacity]"
    by (simp add: initial_sink_def sl.entries_push_all)
  then show ?thesis
    by (simp add: telemetry_inv_def initial_telemetry_def sink_inv_def pool_ok_def account_ok_def
        order_ok_def timeline_def wire_seqs_def) (simp add: initial_sink_def)
qed

lemma telemetry_inv_lock:
  assumes "telemetry_inv t" and "tm_lock t = Emitting e (i # js) None"
  shows "i < kSinkCount" and "i \<notin> set js" and "lock_ok (Emitting e js None)"
    and "sink_inv (tm_issued t) [] [unat (ev_sequence e)] (tm_sinks t i)"
    and "\<And>j. j < kSinkCount \<Longrightarrow> j \<noteq> i \<Longrightarrow>
      sink_inv (tm_issued t) [] (coming (Emitting e js None) j) (tm_sinks t j)"
proof -
  from assms have l: "lock_ok (Emitting e (i # js) None)"
    and s: "\<And>j. j < kSinkCount \<Longrightarrow> sink_inv (tm_issued t) [] (coming (Emitting e (i # js) None) j) (tm_sinks t j)"
    by (auto simp: telemetry_inv_def)
  from l show i: "i < kSinkCount" and "i \<notin> set js" and "lock_ok (Emitting e js None)" by auto
  from s[OF i] show "sink_inv (tm_issued t) [] [unat (ev_sequence e)] (tm_sinks t i)" by simp
  fix j assume "j < kSinkCount" "j \<noteq> i"
  with s[of j] show "sink_inv (tm_issued t) [] (coming (Emitting e js None) j) (tm_sinks t j)" by simp
qed

lemma tstep_inv:
  assumes "tstep t t'" and inv: "telemetry_inv t"
  shows "telemetry_inv t'"
  using assms(1)
proof cases
  case (start_thread i)
  have "sink_inv (tm_issued t) (hand (tm_lock t) i) (coming (tm_lock t) i) (tm_sinks t i)"
    using inv start_thread by (simp add: telemetry_inv_def)
  then show ?thesis
    unfolding start_thread(1) by (intro telemetry_inv_on_sink[OF inv] sink_inv_goto) (simp_all add: start_thread)
next
  case (start_running i)
  have "sink_inv (tm_issued t) (hand (tm_lock t) i) (coming (tm_lock t) i) (tm_sinks t i)"
    using inv start_running by (simp add: telemetry_inv_def)
  then show ?thesis
    unfolding start_running(1) by (intro telemetry_inv_on_sink[OF inv]) (rule sink_inv_same, simp_all)
next
  case (worker i env)
  have "sink_inv (tm_issued t) (hand (tm_lock t) i) (coming (tm_lock t) i) (tm_sinks t i)"
    using inv worker by (simp add: telemetry_inv_def)
  then show ?thesis
    unfolding worker(1) by (intro telemetry_inv_on_sink[OF inv] sink_inv_worker)
next
  case (notice_defer i r d c)
  have "sink_inv (tm_issued t) (hand (tm_lock t) i) (coming (tm_lock t) i) (tm_sinks t i)"
    using inv notice_defer by (simp add: telemetry_inv_def)
  then show ?thesis
    unfolding notice_defer(1) by (intro telemetry_inv_on_sink[OF inv] sink_inv_goto) (simp_all add: notice_defer)
next
  case (notice_commit i r d c)
  let ?q = "tm_sequence t + 1"
  have s: "sink_inv (tm_issued t) [] [] (tm_sinks t j)" if "j < kSinkCount" for j
    using inv notice_commit that by (simp add: telemetry_inv_def)
  have "sink_inv (Suc (tm_issued t)) [] [] (tm_sinks t j)" if "j < kSinkCount" for j
    using s[OF that] by (auto simp: sink_inv_def intro: order_mono)
  moreover have "sink_inv (Suc (tm_issued t)) [] [] (goto (WNotice r d c ?q) (tm_sinks t i))"
  proof -
    have "pool_ok [] (goto (WNotice r d c ?q) (tm_sinks t i))"
      "account_ok [] (goto (WNotice r d c ?q) (tm_sinks t i))"
      using s[OF notice_commit(2)] notice_commit
      by (simp_all add: sink_inv_def pool_ok_def account_ok_def goto_def)
    moreover have "order_ok (Suc (tm_issued t)) [] (goto (WNotice r d c ?q) (tm_sinks t i))"
      if "Suc (tm_issued t) < 2 ^ 64"
      using s[OF notice_commit(2)] notice_commit that inv
      by (intro order_notice sequence_next) (simp_all add: sink_inv_def telemetry_inv_def)
    ultimately show ?thesis by (simp add: sink_inv_def)
  qed
  ultimately show ?thesis
    using inv notice_commit by (simp add: telemetry_inv_def on_sink_def next_sequence_def)
next
  case (emit_begin i "now" e)
  have s: "sink_inv (tm_issued t) [] [] (tm_sinks t j)" if "j < kSinkCount" for j
    using inv emit_begin that by (simp add: telemetry_inv_def)
  have "sink_inv (Suc (tm_issued t)) [] [unat (tm_sequence t + 1)] (tm_sinks t j)"
    if "j < kSinkCount" for j
    using s[OF that] sequence_next[of t] inv
    by (auto simp: sink_inv_def telemetry_inv_def order_coming)
  with emit_begin inv show ?thesis
    by (simp add: telemetry_inv_def next_sequence_def stamp_def lessThan_atLeast0)
next
  case (emit_skip e i js)
  note l = telemetry_inv_lock[OF inv emit_skip(2)]
  from l(4) have "sink_inv (tm_issued t) [] [] (tm_sinks t i)"
    by (auto simp: sink_inv_def intro: order_skip)
  with l(2) l(5) have "sink_inv (tm_issued t) [] (coming (Emitting e js None) j) (tm_sinks t j)"
    if "j < kSinkCount" for j using that by (cases "j = i") auto
  with l(3) inv emit_skip show ?thesis by (simp add: telemetry_inv_def)
next
  case (emit_drop e i js s)
  note l = telemetry_inv_lock[OF inv emit_drop(2)]
  from l(4) emit_drop have "sink_inv (tm_issued t) [] [] s"
    by (auto simp: sink_inv_def intro: order_skip order_pop dest: pool_pop account_pop)
  with l inv emit_drop show ?thesis
    by (auto simp: telemetry_inv_def on_sink_def)
next
  case (emit_pop e i js n s)
  note l = telemetry_inv_lock[OF inv emit_pop(2)]
  from l(4) emit_pop have "sink_inv (tm_issued t) [n] [unat (ev_sequence e)] s"
    by (auto simp: sink_inv_def intro: order_pop dest: pool_pop account_pop)
  with l inv emit_pop show ?thesis
    by (auto simp: telemetry_inv_def on_sink_def)
next
  case (emit_push e i js n)
  have i: "i < kSinkCount" "i \<notin> set js" "distinct js" "set js \<subseteq> {..<kSinkCount}"
    using inv emit_push by (auto simp: telemetry_inv_def)
  have "sink_inv (tm_issued t) [n] [unat (ev_sequence e)] (tm_sinks t i)"
    using inv emit_push i(1) by (auto simp: telemetry_inv_def)
  then have "sink_inv (tm_issued t) [] [] (enqueue_push n e (tm_sinks t i))"
    by (auto simp: sink_inv_def intro: pool_push account_push order_push)
  with i inv emit_push show ?thesis
    by (auto simp: telemetry_inv_def on_sink_def)
next
  case (emit_end e)
  with inv show ?thesis by (simp add: telemetry_inv_def)
qed

lemma reachable_inv: "reachable t \<Longrightarrow> telemetry_inv t"
  by (induction rule: reachable.induct) (auto intro: telemetry_inv_initial tstep_inv)


lemma reachable_order:
  "reachable t \<Longrightarrow> i < kSinkCount \<Longrightarrow> tm_issued t < 2 ^ 64 \<Longrightarrow>
     sorted_wrt (<) (timeline (coming (tm_lock t) i) (tm_sinks t i))"
  using reachable_inv unfolding telemetry_inv_def sink_inv_def order_ok_def by blast

section \<open>A worker whose pipe calls succeed delivers what is pending\<close>

fun worker_steps :: "io \<Rightarrow> nat \<Rightarrow> sink \<Rightarrow> sink" where
  "worker_steps env 0 s = s"
| "worker_steps env (Suc k) s = worker_steps env k (worker_step env s)"

lemma worker_steps_add: "worker_steps env (j + k) s = worker_steps env k (worker_steps env j s)"
  by (induction j arbitrary: s) simp_all

lemma worker_sends:
  assumes "io_ok env" and "sk_worker s = WSend r ns c"
  shows "worker_steps env (length ns) s = s\<lparr>sk_worker := WSend r [] c,
    sk_free := rev ns @ sk_free s, sk_wire := sk_wire s @ map (sk_nodes s) ns,
    sk_delivered := sk_delivered s + length ns\<rparr>"
  using assms
proof (induction ns arbitrary: s)
  case (Cons n ns)
  let ?s = "worker_step env s"
  have s: "?s = s\<lparr>sk_worker := WSend r ns c, sk_free := n # sk_free s,
      sk_wire := sk_wire s @ [sk_nodes s n], sk_delivered := Suc (sk_delivered s)\<rparr>"
    using Cons.prems by (simp add: worker_step_def sink_update_defs)
  with Cons.IH[of ?s] Cons.prems(1) show ?case by simp
qed simp

lemma worker_drains:
  assumes "io_ok env" and "sk_worker s = WLoop r" and "order_ok N c s" and "pool_ok h s"
  shows "worker_steps env (length (sk_pending s) + 2) s = s\<lparr>sk_pending := [],
      sk_worker := WSend r [] (length (sk_pending s)), sk_free := sk_pending s @ sk_free s,
      sk_wire := sk_wire s @ map (sk_nodes s) (rev (sk_pending s)),
      sk_delivered := sk_delivered s + length (sk_pending s)\<rparr>"
proof -
  have "sorted_wrt (<) (rev (map (seq_of s) (sk_pending s)))"
    using assms(2,3) by (simp add: order_ok_def timeline_def sorted_wrt_append)
  then have sorted: "sort_batch (sk_nodes s) (sk_pending s) = rev (sk_pending s)"
    by (intro sort_batch_rev) (simp add: seq_of_def[abs_def])
  have 2: "worker_steps env 2 s = s\<lparr>sk_pending := [],
      sk_worker := WSend r (rev (sk_pending s)) (length (sk_pending s))\<rparr>"
    using assms(2) pool_facts(1)[OF assms(4)] sorted
    by (simp add: numeral_2_eq_2 worker_step_def sink_update_defs)
  let ?s = "worker_steps env 2 s"
  have "worker_steps env (2 + length (sk_pending s)) s = worker_steps env (length (rev (sk_pending s))) ?s"
    by (simp only: worker_steps_add length_rev)
  also have "\<dots> = ?s\<lparr>sk_worker := WSend r [] (length (sk_pending s)),
      sk_free := rev (rev (sk_pending s)) @ sk_free ?s,
      sk_wire := sk_wire ?s @ map (sk_nodes ?s) (rev (sk_pending s)),
      sk_delivered := sk_delivered ?s + length (rev (sk_pending s))\<rparr>"
    by (rule worker_sends[OF assms(1)]) (simp add: 2)
  finally show ?thesis by (simp add: 2 add.commute)
qed

section \<open>A sample run\<close>

definition sample_io :: io where
  "sample_io = \<lparr>io_ok = True, io_hello = empty_event, io_pid = 0, io_now = 0\<rparr>"

lemma on_sink_same:
  "tm_sinks (on_sink i f t) i = f (tm_sinks t i)"
  "tm_issued (on_sink i f t) = tm_issued t"
  "tm_lock (on_sink i f t) = tm_lock t"
  "tm_sequence (on_sink i f t) = tm_sequence t"
  by (simp_all add: on_sink_def)

lemma reachable_worker: "reachable t \<Longrightarrow> reachable (on_sink 0 (worker_step env) t)"
  by (erule reachable.step, rule tstep.worker) (simp add: kSinkCount_def)

lemma sample_connect:
  "\<exists>t. reachable t \<and> tm_lock t = Unlocked \<and> tm_sequence t = 0 \<and> tm_issued t = 0
     \<and> \<not> sk_running (tm_sinks t 1) \<and> tm_sinks t 0 = initial_sink\<lparr>sk_running := True, sk_worker := WLoop 0, sk_wire := [empty_event]\<rparr>"
proof -
  have init: "sk_worker initial_sink = WIdle" by (simp add: initial_sink_def)
  define t1 where "t1 = on_sink 0 (goto WConnect) initial_telemetry"
  have r1: "reachable t1" unfolding t1_def
    by (intro reachable.step[OF reachable.start] tstep.start_thread)
      (simp_all add: initial_telemetry_def init kSinkCount_def)
  define t2 where "t2 = on_sink 0 (sk_running_update (\<lambda>_. True)) t1"
  have r2: "reachable t2" unfolding t2_def
    by (intro reachable.step[OF r1] tstep.start_running)
      (simp_all add: t1_def on_sink_def goto_def kSinkCount_def)
  define t3 where "t3 = on_sink 0 (worker_step sample_io) (on_sink 0 (worker_step sample_io) t2)"
  have "reachable t3" unfolding t3_def by (intro reachable_worker r2)
  moreover have "tm_lock t3 = Unlocked \<and> tm_sequence t3 = 0 \<and> tm_issued t3 = 0
     \<and> \<not> sk_running (tm_sinks t3 1) \<and> tm_sinks t3 0 = initial_sink\<lparr>sk_running := True, sk_worker := WLoop 0, sk_wire := [empty_event]\<rparr>"
    by (simp add: t3_def t2_def t1_def on_sink_def goto_def worker_step_def sample_io_def
        initial_telemetry_def) (simp add: initial_sink_def)
  ultimately show ?thesis by blast
qed

lemma sample_emit:
  "\<exists>t n. reachable t \<and> tm_issued t = 1 \<and> tm_lock t = Unlocked \<and> tm_sequence t = 1
     \<and> sk_dropped (tm_sinks t 0) = 0 \<and> sk_worker (tm_sinks t 0) = WLoop 0
     \<and> sk_wire (tm_sinks t 0) = [empty_event] \<and> sk_pending (tm_sinks t 0) = [n]
     \<and> sk_nodes (tm_sinks t 0) n = stamp 1 0 empty_event"
proof -
  let ?e = "stamp 1 0 empty_event"
  obtain t where t: "reachable t" "tm_lock t = Unlocked" "tm_sequence t = 0" "tm_issued t = 0"
    and t0: "tm_sinks t 0 = initial_sink\<lparr>sk_running := True, sk_worker := WLoop 0, sk_wire := [empty_event]\<rparr>"
    and t1: "\<not> sk_running (tm_sinks t 1)"
    using sample_connect by blast
  obtain n fr where free: "sk_free initial_sink = n # fr"
    by (cases "sk_free initial_sink") (simp_all add: initial_sink_def push_all_rev kQueueCapacity_def)
  define t4 where "t4 = (next_sequence t)\<lparr>tm_lock := Emitting (stamp (tm_sequence t + 1) 0 empty_event) [0..<kSinkCount] None\<rparr>"
  have r4: "reachable t4" unfolding t4_def
    by (intro reachable.step[OF t(1)] tstep.emit_begin[where i = 0]) (simp_all add: t t0 kSinkCount_def)
  have t4: "tm_lock t4 = Emitting ?e [0, 1] None" "tm_issued t4 = 1" "tm_sinks t4 0 = tm_sinks t 0"
    by (simp_all add: t4_def t next_sequence_def kSinkCount_def numeral_2_eq_2)
  define s4 where "s4 = (tm_sinks t4 0)\<lparr>sk_free := fr, sk_offered := Suc (sk_offered (tm_sinks t4 0))\<rparr>"
  have pop: "enqueue_pop (tm_sinks t4 0) = (Some n, s4)"
    by (simp add: s4_def t4 t0 free enqueue_pop_def)
  define t5 where "t5 = (on_sink 0 (\<lambda>_. s4) t4)\<lparr>tm_lock := Emitting ?e [0, 1] (Some n)\<rparr>"
  have r5: "reachable t5" unfolding t5_def
    by (intro reachable.step[OF r4] tstep.emit_pop t4 pop) (simp add: t4 t0)
  define t6 where "t6 = (on_sink 0 (enqueue_push n ?e) t5)\<lparr>tm_lock := Emitting ?e [1] None\<rparr>"
  have r6: "reachable t6" unfolding t6_def
    by (intro reachable.step[OF r5] tstep.emit_push) (simp add: t5_def)
  have t6: "tm_issued t6 = 1" "tm_sequence t6 = 1" "\<not> sk_running (tm_sinks t6 1)"
    using t4(2) t t1
    by (simp_all add: t6_def t5_def t4_def on_sink_def next_sequence_def del: One_nat_def)
  have lock6: "tm_lock t6 = Emitting ?e [1] None" by (simp add: t6_def)
  have s6: "sk_worker (tm_sinks t6 0) = WLoop 0" "sk_wire (tm_sinks t6 0) = [empty_event]"
    "sk_pending (tm_sinks t6 0) = [n]" "sk_nodes (tm_sinks t6 0) n = ?e"
    "sk_dropped (tm_sinks t6 0) = 0"
    using t4 by (simp_all add: t6_def t5_def s4_def t0 on_sink_def enqueue_push_def slist_push_def
        initial_sink_def)
  have "reachable (t6\<lparr>tm_lock := Emitting ?e [] None\<rparr>)"
    by (rule reachable.step[OF r6 tstep.emit_skip[where i = 1]]) (simp_all add: t6(3) lock6 del: One_nat_def)
  then have "reachable (t6\<lparr>tm_lock := Emitting ?e [] None, tm_lock := Unlocked\<rparr>)"
    by (rule reachable.step[OF _ tstep.emit_end]) simp
  then show ?thesis
    by (intro exI[of _ "t6\<lparr>tm_lock := Unlocked\<rparr>"] exI[of _ n]) (simp add: t6 s6)
qed

lemma sample_deliver:
  assumes "sk_worker s = WLoop 0" "sk_pending s = [n]" "sk_nodes s n = e" "sk_wire s = [h]"
  shows "worker_step sample_io (worker_step sample_io (worker_step sample_io s)) =
    s\<lparr>sk_pending := [], sk_worker := WSend 0 [] 1, sk_free := n # sk_free s, sk_wire := [h, e],
      sk_delivered := Suc (sk_delivered s)\<rparr>"
proof -
  obtain k where k: "kQueueCapacity = Suc k" by (metis kQueueCapacity_def numeral_eq_Suc)
  have 1: "worker_step sample_io s = s\<lparr>sk_pending := [], sk_worker := WOverflow 0 [n] []\<rparr>"
    using assms k by (simp add: worker_step_def sink_update_defs)
  have 2: "worker_step sample_io (s\<lparr>sk_pending := [], sk_worker := WOverflow 0 [n] []\<rparr>) =
      s\<lparr>sk_pending := [], sk_worker := WSend 0 [n] 1\<rparr>"
    by (simp add: worker_step_def sink_update_defs sort_batch_def)
  have 3: "worker_step sample_io (s\<lparr>sk_pending := [], sk_worker := WSend 0 [n] 1\<rparr>) =
      s\<lparr>sk_pending := [], sk_worker := WSend 0 [] 1, sk_free := n # sk_free s, sk_wire := [h, e],
        sk_delivered := Suc (sk_delivered s)\<rparr>"
    using assms by (simp add: worker_step_def sink_update_defs sample_io_def)
  show ?thesis unfolding 1 2 3 ..
qed

lemma sample_run:
  "\<exists>t. reachable t \<and> tm_issued t = 1 \<and> sk_worker (tm_sinks t 0) = WSend 0 [] 1
     \<and> map ev_sequence (sk_wire (tm_sinks t 0)) = [0, 1]"
proof -
  obtain t n where t: "reachable t" "tm_issued t = 1" "sk_worker (tm_sinks t 0) = WLoop 0"
    "sk_wire (tm_sinks t 0) = [empty_event]" "sk_pending (tm_sinks t 0) = [n]"
    "sk_nodes (tm_sinks t 0) n = stamp 1 0 empty_event"
    using sample_emit by blast
  define t' where "t' = on_sink 0 (worker_step sample_io) (on_sink 0 (worker_step sample_io)
      (on_sink 0 (worker_step sample_io) t))"
  have "reachable t'" unfolding t'_def by (intro reachable_worker t)
  moreover have "tm_issued t' = 1" by (simp only: t'_def on_sink_same t(2))
  moreover have "tm_sinks t' 0 = (tm_sinks t 0)\<lparr>sk_pending := [], sk_worker := WSend 0 [] 1,
      sk_free := n # sk_free (tm_sinks t 0), sk_wire := [empty_event, stamp 1 0 empty_event],
      sk_delivered := Suc (sk_delivered (tm_sinks t 0))\<rparr>"
    by (simp only: t'_def on_sink_same sample_deliver[OF t(3,5,6,4)])
  then have "sk_worker (tm_sinks t' 0) = WSend 0 [] 1"
    "sk_wire (tm_sinks t' 0) = [empty_event, stamp 1 0 empty_event]" by simp_all
  moreover have "ev_sequence empty_event = 0" "ev_sequence (stamp 1 0 empty_event) = 1"
    by (simp_all add: empty_event_def stamp_def)
  ultimately show ?thesis by (intro exI[of _ t']) simp
qed


lemma reachable_workers:
  "reachable t \<Longrightarrow> reachable (on_sink 0 (fold worker_step envs) t)"
proof (induction envs arbitrary: t)
  case Nil
  then show ?case by (simp add: on_sink_def)
next
  case (Cons env envs)
  have "on_sink 0 (fold worker_step (env # envs)) t =
      on_sink 0 (fold worker_step envs) (on_sink 0 (worker_step env) t)"
    by (simp add: on_sink_def)
  with Cons.IH[OF reachable_worker[OF Cons.prems, of env]] show ?case by (simp only:)
qed

definition failing_io :: io where
  "failing_io = sample_io\<lparr>io_ok := False\<rparr>"

lemma sample_lose:
  assumes "sk_worker s = WLoop 0" "sk_pending s = [n]" "sk_dropped s = 0"
  shows "fold worker_step [sample_io, sample_io, failing_io, sample_io, sample_io, sample_io,
      sample_io, sample_io, sample_io, sample_io] s =
    s\<lparr>sk_pending := [], sk_worker := WLock 0 1 0, sk_free := n # sk_free s, sk_wire := [empty_event],
      sk_dropped := 1\<rparr>"
proof -
  obtain k where k: "kQueueCapacity = Suc k" by (metis kQueueCapacity_def numeral_eq_Suc)
  let ?s = "s\<lparr>sk_pending := [], sk_free := n # sk_free s, sk_dropped := 1\<rparr>"
  note unf = worker_step_def sink_update_defs sort_batch_def failing_io_def sample_io_def
  have "fold worker_step [sample_io, sample_io, failing_io] s = ?s\<lparr>sk_worker := WFail []\<rparr>"
  proof -
    have "worker_step sample_io s = s\<lparr>sk_pending := [], sk_worker := WOverflow 0 [n] []\<rparr>"
      using assms k by (simp add: unf)
    moreover have "worker_step sample_io (s\<lparr>sk_pending := [], sk_worker := WOverflow 0 [n] []\<rparr>)
        = s\<lparr>sk_pending := [], sk_worker := WSend 0 [n] 1\<rparr>" by (simp add: unf)
    moreover have "worker_step failing_io (s\<lparr>sk_pending := [], sk_worker := WSend 0 [n] 1\<rparr>)
        = ?s\<lparr>sk_worker := WFail []\<rparr>" using assms by (simp add: unf)
    ultimately show ?thesis by simp
  qed
  moreover have "fold worker_step [sample_io, sample_io, sample_io] (?s\<lparr>sk_worker := WFail []\<rparr>)
      = ?s\<lparr>sk_worker := WLoop 0, sk_wire := [empty_event]\<rparr>" by (simp add: unf)
  moreover have "fold worker_step [sample_io, sample_io] (?s\<lparr>sk_worker := WLoop 0, sk_wire := [empty_event]\<rparr>)
      = ?s\<lparr>sk_worker := WSend 0 [] 0, sk_wire := [empty_event]\<rparr>" by (simp add: unf)
  moreover have "fold worker_step [sample_io, sample_io] (?s\<lparr>sk_worker := WSend 0 [] 0, sk_wire := [empty_event]\<rparr>)
      = ?s\<lparr>sk_worker := WLock 0 1 0, sk_wire := [empty_event]\<rparr>" by (simp add: unf)
  ultimately show ?thesis by simp
qed

section \<open>The properties\<close>

text \<open>C6: no node is ever lost or in two places: at every moment the free list, the pending list,
  the worker and the producer hold each of the 1024 nodes of a sink exactly once.\<close>

theorem nodes_are_conserved:
  assumes "reachable t" and "i < kSinkCount"
  shows "mset (sk_free (tm_sinks t i) @ sk_pending (tm_sinks t i)
      @ worker_nodes (sk_worker (tm_sinks t i)) @ hand (tm_lock t) i) = mset [0..<kQueueCapacity]"
  using reachable_inv[OF assms(1)] assms(2)
  by (simp add: telemetry_inv_def sink_inv_def pool_ok_def ac_simps)

theorem nodes_are_conserved_witness:
  "\<exists>t :: telemetry. sk_worker (tm_sinks t 0) = WSend 0 [] 1 \<and>
     mset (sk_free (tm_sinks t 0) @ sk_pending (tm_sinks t 0)
      @ worker_nodes (sk_worker (tm_sinks t 0)) @ hand (tm_lock t) 0) = mset [0..<kQueueCapacity]"
proof -
  obtain t where t: "reachable t" "sk_worker (tm_sinks t 0) = WSend 0 [] 1" using sample_run by blast
  have "0 < kSinkCount" by (simp add: kSinkCount_def)
  from nodes_are_conserved[OF t(1) this] t(2) show ?thesis by (intro exI[of _ t] conjI)
qed

text \<open>While fewer than \<open>2 ^ 64\<close> numbers have been issued, the frames after the hello of a
  connection carry strictly increasing sequence numbers, whatever the interleaving of producers,
  the other sink and pipe failures.\<close>

theorem frames_leave_in_sequence_order:
  assumes "reachable t" and "i < kSinkCount" and "tm_issued t < 2 ^ 64"
  shows "sorted_wrt (<) (map ev_sequence (tl (sk_wire (tm_sinks t i))))"
proof -
  have "sorted_wrt (<) (wire_seqs (tm_sinks t i))"
    using reachable_order[OF assms] by (simp add: timeline_def sorted_wrt_append)
  then show ?thesis by (simp only: wire_seqs_def sorted_wrt_map word_less_nat_alt)
qed

theorem frames_leave_in_sequence_order_witness:
  "\<exists>t :: telemetry. map ev_sequence (sk_wire (tm_sinks t 0)) = [0, 1] \<and>
     sorted_wrt (<) (map ev_sequence (tl (sk_wire (tm_sinks t 0))))"
proof -
  obtain t where t: "reachable t" "tm_issued t = 1" "map ev_sequence (sk_wire (tm_sinks t 0)) = [0, 1]"
    using sample_run by (elim exE conjE)
  have "0 < kSinkCount" by (simp add: kSinkCount_def)
  moreover have "tm_issued t < 2 ^ 64" unfolding t(2) by simp
  ultimately have "sorted_wrt (<) (map ev_sequence (tl (sk_wire (tm_sinks t 0))))"
    by (rule frames_leave_in_sequence_order[OF t(1)])
  with t(3) show ?thesis by (intro exI[of _ t] conjI)
qed

text \<open>C7: no loss goes unreported.  Every event offered to a sink has been delivered, has been
  added to the drop counter, or is still pending or in a thread's hands.  The equation is of 64 bit
  words, like the counter, so it needs no bound.\<close>

theorem every_event_is_accounted_for:
  assumes "reachable t" and "i < kSinkCount"
  shows "word_of_nat (sk_offered (tm_sinks t i)) = word_of_nat (sk_delivered (tm_sinks t i))
    + sk_dropped (tm_sinks t i) + word_of_nat (length (sk_pending (tm_sinks t i))
    + length (worker_nodes (sk_worker (tm_sinks t i))) + length (hand (tm_lock t) i))"
  using reachable_inv[OF assms(1)] assms(2) by (simp add: telemetry_inv_def sink_inv_def account_ok_def)

theorem every_event_is_accounted_for_witness:
  "\<exists>t :: telemetry. sk_worker (tm_sinks t 0) = WSend 0 [] 1 \<and>
     word_of_nat (sk_offered (tm_sinks t 0)) = word_of_nat (sk_delivered (tm_sinks t 0))
      + sk_dropped (tm_sinks t 0) + word_of_nat (length (sk_pending (tm_sinks t 0))
      + length (worker_nodes (sk_worker (tm_sinks t 0))) + length (hand (tm_lock t) 0))"
proof -
  obtain t where t: "reachable t" "sk_worker (tm_sinks t 0) = WSend 0 [] 1" using sample_run by blast
  have "0 < kSinkCount" by (simp add: kSinkCount_def)
  from every_event_is_accounted_for[OF t(1) this] t(2) show ?thesis by (intro exI[of _ t] conjI)
qed

text \<open>C8: a drop notice overtakes nothing.  While the worker is about to send one, every frame
  already on the pipe has a smaller number, and every event still pending or being queued for the
  sink has a larger one.\<close>

theorem drop_notice_does_not_overtake:
  assumes "reachable t" and "i < kSinkCount" and "tm_issued t < 2 ^ 64"
    and "sk_worker (tm_sinks t i) = WNotice r d c q"
  shows "(\<forall>e \<in> set (tl (sk_wire (tm_sinks t i))). ev_sequence e < q)
    \<and> (\<forall>n \<in> set (sk_pending (tm_sinks t i)). q < ev_sequence (sk_nodes (tm_sinks t i) n))
    \<and> (\<forall>e js h. tm_lock t = Emitting e js h \<longrightarrow> i \<in> set js \<longrightarrow> q < ev_sequence e)"
proof -
  let ?s = "tm_sinks t i"
  have "sorted_wrt (<) (wire_seqs ?s @ [unat q] @ rev (map (seq_of ?s) (sk_pending ?s))
      @ coming (tm_lock t) i)"
    using reachable_order[OF assms(1-3)] assms(4) by (simp add: timeline_def)
  then show ?thesis
    by (auto simp: sorted_wrt_append wire_seqs_def seq_of_def word_less_nat_alt)
qed

theorem drop_notice_does_not_overtake_witness:
  "\<exists>t :: telemetry. sk_worker (tm_sinks t 0) = WNotice 0 1 0 2 \<and>
     (\<forall>e \<in> set (tl (sk_wire (tm_sinks t 0))). ev_sequence e < 2)"
proof -
  obtain t n where t: "reachable t" "tm_issued t = 1" "sk_worker (tm_sinks t 0) = WLoop 0"
    "sk_pending (tm_sinks t 0) = [n]" "sk_dropped (tm_sinks t 0) = 0" "tm_sequence t = 1"
    "tm_lock t = Unlocked"
    using sample_emit by blast
  define t1 where "t1 = on_sink 0 (fold worker_step [sample_io, sample_io, failing_io, sample_io,
      sample_io, sample_io, sample_io, sample_io, sample_io, sample_io]) t"
  have r1: "reachable t1" unfolding t1_def by (rule reachable_workers[OF t(1)])
  have t1: "tm_lock t1 = Unlocked" "tm_sequence t1 = 1" "tm_issued t1 = 1"
    by (simp_all only: t1_def on_sink_same t)
  have "tm_sinks t1 0 = (tm_sinks t 0)\<lparr>sk_pending := [], sk_worker := WLock 0 1 0,
      sk_free := n # sk_free (tm_sinks t 0), sk_wire := [empty_event], sk_dropped := 1\<rparr>"
    by (simp only: t1_def on_sink_same sample_lose[OF t(3,4,5)])
  then have s1: "sk_worker (tm_sinks t1 0) = WLock 0 1 0" "sk_pending (tm_sinks t1 0) = []" by simp_all
  define t2 where "t2 = on_sink 0 (goto (WNotice 0 1 0 (tm_sequence t1 + 1))) (next_sequence t1)"
  have r2: "reachable t2" unfolding t2_def
    by (rule reachable.step[OF r1], rule tstep.notice_commit) (simp_all add: kSinkCount_def t1 s1)
  have w2: "sk_worker (tm_sinks t2 0) = WNotice 0 1 0 2"
    by (simp add: t2_def on_sink_def goto_def t1)
  have "0 < kSinkCount" "tm_issued t2 < 2 ^ 64"
    by (simp_all add: kSinkCount_def t2_def on_sink_def next_sequence_def t1)
  note facts = drop_notice_does_not_overtake[OF r2 this w2]
  from w2 facts[THEN conjunct1] show ?thesis by (intro exI[of _ t2] conjI)
qed

text \<open>C9: a worker at the head of its loop whose pipe calls succeed delivers, within two steps more
  than there are pending events, exactly these events, oldest first, and frees their nodes.\<close>

theorem pending_events_are_delivered:
  assumes "reachable t" and "i < kSinkCount" and "tm_issued t < 2 ^ 64" and "io_ok env"
    and "sk_worker (tm_sinks t i) = WLoop r" and "s = tm_sinks t i"
    and "s' = worker_steps env (length (sk_pending s) + 2) s"
  shows "sk_wire s' = sk_wire s @ map (sk_nodes s) (rev (sk_pending s)) \<and> sk_pending s' = []
    \<and> sk_free s' = sk_pending s @ sk_free s \<and> sk_dropped s' = sk_dropped s"
proof -
  have "order_ok (tm_issued t) (coming (tm_lock t) i) s" "pool_ok (hand (tm_lock t) i) s"
    using reachable_inv[OF assms(1)] assms(2,3,6) by (simp_all add: telemetry_inv_def sink_inv_def)
  from worker_drains[OF assms(4) _ this] assms(5,6,7) show ?thesis by simp
qed

theorem pending_events_are_delivered_witness:
  "\<exists>(s :: sink) e. sk_pending s \<noteq> [] \<and> sk_wire (worker_steps sample_io (length (sk_pending s) + 2) s) = sk_wire s @ [e]"
proof -
  obtain t n where t: "reachable t" "tm_issued t = 1" "sk_worker (tm_sinks t 0) = WLoop 0"
    "sk_pending (tm_sinks t 0) = [n]"
    using sample_emit by blast
  have "0 < kSinkCount" "tm_issued t < 2 ^ 64" "io_ok sample_io"
    by (simp_all add: kSinkCount_def t(2) sample_io_def)
  from pending_events_are_delivered[OF t(1) this t(3) refl refl] t(4)
  show ?thesis by (intro exI[of _ "tm_sinks t 0"]) auto
qed

end
