(* ===== verification/Telemetry_Io.thy ===== *)
theory Telemetry_Io imports Telemetry_Invariants Viewer_Decode begin

text \<open>
  The sequential parts of \<open>src/telemetry.cpp\<close>: writing one frame to a pipe (\<open>send_frame\<close>), the
  hello event with the name of the host program (\<open>hello_event\<close>, \<open>utf8_basename\<close>), \<open>start\<close>,
  \<open>emit\<close> as a whole, and the draining functions of the benchmark.  \<open>start\<close> and \<open>emit\<close> are proved
  to be runs of the interleaved model.  \<open>WriteFile\<close> and \<open>WideCharToMultiByte\<close> are arguments.
\<close>

section \<open>send_frame\<close>

text \<open>\<open>wr k data\<close> is the outcome of call \<open>k\<close> of \<open>WriteFile\<close>: \<open>None\<close> when it fails, otherwise the
  number of bytes it reports as written.  The result is what went to the pipe and the answer.\<close>

function send_loop :: "(nat \<Rightarrow> byte list \<Rightarrow> nat option) \<Rightarrow> nat \<Rightarrow> byte list \<Rightarrow> nat \<Rightarrow> byte list \<times> bool" where
  "send_loop wr k frame offset =
     (if offset < length frame then
        (case wr k (drop offset frame) of
           None \<Rightarrow> ([], False)
         | Some written \<Rightarrow>
             if written = 0 then ([], False)
             else (case send_loop wr (Suc k) frame (offset + written) of
                     (sent, ok) \<Rightarrow> (take written (drop offset frame) @ sent, ok)))
      else ([], True))"
  by pat_completeness auto
termination by (relation "measure (\<lambda>(wr, k, frame, offset). length frame - offset)") auto

declare send_loop.simps [simp del]

text \<open>\<open>allocated\<close>: whether building the frame succeeded; an exception is answered by \<open>false\<close>.\<close>

definition send_frame :: "(nat \<Rightarrow> byte list \<Rightarrow> nat option) \<Rightarrow> bool \<Rightarrow> Event \<Rightarrow> byte list \<times> bool" where
  "send_frame wr allocated e =
     (if \<not> allocated then ([], False)
      else
        let frame = serialize_event e in
        if length frame > kMaxFrameSize then ([], False) else send_loop wr 0 frame 0)"

text \<open>What \<open>WriteFile\<close> documents: it never reports more bytes than it was given.\<close>

definition write_reports_at_most :: "(nat \<Rightarrow> byte list \<Rightarrow> nat option) \<Rightarrow> bool" where
  "write_reports_at_most wr \<longleftrightarrow> (\<forall>k d n. wr k d = Some n \<longrightarrow> n \<le> length d)"

lemma send_loop_spec:
  assumes "write_reports_at_most wr" and "offset \<le> length frame"
    and "send_loop wr k frame offset = (sent, ok)"
  shows "\<exists>n. sent = take n (drop offset frame) \<and> n \<le> length frame - offset
    \<and> (ok \<longleftrightarrow> n = length frame - offset)"
  using assms
proof (induction wr k frame offset arbitrary: sent rule: send_loop.induct)
  case (1 wr k frame offset)
  show ?case
  proof (cases "offset < length frame")
    case False
    with "1.prems"(3) send_loop.simps[of wr k frame offset] have "sent = []" "ok" by simp_all
    with "1.prems"(2) False show ?thesis by auto
  next
    case lt: True
    show ?thesis
    proof (cases "wr k (drop offset frame)")
      case None
      with lt "1.prems"(3) show ?thesis
        by (auto simp: send_loop.simps[of _ _ _ offset] intro!: exI[of _ 0])
    next
      case (Some w)
      with "1.prems"(1) have w: "offset + w \<le> length frame"
        unfolding write_reports_at_most_def using lt by force
      show ?thesis
      proof (cases "w = 0")
        case True
        with lt Some "1.prems"(3) show ?thesis
          by (auto simp: send_loop.simps[of _ _ _ offset] intro!: exI[of _ 0])
      next
        case False
        obtain sent' where rec: "send_loop wr (Suc k) frame (offset + w) = (sent', ok)"
          and sent: "sent = take w (drop offset frame) @ sent'"
          using lt Some False "1.prems"(3)
          by (auto simp: send_loop.simps[of _ _ _ offset] split: prod.splits)
        from "1.IH"[OF lt Some False "1.prems"(1) w rec] obtain n where
          n: "sent' = take n (drop (offset + w) frame)" "n \<le> length frame - (offset + w)"
            "ok \<longleftrightarrow> n = length frame - (offset + w)" by blast
        have "sent = take (w + n) (drop offset frame)"
          using sent n(1) unfolding take_add by (simp add: add.commute)
        with n w show ?thesis by (intro exI[of _ "w + n"]) auto
      qed
    qed
  qed
qed

section \<open>The host program's name\<close>

definition MAX_PATH :: nat where "MAX_PATH = 260"

text \<open>\<open>GetModuleFileNameW\<close> copies at most \<open>MAX_PATH\<close> code units; with the guard for older systems,
  the scan sees the first 259 of a longer path.\<close>

definition module_path :: "wstring \<Rightarrow> wstring" where
  "module_path full = take (MAX_PATH - 1) full"

definition is_separator :: "wchar \<Rightarrow> bool" where
  "is_separator c \<longleftrightarrow> c = 0x5C \<or> c = 0x2F"

text \<open>The loop moves \<open>base\<close> behind every separator it meets.\<close>

fun scan_base :: "wstring \<Rightarrow> wstring \<Rightarrow> wstring" where
  "scan_base base [] = base"
| "scan_base base (c # cs) = scan_base (if is_separator c then cs else base) cs"

definition utf8_basename :: "(wstring \<Rightarrow> byte list) \<Rightarrow> wstring \<Rightarrow> byte list \<Rightarrow> byte list" where
  "utf8_basename to_utf8 full out =
     (let path = module_path full;
          converted = to_utf8 (scan_base path path)
      in if length out = 0 then out
         else if converted = [] \<or> MAX_PATH * 4 < length converted then out[0 := 0]
         else (case copy_utf8_truncated (Some out) (length out) (Some converted) (length converted) of
                 (Some r, _) \<Rightarrow> r | (None, _) \<Rightarrow> out))"

text \<open>\<open>snprintf (buf, sizeof buf, "%s", s)\<close>.\<close>

definition snprintf_s :: "byte list \<Rightarrow> byte list \<Rightarrow> byte list" where
  "snprintf_s buf s =
     (let t = take (length buf - 1) (takeWhile (\<lambda>b. b \<noteq> 0) s) in t @ 0 # drop (Suc (length t)) buf)"

definition hello_event :: "(wstring \<Rightarrow> byte list) \<Rightarrow> arch \<Rightarrow> u32 \<Rightarrow> u32 \<Rightarrow> byte list \<Rightarrow> byte list \<Rightarrow> wstring
    \<Rightarrow> Event" where
  "hello_event to_utf8 a pid freq version session full =
     empty_event\<lparr>ev_type := Hello, ev_process_id := pid, ev_qpc_frequency := freq,
       ev_build_version := snprintf_s (ev_build_version empty_event) version,
       ev_session_id := snprintf_s (ev_session_id empty_event) session,
       ev_flags := (case a of X64 \<Rightarrow> 64 | X86 \<Rightarrow> 32),
       ev_text := utf8_basename to_utf8 full (ev_text empty_event)\<rparr>"

lemma snprintf_length: "0 < length buf \<Longrightarrow> length (snprintf_s buf s) = length buf"
  by (cases buf) (auto simp: snprintf_s_def Let_def min_def)

lemma utf8_basename_length: "length (utf8_basename f full out) = length out"
proof (cases "out = []")
  case True
  then show ?thesis by (simp add: utf8_basename_def Let_def)
next
  case False
  have "\<exists>r n. copy_utf8_truncated (Some out) (length out) (Some t) (length t) = (Some r, n)
      \<and> length r = length out" for t
  proof -
    define k where "k = (if length t \<le> length out - 1 then length t
      else drop_partial_code_point t (length out - 1))"
    from False have "0 < length out" by simp
    from copy_utf8_truncated_eq[OF refl this refl, of t, folded k_def]
    have eq: "copy_utf8_truncated (Some out) (length out) (Some t) (length t)
        = (Some (take k t @ 0 # drop (Suc k) out), k)" and "k < length out" "k \<le> length t" by simp_all
    then have "length (take k t @ 0 # drop (Suc k) out) = length out" by simp
    with eq show ?thesis by blast
  qed
  then obtain r n where "copy_utf8_truncated (Some out) (length out)
      (Some (f (scan_base (module_path full) (module_path full))))
      (length (f (scan_base (module_path full) (module_path full)))) = (Some r, n)" "length r = length out"
    by blast
  then show ?thesis by (simp add: utf8_basename_def Let_def)
qed

lemma hello_event_bounded: "event_bounded (hello_event f a pid freq v s full)"
proof -
  have l: "length (ev_build_version empty_event) = 32" "length (ev_session_id empty_event) = 32"
    "length (ev_text empty_event) = 64" by (simp_all add: empty_event_def)
  have "event_bounded empty_event" by (rule empty_event_bounded)
  with l show ?thesis
    by (simp add: hello_event_def event_bounded_def event_wf_def snprintf_length utf8_basename_length)
qed

lemma scan_base_suffix: "\<exists>pre. path = pre @ scan_base base cs" if "\<exists>pre. path = pre @ base" "\<exists>pre. path = pre @ cs"
  using that
proof (induction cs arbitrary: base)
  case (Cons c cs)
  from Cons.prems(2) obtain pre where p: "path = pre @ c # cs" by blast
  then have "path = (pre @ [c]) @ cs" by simp
  then have "\<exists>pre. path = pre @ cs" by blast
  with Cons show ?case by simp
qed simp

lemma scan_base_no_separator:
  "(\<exists>x. base = x @ cs \<and> (\<forall>c \<in> set x. \<not> is_separator c)) \<Longrightarrow> \<forall>c \<in> set (scan_base base cs). \<not> is_separator c"
proof (induction cs arbitrary: base)
  case (Cons c cs)
  from Cons.prems obtain x where x: "base = x @ c # cs" "\<forall>c \<in> set x. \<not> is_separator c" by blast
  show ?case
  proof (cases "is_separator c")
    case True
    with Cons.IH[of cs] show ?thesis by simp
  next
    case False
    with x have "base = (x @ [c]) @ cs \<and> (\<forall>c \<in> set (x @ [c]). \<not> is_separator c)" by simp
    with Cons.IH[of base] False show ?thesis by (simp only: scan_base.simps if_False) blast
  qed
qed auto

section \<open>start and emit as runs\<close>

definition sink_running :: "telemetry \<Rightarrow> nat \<Rightarrow> bool" where
  "sink_running t i = sk_running (tm_sinks t i)"

definition any_running :: "telemetry \<Rightarrow> bool" where
  "any_running t \<longleftrightarrow> list_ex (sink_running t) [0..<kSinkCount]"

definition all_running :: "telemetry \<Rightarrow> bool" where
  "all_running t \<longleftrightarrow> list_all (sink_running t) [0..<kSinkCount]"

text \<open>\<open>event_ok i\<close> and \<open>thread_ok i\<close>: whether \<open>CreateEventW\<close> and \<open>CreateThread\<close> succeed for sink \<open>i\<close>.\<close>

definition start_sink :: "(nat \<Rightarrow> bool) \<Rightarrow> (nat \<Rightarrow> bool) \<Rightarrow> nat \<Rightarrow> telemetry \<Rightarrow> telemetry" where
  "start_sink event_ok thread_ok i t =
     (if sink_running t i \<or> \<not> event_ok i \<or> \<not> thread_ok i then t
      else on_sink i (sk_running_update (\<lambda>_. True)) (on_sink i (goto WConnect) t))"

definition telemetry_start :: "bool \<Rightarrow> bool \<Rightarrow> (nat \<Rightarrow> bool) \<Rightarrow> (nat \<Rightarrow> bool) \<Rightarrow> telemetry \<Rightarrow> telemetry" where
  "telemetry_start starting pinned event_ok thread_ok t =
     (if all_running t \<or> starting \<or> \<not> pinned then t
      else fold (start_sink event_ok thread_ok) [0..<kSinkCount] t)"

definition emit_to :: "Event \<Rightarrow> nat \<Rightarrow> telemetry \<Rightarrow> telemetry" where
  "emit_to e i t = (if sink_running t i then on_sink i (enqueue e) t else t)"

definition emit :: "u64 \<Rightarrow> Event \<Rightarrow> telemetry \<Rightarrow> telemetry" where
  "emit now e t =
     (if \<not> any_running t then t
      else fold (emit_to (stamp (tm_sequence t + 1) now e)) [0..<kSinkCount] (next_sequence t))"

lemma locked_on_sink:
  "(on_sink i f t)\<lparr>tm_lock := l\<rparr> = on_sink i f (t\<lparr>tm_lock := l\<rparr>)"
  by (simp add: on_sink_def)

lemma emit_to_run:
  "tstep\<^sup>*\<^sup>* (t\<lparr>tm_lock := Emitting e (i # js) None\<rparr>) ((emit_to e i t)\<lparr>tm_lock := Emitting e js None\<rparr>)"
proof (cases "sink_running t i")
  case False
  then show ?thesis
    using tstep.emit_skip[where t = "t\<lparr>tm_lock := Emitting e (i # js) None\<rparr>" and e = e and i = i and js = js]
    by (simp add: emit_to_def sink_running_def r_into_rtranclp)
next
  case True
  let ?t = "t\<lparr>tm_lock := Emitting e (i # js) None\<rparr>"
  obtain r s where pop: "enqueue_pop (tm_sinks t i) = (r, s)" by fastforce
  show ?thesis
  proof (cases r)
    case None
    with tstep.emit_drop[where t = ?t and e = e and i = i and js = js and s = s] pop True
    have "tstep ?t ((on_sink i (\<lambda>_. s) ?t)\<lparr>tm_lock := Emitting e js None\<rparr>)"
      by (simp add: sink_running_def)
    moreover have "on_sink i (\<lambda>_. s) t = emit_to e i t"
      using pop None True by (simp add: emit_to_def on_sink_def enqueue_def)
    ultimately show ?thesis by (simp add: on_sink_def r_into_rtranclp)
  next
    case (Some n)
    let ?t2 = "(on_sink i (\<lambda>_. s) ?t)\<lparr>tm_lock := Emitting e (i # js) (Some n)\<rparr>"
    have "tstep ?t ?t2"
      using tstep.emit_pop[where t = ?t and e = e and i = i and js = js and n = n and s = s] pop Some True by (simp add: sink_running_def)
    moreover have "tstep ?t2 ((on_sink i (enqueue_push n e) ?t2)\<lparr>tm_lock := Emitting e js None\<rparr>)"
      by (rule tstep.emit_push) simp
    moreover have "(on_sink i (enqueue_push n e) ?t2)\<lparr>tm_lock := Emitting e js None\<rparr>
        = (emit_to e i t)\<lparr>tm_lock := Emitting e js None\<rparr>"
      using pop Some True by (simp add: emit_to_def on_sink_def enqueue_def)
    ultimately show ?thesis by (metis converse_rtranclp_into_rtranclp r_into_rtranclp)
  qed
qed

lemma emit_fold_run:
  "tstep\<^sup>*\<^sup>* (t\<lparr>tm_lock := Emitting e js None\<rparr>) ((fold (emit_to e) js t)\<lparr>tm_lock := Emitting e [] None\<rparr>)"
proof (induction js arbitrary: t)
  case (Cons i js)
  from emit_to_run[where t = t and e = e and i = i and js = js] Cons.IH[where t = "emit_to e i t"] show ?case
    by (simp add: rtranclp_trans)
qed simp

lemma fold_lock: "tm_lock t = l \<Longrightarrow> tm_lock (fold (emit_to e) js t) = l"
  by (induction js arbitrary: t) (simp_all add: emit_to_def on_sink_def)

lemma start_sink_run:
  assumes "i < kSinkCount" and "sk_worker (tm_sinks t i) = WIdle \<or> sink_running t i"
  shows "tstep\<^sup>*\<^sup>* t (start_sink ev th i t)"
proof (cases "sink_running t i \<or> \<not> ev i \<or> \<not> th i")
  case False
  let ?t = "on_sink i (goto WConnect) t"
  from False assms have "tstep t ?t" by (intro tstep.start_thread) auto
  moreover have "tstep ?t (on_sink i (sk_running_update (\<lambda>_. True)) ?t)"
    using assms(1) by (intro tstep.start_running) (simp_all add: on_sink_def goto_def)
  ultimately show ?thesis using False by (auto simp: start_sink_def)
qed (auto simp: start_sink_def)

lemma reachable_run: "tstep\<^sup>*\<^sup>* t t' \<Longrightarrow> reachable t \<Longrightarrow> reachable t'"
  by (induction rule: rtranclp_induct) (auto intro: reachable.step)

section \<open>Draining\<close>

definition drain_sink :: "sink \<Rightarrow> nat \<times> sink" where
  "drain_sink s =
     (case slist_flush (sk_pending s) of (xs, rest) \<Rightarrow>
        (length xs, s\<lparr>sk_pending := rest, sk_free := sl.push_all xs (sk_free s)\<rparr>))"

definition drain_sequences :: "nat \<Rightarrow> sink \<Rightarrow> u64 list \<times> sink" where
  "drain_sequences capacity s =
     (if capacity = 0 then ([], s)
      else case slist_flush (sk_pending s) of (xs, rest) \<Rightarrow>
        let batch = sort_batch (sk_nodes s) (take kQueueCapacity xs) in
        (take capacity (map (\<lambda>n. ev_sequence (sk_nodes s n)) batch),
         s\<lparr>sk_pending := rest,
           sk_free := sl.push_all (drop kQueueCapacity xs) (sl.push_all batch (sk_free s))\<rparr>))"

lemma drain_sink_conserves:
  "mset (sk_free (snd (drain_sink s))) + mset (sk_pending (snd (drain_sink s)))
    = mset (sk_free s) + mset (sk_pending s)"
  by (simp add: drain_sink_def slist_flush_def sl.entries_push_all ac_simps)

lemma drain_sequences_sorted: "sorted (fst (drain_sequences c s))"
  by (auto simp: drain_sequences_def slist_flush_def Let_def sort_batch_def take_map[symmetric]
      intro!: sorted_wrt_take)

section \<open>The properties\<close>

text \<open>\<open>send_frame\<close> always returns, and what it wrote is a prefix of the frame: the whole frame
  exactly when it answers true.  The size guard never rejects an event of the program.\<close>

theorem send_frame_is_complete_or_fails:
  assumes "write_reports_at_most wr" and "event_wf e" and "send_frame wr allocated e = (sent, ok)"
  shows "\<exists>n. sent = take n (serialize_event e) \<and> (ok \<longrightarrow> sent = serialize_event e)
    \<and> (\<not> ok \<longrightarrow> sent \<noteq> serialize_event e)"
proof (cases allocated)
  case True
  with assms(3) serialize_event_bounds[OF assms(2)]
  have "send_loop wr 0 (serialize_event e) 0 = (sent, ok)"
    by (auto simp: send_frame_def Let_def kMaxFrameSize_def split: if_splits)
  from send_loop_spec[OF assms(1) _ this] obtain n where n: "sent = take n (serialize_event e)"
    "n \<le> length (serialize_event e)" "ok \<longleftrightarrow> n = length (serialize_event e)" by auto
  then have "length sent = n" by simp
  with n show ?thesis by auto
next
  case False
  with assms(3) serialize_event_bounds[OF assms(2)] show ?thesis
    by (intro exI[of _ 0]) (auto simp: send_frame_def)
qed

theorem send_frame_is_complete_or_fails_witness:
  "\<exists>n. fst (send_frame (\<lambda>k d. Some (min 100 (length d))) True empty_event)
    = take n (serialize_event empty_event)"
proof -
  have "write_reports_at_most (\<lambda>k d. Some (min 100 (length d)))"
    by (simp add: write_reports_at_most_def)
  moreover have "event_wf empty_event" using empty_event_bounded by (simp add: event_bounded_def)
  ultimately show ?thesis
    using send_frame_is_complete_or_fails[OF _ _ prod.collapse[symmetric]] by blast
qed

text \<open>C10: \<open>emit\<close> on an unlocked engine is a run of the interleaved model, so everything proved of its
  reachable states holds for it; a whole \<open>start\<close> is one too.\<close>

theorem emit_and_start_are_runs:
  assumes "reachable t" and "tm_lock t = Unlocked"
  shows "reachable (emit now e t)
    \<and> ((\<forall>i < kSinkCount. sk_worker (tm_sinks t i) = WIdle \<or> sink_running t i) \<longrightarrow>
        reachable (telemetry_start starting pinned ev th t))"
proof (intro conjI impI)
  show "reachable (emit now e t)"
  proof (cases "any_running t")
    case True
    then obtain i where i: "i < kSinkCount" "sk_running (tm_sinks t i)"
      by (auto simp: any_running_def sink_running_def list_ex_iff)
    let ?e = "stamp (tm_sequence t + 1) now e"
    let ?f = "fold (emit_to ?e) [0..<kSinkCount] (next_sequence t)"
    from tstep.emit_begin[OF assms(2) i]
    have "tstep t ((next_sequence t)\<lparr>tm_lock := Emitting ?e [0..<kSinkCount] None\<rparr>)" .
    also from emit_fold_run have "tstep\<^sup>*\<^sup>* \<dots> (?f\<lparr>tm_lock := Emitting ?e [] None\<rparr>)" .
    also have "tstep \<dots> (?f\<lparr>tm_lock := Unlocked\<rparr>)"
      using tstep.emit_end[where t = "?f\<lparr>tm_lock := Emitting ?e [] None\<rparr>" and e = ?e] by simp
    finally have "reachable (?f\<lparr>tm_lock := Unlocked\<rparr>)"
      using assms(1) by (metis reachable_run tranclp_into_rtranclp)
    moreover have "tm_lock ?f = Unlocked"
      by (rule fold_lock) (simp add: next_sequence_def assms(2))
    then have "?f\<lparr>tm_lock := Unlocked\<rparr> = ?f" by (cases ?f) simp
    ultimately show ?thesis using True by (simp add: emit_def)
  qed (simp add: emit_def assms(1))
next
  assume idle: "\<forall>i < kSinkCount. sk_worker (tm_sinks t i) = WIdle \<or> sink_running t i"
  have "tstep\<^sup>*\<^sup>* u (fold (start_sink ev th) js u)"
    if "\<forall>i \<in> set js. i < kSinkCount \<and> (sk_worker (tm_sinks u i) = WIdle \<or> sink_running u i)" for js u
    using that
  proof (induction js arbitrary: u)
    case (Cons i js)
    let ?u = "start_sink ev th i u"
    have "\<forall>i \<in> set js. i < kSinkCount \<and> (sk_worker (tm_sinks ?u i) = WIdle \<or> sink_running ?u i)"
      using Cons.prems by (auto simp: start_sink_def on_sink_def sink_running_def)
    from Cons.IH[OF this] start_sink_run[of i u ev th] Cons.prems show ?case
      by (auto intro: rtranclp_trans)
  qed simp
  from this[of "[0..<kSinkCount]" t] idle
  have "tstep\<^sup>*\<^sup>* t (telemetry_start starting pinned ev th t)" by (simp add: telemetry_start_def)
  then show "reachable (telemetry_start starting pinned ev th t)" by (rule reachable_run[OF _ assms(1)])
qed

theorem emit_and_start_are_runs_witness:
  "reachable (telemetry_start False True (\<lambda>_. True) (\<lambda>_. True) initial_telemetry)"
  using emit_and_start_are_runs[OF reachable.start, of 0 empty_event False True "\<lambda>_. True" "\<lambda>_. True"]
  by (simp add: initial_telemetry_def initial_sink_def)



end
