(* ===== verification/Com_Registry.thy ===== *)
theory Com_Registry imports FFB_Prelude begin

text \<open>
  Reference counted objects linked into a registry, as \<open>WrapperEffect\<close> and
  \<open>WrapperDevice8State\<close> of \<open>src/wrapper_effect.cpp\<close> and \<open>src/wrapper_device8.cpp\<close> keep them: a
  static head pointer, a next pointer per object, a count and a registered flag, all guarded by one
  lock.  Members are maps from addresses.  The pointer walks are \<open>partial_function\<close>s, because on an
  ill-formed list they need not end; on a well-formed one (\<open>registry_ok\<close>) they do.  The contract of
  counting is the locale \<open>refcounted\<close>.
\<close>

section \<open>Objects\<close>

record 'a registry =
  rg_head :: "nat option"
  rg_next :: "nat \<Rightarrow> nat option"
  rg_registered :: "nat \<Rightarrow> bool"
  rg_count :: "nat \<Rightarrow> u32"
  rg_heap :: "nat \<Rightarrow> 'a option"
  rg_fresh :: nat

definition empty_registry :: "'a registry" where
  "empty_registry = \<lparr>rg_head = None, rg_next = (\<lambda>_. None), rg_registered = (\<lambda>_. False),
     rg_count = (\<lambda>_. 0), rg_heap = (\<lambda>_. None), rg_fresh = 0\<rparr>"

text \<open>\<open>new\<close>: a fresh address, a count of one, not yet registered.\<close>

definition reg_new :: "'a \<Rightarrow> 'a registry \<Rightarrow> nat \<times> 'a registry" where
  "reg_new v r =
     (let a = rg_fresh r in
      (a, r\<lparr>rg_heap := (rg_heap r)(a := Some v), rg_count := (rg_count r)(a := 1),
            rg_next := (rg_next r)(a := None), rg_registered := (rg_registered r)(a := False),
            rg_fresh := Suc a\<rparr>))"

definition reg_register :: "nat \<Rightarrow> 'a registry \<Rightarrow> 'a registry" where
  "reg_register a r =
     r\<lparr>rg_next := (rg_next r)(a := rg_head r), rg_head := Some a,
       rg_registered := (rg_registered r)(a := True)\<rparr>"

text \<open>The walk over the links: \<open>link\<close> is the object whose next pointer leads to the current one,
  \<open>None\<close> for the head pointer itself.\<close>

partial_function (option) find_link ::
  "(nat \<Rightarrow> nat option) \<Rightarrow> nat \<Rightarrow> nat option \<Rightarrow> nat option \<Rightarrow> (nat option \<times> nat option) option" where
  "find_link next this link cur =
     (if cur = None then Some (link, None)
      else if cur = Some this then Some (link, cur)
      else find_link next this cur (next (the cur)))"

definition reg_unregister :: "nat \<Rightarrow> 'a registry \<Rightarrow> 'a registry option" where
  "reg_unregister this r =
     (if \<not> rg_registered r this then Some r
      else case find_link (rg_next r) this None (rg_head r) of
        None \<Rightarrow> None
      | Some (link, cur) \<Rightarrow>
          let r = (if cur = Some this then
                     (case link of
                        None \<Rightarrow> r\<lparr>rg_head := rg_next r this\<rparr>
                      | Some p \<Rightarrow> r\<lparr>rg_next := (rg_next r)(p := rg_next r this)\<rparr>)
                   else r)
          in Some (r\<lparr>rg_next := (rg_next r)(this := None),
                     rg_registered := (rg_registered r)(this := False)\<rparr>))"

partial_function (option) search_from ::
  "(nat \<Rightarrow> nat option) \<Rightarrow> (nat \<Rightarrow> bool) \<Rightarrow> nat option \<Rightarrow> nat option option" where
  "search_from next P cur =
     (if cur = None then Some None
      else if P (the cur) then Some cur
      else search_from next P (next (the cur)))"

definition reg_search :: "(nat \<Rightarrow> bool) \<Rightarrow> 'a registry \<Rightarrow> nat option option" where
  "reg_search P r = search_from (rg_next r) P (rg_head r)"

definition reg_add_ref :: "nat \<Rightarrow> 'a registry \<Rightarrow> u32 \<times> 'a registry" where
  "reg_add_ref a r =
     (let n = rg_count r a + 1 in (n, r\<lparr>rg_count := (rg_count r)(a := n)\<rparr>))"

text \<open>Decrement and, at zero, unregister, under the lock; the caller then deletes the object.\<close>

definition reg_drop_ref :: "nat \<Rightarrow> 'a registry \<Rightarrow> (u32 \<times> 'a registry) option" where
  "reg_drop_ref a r =
     (let n = rg_count r a - 1; r = r\<lparr>rg_count := (rg_count r)(a := n)\<rparr>
      in if n = 0 then map_option (\<lambda>r. (n, r)) (reg_unregister a r) else Some (n, r))"

definition reg_delete :: "nat \<Rightarrow> 'a registry \<Rightarrow> 'a registry" where
  "reg_delete a r = r\<lparr>rg_heap := (rg_heap r)(a := None)\<rparr>"

section \<open>Well-formed registries\<close>

fun list_at :: "nat option \<Rightarrow> (nat \<Rightarrow> nat option) \<Rightarrow> nat list \<Rightarrow> bool" where
  "list_at p next [] \<longleftrightarrow> p = None"
| "list_at p next (x # xs) \<longleftrightarrow> p = Some x \<and> list_at (next x) next xs"

definition registry_list :: "'a registry \<Rightarrow> nat list \<Rightarrow> bool" where
  "registry_list r xs \<longleftrightarrow> list_at (rg_head r) (rg_next r) xs \<and> distinct xs
     \<and> (\<forall>a. a \<in> set xs \<longleftrightarrow> rg_registered r a)
     \<and> (\<forall>a. rg_registered r a \<longrightarrow> rg_heap r a \<noteq> None)
     \<and> (\<forall>a. rg_heap r a \<noteq> None \<longrightarrow> a < rg_fresh r \<and> rg_count r a \<noteq> 0)"

definition registry_ok :: "'a registry \<Rightarrow> bool" where
  "registry_ok r \<longleftrightarrow> (\<exists>xs. registry_list r xs)"

lemma list_at_next_upd: "a \<notin> set xs \<Longrightarrow> list_at p (next(a := q)) xs = list_at p next xs"
  by (induction xs arbitrary: p) auto

lemma find_link_append:
  assumes "list_at cur next (ys @ this # zs)" and "this \<notin> set ys"
  shows "find_link next this link cur = Some (if ys = [] then link else Some (last ys), Some this)"
  using assms
proof (induction ys arbitrary: cur link)
  case Nil
  then show ?case by (simp add: find_link.simps)
next
  case (Cons y ys)
  then show ?case by (auto simp: find_link.simps[of _ _ _ "Some y"])
qed

lemma list_at_remove:
  assumes "list_at (Some y) next (y # ys @ this # zs)" and "distinct (y # ys @ this # zs)"
  shows "list_at (Some y) (next(last (y # ys) := next this)) (y # ys @ zs)"
  using assms
proof (induction ys arbitrary: y)
  case Nil
  then have "y \<notin> set zs" "list_at (next this) next zs" by auto
  then have "list_at (next this) (next(y := next this)) zs" by (simp add: list_at_next_upd)
  then show ?case by (simp only: append.simps list_at.simps last.simps simp_thms if_True fun_upd_same)
next
  case (Cons z ys)
  then have "last (y # z # ys) \<noteq> y" by auto
  with Cons show ?case by simp
qed

lemma reg_unregister_list:
  assumes "registry_list r (ys @ this # zs)"
  shows "\<exists>r'. reg_unregister this r = Some r' \<and> list_at (rg_head r') (rg_next r') (ys @ zs)
    \<and> rg_registered r' = (rg_registered r)(this := False)
    \<and> rg_heap r' = rg_heap r \<and> rg_count r' = rg_count r \<and> rg_fresh r' = rg_fresh r"
proof -
  have l: "list_at (rg_head r) (rg_next r) (ys @ this # zs)" and d: "distinct (ys @ this # zs)"
    and g: "rg_registered r this"
    using assms by (auto simp: registry_list_def)
  note fl = find_link_append[OF l, of None]
  show ?thesis
  proof (cases ys)
    case Nil
    with l d g fl show ?thesis
      by (simp add: reg_unregister_def list_at_next_upd)
  next
    case (Cons y ys')
    then have h: "rg_head r = Some y" using l by simp
    have "list_at (Some y) ((rg_next r)(last (y # ys') := rg_next r this)) (y # ys' @ zs)"
      using l d Cons h by (intro list_at_remove) simp_all
    then have "list_at (Some y) ((rg_next r)(last (y # ys') := rg_next r this, this := None)) (y # ys' @ zs)"
      using d Cons by (subst list_at_next_upd) auto
    with g fl d Cons h show ?thesis by (simp add: reg_unregister_def)
  qed
qed

lemma search_from_list:
  "list_at cur next xs \<Longrightarrow> search_from next P cur = Some (List.find P xs)"
  by (induction xs arbitrary: cur) (auto simp: search_from.simps)

lemma reg_search_list: "registry_list r xs \<Longrightarrow> reg_search P r = Some (List.find P xs)"
  by (simp add: reg_search_def search_from_list registry_list_def)

lemma registry_empty: "registry_list empty_registry []"
  by (simp add: registry_list_def empty_registry_def)

lemma registry_new:
  assumes "registry_list r xs" and "reg_new v r = (a, r')"
  shows "registry_list r' xs" and "a \<notin> set xs" and "rg_heap r a = None"
    and "a = rg_fresh r" and "rg_heap r' = (rg_heap r)(a := Some v)"
    and "rg_count r' = (rg_count r)(a := 1)" and "\<not> rg_registered r' a"
    and "\<And>b. b \<noteq> a \<Longrightarrow> rg_registered r' b = rg_registered r b"
proof -
  show a: "a = rg_fresh r" using assms(2) by (auto simp: reg_new_def Let_def)
  then show h: "rg_heap r a = None" using assms(1) by (auto simp: registry_list_def)
  then show n: "a \<notin> set xs" using assms(1) by (auto simp: registry_list_def)
  have "list_at (rg_head r) ((rg_next r)(a := None)) xs"
    using assms(1) n by (simp add: registry_list_def list_at_next_upd)
  moreover have "\<not> rg_registered r a" using assms(1) n by (simp add: registry_list_def)
  ultimately show "registry_list r' xs"
    using assms a h by (auto simp: registry_list_def reg_new_def Let_def less_SucI split: if_splits)
  show "rg_heap r' = (rg_heap r)(a := Some v)" "rg_count r' = (rg_count r)(a := 1)"
    "\<not> rg_registered r' a" "\<And>b. b \<noteq> a \<Longrightarrow> rg_registered r' b = rg_registered r b"
    using assms(2) by (auto simp: reg_new_def Let_def)
qed

lemma registry_register:
  assumes "registry_list r xs" and "\<not> rg_registered r a" and "rg_heap r a \<noteq> None"
  shows "registry_list (reg_register a r) (a # xs)"
proof -
  have "a \<notin> set xs" using assms by (auto simp: registry_list_def)
  with assms show ?thesis
    by (auto simp: registry_list_def reg_register_def list_at_next_upd)
qed

lemma registry_add_ref:
  "registry_list r xs \<Longrightarrow> rg_count r a + 1 \<noteq> 0 \<Longrightarrow> registry_list (snd (reg_add_ref a r)) xs"
  by (auto simp: registry_list_def reg_add_ref_def Let_def)

text \<open>Dropping a reference of a live object never diverges; at zero the object leaves the list.\<close>

lemma registry_drop:
  assumes "registry_list r xs" and "rg_heap r a \<noteq> None" and "rg_count r a \<noteq> 1"
  shows "\<exists>r'. reg_drop_ref a r = Some (rg_count r a - 1, r') \<and> registry_list r' xs
    \<and> r' = r\<lparr>rg_count := (rg_count r)(a := rg_count r a - 1)\<rparr>"
proof -
  have "rg_count r a - 1 \<noteq> 0" using assms(3) by simp
  with assms show ?thesis
    by (auto simp: reg_drop_ref_def Let_def registry_list_def)
qed

lemma registry_drop_last:
  assumes "registry_list r xs" and "rg_heap r a \<noteq> None" and "rg_count r a = 1"
  shows "\<exists>r'. reg_drop_ref a r = Some (0, r') \<and> registry_list (reg_delete a r') (remove1 a xs)
    \<and> rg_heap r' = rg_heap r \<and> (\<forall>b. b \<noteq> a \<longrightarrow> rg_count r' b = rg_count r b)
    \<and> rg_registered r' = (rg_registered r)(a := False)"
proof (cases "rg_registered r a")
  case False
  then have "a \<notin> set xs" using assms(1) by (simp add: registry_list_def)
  moreover have "(rg_registered r)(a := False) = rg_registered r" using False by (simp add: fun_eq_iff)
  ultimately show ?thesis
    using False assms
    by (auto simp: reg_drop_ref_def Let_def reg_unregister_def registry_list_def reg_delete_def
        remove1_idem)
next
  case True
  then have "a \<in> set xs" using assms(1) by (simp add: registry_list_def)
  then obtain ys zs where xs: "xs = ys @ a # zs" "a \<notin> set ys" by (meson split_list_first)
  let ?r = "r\<lparr>rg_count := (rg_count r)(a := 0)\<rparr>"
  \<comment> \<open>the list structure does not depend on the counts\<close>
  let ?q = "r\<lparr>rg_count := (rg_count r)(a := 1)\<rparr>"
  have "registry_list ?q (ys @ a # zs)" using assms xs by (auto simp: registry_list_def)
  from reg_unregister_list[OF this] obtain q where q: "reg_unregister a ?q = Some q"
    "list_at (rg_head q) (rg_next q) (ys @ zs)" "rg_registered q = (rg_registered r)(a := False)"
    "rg_heap q = rg_heap r" "rg_fresh q = rg_fresh r" by auto
  have "reg_unregister a ?r = Some (q\<lparr>rg_count := (rg_count r)(a := 0)\<rparr>)"
    using q(1) True
    by (auto simp: reg_unregister_def Let_def split: option.splits prod.splits if_splits)
  then have "reg_drop_ref a r = Some (0, q\<lparr>rg_count := (rg_count r)(a := 0)\<rparr>)"
    using assms(3) by (simp add: reg_drop_ref_def Let_def)
  moreover have "registry_list (reg_delete a (q\<lparr>rg_count := (rg_count r)(a := 0)\<rparr>)) (remove1 a xs)"
    using assms(1) xs q
    by (auto simp: registry_list_def reg_delete_def remove1_append)
  ultimately show ?thesis using q by auto
qed

section \<open>The contract of reference counting\<close>

locale refcounted =
  fixes inv :: "'s \<Rightarrow> bool"
    and refs :: "'s \<Rightarrow> 'a \<Rightarrow> nat option"
    and retain :: "'a \<Rightarrow> 's \<Rightarrow> 's"
    and release :: "'a \<Rightarrow> 's \<Rightarrow> 's option"
    and limit :: nat
  assumes retain_refs: "inv s \<Longrightarrow> refs s a = Some n \<Longrightarrow> Suc n < limit \<Longrightarrow>
      inv (retain a s) \<and> refs (retain a s) = (refs s)(a := Some (Suc n))"
    and release_refs: "inv s \<Longrightarrow> refs s a = Some n \<Longrightarrow> \<exists>s'. release a s = Some s' \<and> inv s'
      \<and> refs s' = (refs s)(a := (if n \<le> 1 then None else Some (n - 1)))"
begin

fun retain_many :: "nat \<Rightarrow> 'a \<Rightarrow> 's \<Rightarrow> 's" where
  "retain_many 0 a s = s"
| "retain_many (Suc k) a s = retain_many k a (retain a s)"

fun release_many :: "nat \<Rightarrow> 'a \<Rightarrow> 's \<Rightarrow> 's option" where
  "release_many 0 a s = Some s"
| "release_many (Suc k) a s = (case release a s of None \<Rightarrow> None | Some s \<Rightarrow> release_many k a s)"

lemma retain_many_refs:
  "inv s \<Longrightarrow> refs s a = Some n \<Longrightarrow> n + k < limit \<Longrightarrow>
     inv (retain_many k a s) \<and> refs (retain_many k a s) = (refs s)(a := Some (n + k))"
proof (induction k arbitrary: s n)
  case (Suc k)
  from retain_refs[OF Suc.prems(1,2)] Suc.prems(3)
  have "inv (retain a s)" "refs (retain a s) = (refs s)(a := Some (Suc n))" by auto
  with Suc.IH[of "retain a s" "Suc n"] Suc.prems(3) show ?case by (simp add: fun_eq_iff)
qed (simp add: fun_upd_idem)

lemma release_many_refs:
  "inv s \<Longrightarrow> refs s a = Some n \<Longrightarrow> k < n \<Longrightarrow>
     \<exists>s'. release_many k a s = Some s' \<and> inv s' \<and> refs s' = (refs s)(a := Some (n - k))"
proof (induction k arbitrary: s n)
  case (Suc k)
  from release_refs[OF Suc.prems(1,2)] Suc.prems(3) obtain s' where
    s': "release a s = Some s'" "inv s'" "refs s' = (refs s)(a := Some (n - 1))" by auto
  have "refs s' a = Some (n - 1)" "k < n - 1" using s'(3) Suc.prems(3) by simp_all
  from Suc.IH[OF s'(2) this] s'(3) obtain t where
    "release_many k a s' = Some t" "inv t" "refs t = (refs s)(a := Some (n - Suc k))"
    by (auto simp: fun_eq_iff)
  with s'(1) show ?case by (auto simp: fun_eq_iff)
qed (simp add: fun_upd_idem)

text \<open>The object lives exactly until the last of its references is released.\<close>

lemma balanced:
  assumes "inv s" and "refs s a = Some n" and "0 < n" and "n + k < limit"
  shows "\<exists>s'. release_many k a (retain_many k a s) = Some s' \<and> inv s' \<and> refs s' = refs s"
proof -
  from retain_many_refs[OF assms(1,2,4)] release_many_refs[of "retain_many k a s" a "n + k" k] assms(2,3)
  show ?thesis by (auto simp: fun_upd_idem)
qed

lemma last_release:
  assumes "inv s" and "refs s a = Some (Suc n)"
  shows "\<exists>s'. release_many (Suc n) a s = Some s' \<and> inv s' \<and> refs s' = (refs s)(a := None)"
  using assms
proof (induction n arbitrary: s)
  case 0
  from release_refs[OF 0] show ?case by auto
next
  case (Suc n)
  from release_refs[OF Suc.prems] obtain s' where
    s': "release a s = Some s'" "inv s'" "refs s' = (refs s)(a := Some (Suc n))" by auto
  with Suc.IH[of s'] show ?case by (auto simp: fun_eq_iff)
qed

end

end
