(* ===== verification/Com_Effect.thy ===== *)
theory Com_Effect imports Com_Registry Effect_Capture begin

text \<open>
  The world of COM wrappers and \<open>WrapperEffect\<close> of \<open>src/wrapper_effect.cpp\<close>.  Real DirectInput
  objects are numbers; \<open>cw_refs\<close> counts the references this module takes on them, net of those it
  gives back.  What a real method answers is an argument.  \<open>cw_events\<close> are the events handed to
  \<open>Telemetry::emit\<close>, oldest first.
\<close>

section \<open>COM constants\<close>

definition S_OK :: i32 where "S_OK = 0"
definition DI_OK :: i32 where "DI_OK = 0"
definition E_POINTER :: i32 where "E_POINTER = 0x80004003"
definition E_NOINTERFACE :: i32 where "E_NOINTERFACE = 0x80004002"
definition E_FAIL :: i32 where "E_FAIL = 0x80004005"
definition DIERR_UNSUPPORTED :: i32 where "DIERR_UNSUPPORTED = 0x80004001"
definition DIERR_NOTINITIALIZED :: i32 where "DIERR_NOTINITIALIZED = 0x80070015"
definition DIERR_INPUTLOST :: i32 where "DIERR_INPUTLOST = 0x8007001E"
definition DIERR_NOTACQUIRED :: i32 where "DIERR_NOTACQUIRED = 0x8007000C"
definition DIERR_OTHERAPPHASPRIO :: i32 where "DIERR_OTHERAPPHASPRIO = 0x80070005"
definition DIENUM_STOP :: u32 where "DIENUM_STOP = 0"

definition succeeded :: "i32 \<Rightarrow> bool" where "succeeded hr \<longleftrightarrow> 0 \<le> sint hr"

datatype iid = IID_IUnknown | IID_IDirectInputEffect | IID_IDirectInputDevice8 bool
  | IID_IDirectInput8 bool | IID_Other GUID

text \<open>Interface pointers: of a real object, of a wrapper, or null.  The flag of a device or DirectInput
  wrapper is the template argument \<open>Unicode\<close>.\<close>

datatype iface = INull | IReal nat | IEffect nat | IDevice bool nat | IInput bool nat

section \<open>The world\<close>

record weffect =
  we_real :: "nat option"
  we_identity :: "nat option"
  we_guid :: GUID
  we_device_id :: u32
  we_effect_id :: u32

text \<open>The A and W halves of a device or DirectInput object share one control block.\<close>

record wdevice =
  wd_invalidated :: bool
  wd_real_a :: "nat option"
  wd_real_w :: "nat option"
  wd_wrapper_a :: bool
  wd_wrapper_w :: bool
  wd_identity :: "nat option"
  wd_device_id :: u32

record winput =
  wi_real_a :: "nat option"
  wi_real_w :: "nat option"
  wi_wrapper_a :: bool
  wi_wrapper_w :: bool

record com =
  cw_pid :: u32
  cw_now :: u64
  cw_events :: "Event list"
  cw_refs :: "nat \<Rightarrow> int"
  cw_next_device :: u32
  cw_next_effect :: u32
  cw_effects :: "weffect registry"
  cw_devices :: "wdevice registry"
  cw_inputs :: "winput registry"

definition emit_event :: "Event \<Rightarrow> com \<Rightarrow> com" where
  "emit_event e w = w\<lparr>cw_events := cw_events w @ [e]\<rparr>"

definition real_add_ref :: "nat \<Rightarrow> com \<Rightarrow> com" where
  "real_add_ref r w = w\<lparr>cw_refs := (cw_refs w)(r := cw_refs w r + 1)\<rparr>"

definition real_release :: "nat option \<Rightarrow> com \<Rightarrow> com" where
  "real_release p w =
     (case p of None \<Rightarrow> w | Some r \<Rightarrow> w\<lparr>cw_refs := (cw_refs w)(r := cw_refs w r - 1)\<rparr>)"

definition next_device_id :: "com \<Rightarrow> u32 \<times> com" where
  "next_device_id w = (cw_next_device w + 1, w\<lparr>cw_next_device := cw_next_device w + 1\<rparr>)"

definition next_effect_id :: "com \<Rightarrow> u32 \<times> com" where
  "next_effect_id w = (cw_next_effect w + 1, w\<lparr>cw_next_effect := cw_next_effect w + 1\<rparr>)"

section \<open>WrapperEffect\<close>

text \<open>\<open>identity\<close>: what the real object answers to the query for \<open>IUnknown\<close>; the reference the query
  takes is given back at once.\<close>

definition effect_new :: "nat \<Rightarrow> nat option \<Rightarrow> u32 \<Rightarrow> u32 \<Rightarrow> GUID \<Rightarrow> com \<Rightarrow> nat \<times> com" where
  "effect_new real identity dev eff guid w =
     (case reg_new \<lparr>we_real = Some real, we_identity = identity, we_guid = guid,
             we_device_id = dev, we_effect_id = eff\<rparr> (cw_effects w) of
        (a, r) \<Rightarrow> (a, w\<lparr>cw_effects := reg_register a r\<rparr>))"

definition effect_add_ref :: "nat \<Rightarrow> com \<Rightarrow> u32 \<times> com" where
  "effect_add_ref a w =
     (case reg_add_ref a (cw_effects w) of (n, r) \<Rightarrow> (n, w\<lparr>cw_effects := r\<rparr>))"

definition effect_matches :: "nat \<Rightarrow> nat option \<Rightarrow> com \<Rightarrow> nat \<Rightarrow> bool" where
  "effect_matches real identity w a =
     (case rg_heap (cw_effects w) a of None \<Rightarrow> False
      | Some e \<Rightarrow> we_real e = Some real \<or> identity \<noteq> None \<and> we_identity e = identity)"

definition find_and_add_ref :: "nat option \<Rightarrow> nat option \<Rightarrow> com \<Rightarrow> (nat option \<times> com) option" where
  "find_and_add_ref real identity w =
     (case real of None \<Rightarrow> Some (None, w)
      | Some r \<Rightarrow>
          (case reg_search (effect_matches r identity w) (cw_effects w) of
             None \<Rightarrow> None
           | Some None \<Rightarrow> Some (None, w)
           | Some (Some a) \<Rightarrow> Some (Some a, snd (effect_add_ref a w))))"

definition effect_event :: "MessageType \<Rightarrow> weffect \<Rightarrow> com \<Rightarrow> Event" where
  "effect_event t e w =
     empty_event\<lparr>ev_type := t, ev_effect_kind := effect_kind_from_guid (we_guid e),
       ev_process_id := cw_pid w, ev_device_id := we_device_id e, ev_effect_id := we_effect_id e,
       ev_effect_guid := we_guid e\<rparr>"

definition effect_release :: "nat \<Rightarrow> com \<Rightarrow> (u32 \<times> com) option" where
  "effect_release a w =
     (case rg_heap (cw_effects w) a of
        None \<Rightarrow> None
      | Some e \<Rightarrow>
         (case reg_drop_ref a (cw_effects w) of
            None \<Rightarrow> None
          | Some (n, r) \<Rightarrow>
              let w = w\<lparr>cw_effects := r\<rparr> in
              if n = 0 then
                let w = emit_event ((effect_event EffectCommandMsg e w)\<lparr>
                          ev_command := command_code CmdRelease, ev_qpc_ticks := cw_now w\<rparr>) w;
                    w = real_release (we_real e) w
                in Some (n, w\<lparr>cw_effects := reg_delete a (cw_effects w)\<rparr>)
              else Some (n, w)))"

text \<open>A real method: its answer \<open>hr\<close>, or the fallback without a real object.\<close>

definition effect_forward :: "i32 \<Rightarrow> weffect \<Rightarrow> i32 \<Rightarrow> i32" where
  "effect_forward fallback e hr = (case we_real e of None \<Rightarrow> fallback | Some _ \<Rightarrow> hr)"

text \<open>\<open>valid_out\<close>: the out pointer is not null; \<open>forwarded\<close>: the answer of the real object.\<close>

definition effect_query_interface ::
  "nat \<Rightarrow> weffect \<Rightarrow> iid \<Rightarrow> bool \<Rightarrow> i32 \<times> iface \<Rightarrow> com \<Rightarrow> i32 \<times> iface \<times> com" where
  "effect_query_interface a e riid valid_out forwarded w =
     (if \<not> valid_out then (E_POINTER, INull, w)
      else if riid = IID_IUnknown \<or> riid = IID_IDirectInputEffect then
        (S_OK, IEffect a, snd (effect_add_ref a w))
      else (case we_real e of
              None \<Rightarrow> (E_NOINTERFACE, INull, w)
            | Some _ \<Rightarrow> (fst forwarded, snd forwarded, w)))"

definition effect_initialize :: "weffect \<Rightarrow> i32 \<Rightarrow> i32" where
  "effect_initialize e hr = effect_forward DI_OK e hr"

definition effect_get_guid :: "weffect \<Rightarrow> i32 \<Rightarrow> i32" where
  "effect_get_guid e hr = effect_forward DIERR_UNSUPPORTED e hr"

definition effect_get_parameters :: "weffect \<Rightarrow> i32 \<Rightarrow> i32" where
  "effect_get_parameters e hr = effect_forward DIERR_UNSUPPORTED e hr"

definition effect_get_status :: "weffect \<Rightarrow> i32 \<Rightarrow> i32" where
  "effect_get_status e hr = effect_forward DIERR_UNSUPPORTED e hr"

definition effect_escape :: "weffect \<Rightarrow> i32 \<Rightarrow> i32" where
  "effect_escape e hr = effect_forward DIERR_UNSUPPORTED e hr"

definition effect_set_parameters ::
  "arch \<Rightarrow> weffect \<Rightarrow> DIEFFECT ptr \<Rightarrow> u32 \<Rightarrow> i32 \<Rightarrow> com \<Rightarrow> i32 \<times> com" where
  "effect_set_parameters a e eff flags real_hr w =
     (let hr = effect_forward DIERR_UNSUPPORTED e real_hr;
          event = (effect_event EffectParametersChanged e w)\<lparr>ev_hresult := hr, ev_flags := flags\<rparr>
      in (hr, emit_event (fill_effect_parameters a event eff) w))"

definition effect_start :: "weffect \<Rightarrow> u32 \<Rightarrow> u32 \<Rightarrow> i32 \<Rightarrow> com \<Rightarrow> i32 \<times> com" where
  "effect_start e iterations flags real_hr w =
     (let hr = effect_forward DIERR_UNSUPPORTED e real_hr in
      (hr, emit_event ((effect_event EffectCommandMsg e w)\<lparr>ev_command := command_code CmdStart,
             ev_hresult := hr, ev_flags := flags, ev_iterations := iterations\<rparr>) w))"

definition effect_stop :: "weffect \<Rightarrow> i32 \<Rightarrow> com \<Rightarrow> i32 \<times> com" where
  "effect_stop e real_hr w =
     (let hr = effect_forward DIERR_UNSUPPORTED e real_hr in
      (hr, emit_event ((effect_event EffectCommandMsg e w)\<lparr>ev_command := command_code CmdStop,
             ev_hresult := hr\<rparr>) w))"

definition effect_download :: "weffect \<Rightarrow> i32 \<Rightarrow> com \<Rightarrow> i32 \<times> com" where
  "effect_download e real_hr w =
     (let hr = effect_forward DIERR_UNSUPPORTED e real_hr in
      (hr, emit_event ((effect_event EffectCommandMsg e w)\<lparr>ev_command := command_code CmdDownload,
             ev_hresult := hr\<rparr>) w))"

definition effect_unload :: "weffect \<Rightarrow> i32 \<Rightarrow> com \<Rightarrow> i32 \<times> com" where
  "effect_unload e real_hr w =
     (let hr = effect_forward DIERR_UNSUPPORTED e real_hr in
      (hr, emit_event ((effect_event EffectCommandMsg e w)\<lparr>ev_command := command_code CmdUnload,
             ev_hresult := hr\<rparr>) w))"

text \<open>The callback of \<open>EnumCreatedEffectObjects\<close>: \<open>app\<close> is the application's callback, \<open>None\<close> when it
  does not return.\<close>

definition created_effect_callback ::
  "(iface \<Rightarrow> com \<Rightarrow> (u32 \<times> com) option) option \<Rightarrow> nat \<Rightarrow> nat option \<Rightarrow> com \<Rightarrow> (u32 \<times> com) option" where
  "created_effect_callback callback real identity w =
     (case callback of
        None \<Rightarrow> Some (DIENUM_STOP, w)
      | Some app \<Rightarrow>
         (case find_and_add_ref (Some real) identity w of
            None \<Rightarrow> None
          | Some (None, w) \<Rightarrow> app (IReal real) w
          | Some (Some a, w) \<Rightarrow>
              (case app (IEffect a) w of
                 None \<Rightarrow> None
               | Some (result, w) \<Rightarrow> map_option (\<lambda>(n, w). (result, w)) (effect_release a w))))"

section \<open>Effects are well-formed\<close>

text \<open>Every live effect is registered: the constructor does it and only the last release undoes it.\<close>

definition effects_ok :: "com \<Rightarrow> bool" where
  "effects_ok w \<longleftrightarrow> (\<exists>xs. registry_list (cw_effects w) xs
     \<and> (\<forall>a. rg_heap (cw_effects w) a \<noteq> None \<longrightarrow> a \<in> set xs))"

definition effect_refs :: "com \<Rightarrow> nat \<Rightarrow> nat option" where
  "effect_refs w a =
     (if rg_heap (cw_effects w) a = None then None else Some (unat (rg_count (cw_effects w) a)))"

lemma effect_new_ok:
  assumes "effects_ok w" and "effect_new real ident dev eff guid w = (a, w')"
  shows "effects_ok w'" and "effect_refs w' = (effect_refs w)(a := Some 1)"
    and "effect_refs w a = None"
proof -
  from assms(1) obtain xs where xs: "registry_list (cw_effects w) xs"
    "\<forall>a. rg_heap (cw_effects w) a \<noteq> None \<longrightarrow> a \<in> set xs" by (auto simp: effects_ok_def)
  let ?e = "\<lparr>we_real = Some real, we_identity = ident, we_guid = guid,
      we_device_id = dev, we_effect_id = eff\<rparr>"
  obtain r where r: "reg_new ?e (cw_effects w) = (a, r)" and w': "w' = w\<lparr>cw_effects := reg_register a r\<rparr>"
    using assms(2) by (auto simp: effect_new_def split: prod.splits)
  note n = registry_new[OF xs(1) r]
  have "registry_list (reg_register a r) (a # xs)"
    using n by (intro registry_register) auto
  with xs n w' show "effects_ok w'"
    by (auto simp: effects_ok_def reg_register_def intro!: exI[of _ "a # xs"])
  show "effect_refs w' = (effect_refs w)(a := Some 1)"
    using n w' by (auto simp: effect_refs_def reg_register_def fun_eq_iff)
  show "effect_refs w a = None" using n by (simp add: effect_refs_def)
qed

lemma unat_plus_one: "Suc (unat (c :: u32)) < 2 ^ 32 \<Longrightarrow> unat (c + 1) = Suc (unat c)"
  by (simp add: unat_word_ariths)

lemma unat_minus_one_word: "(c :: u32) \<noteq> 0 \<Longrightarrow> unat (c - 1) = unat c - 1"
  by (simp add: unat_minus_one)

lemma effect_add_ref_ok:
  assumes "effects_ok w" and "effect_refs w a = Some n" and "Suc n < 2 ^ 32"
  shows "effects_ok (snd (effect_add_ref a w))
    \<and> effect_refs (snd (effect_add_ref a w)) = (effect_refs w)(a := Some (Suc n))"
proof -
  from assms(1) obtain xs where xs: "registry_list (cw_effects w) xs"
    "\<forall>a. rg_heap (cw_effects w) a \<noteq> None \<longrightarrow> a \<in> set xs" by (auto simp: effects_ok_def)
  have n: "n = unat (rg_count (cw_effects w) a)" "rg_heap (cw_effects w) a \<noteq> None"
    using assms(2) by (auto simp: effect_refs_def split: if_splits)
  then have c: "unat (rg_count (cw_effects w) a + 1) = Suc n" using assms(3) unat_plus_one by simp
  then have "rg_count (cw_effects w) a + 1 \<noteq> 0" by auto
  from registry_add_ref[OF xs(1) this] xs(2) c n show ?thesis
    by (auto simp: effects_ok_def effect_add_ref_def reg_add_ref_def Let_def effect_refs_def fun_eq_iff)
qed

lemma effect_release_ok:
  assumes "effects_ok w" and "effect_refs w a = Some n"
  shows "\<exists>k w'. effect_release a w = Some (k, w') \<and> effects_ok w'
    \<and> effect_refs w' = (effect_refs w)(a := (if n \<le> 1 then None else Some (n - 1)))"
proof -
  from assms(1) obtain xs where xs: "registry_list (cw_effects w) xs"
    "\<forall>a. rg_heap (cw_effects w) a \<noteq> None \<longrightarrow> a \<in> set xs" by (auto simp: effects_ok_def)
  obtain e where e: "rg_heap (cw_effects w) a = Some e" and n: "n = unat (rg_count (cw_effects w) a)"
    using assms(2) by (auto simp: effect_refs_def split: if_splits)
  from xs(1) e have nz: "rg_count (cw_effects w) a \<noteq> 0" by (auto simp: registry_list_def)
  have live: "rg_heap (cw_effects w) a \<noteq> None" using e by simp
  show ?thesis
  proof (cases "rg_count (cw_effects w) a = 1")
    case False
    from registry_drop[OF xs(1) live False] obtain r where
      r: "reg_drop_ref a (cw_effects w) = Some (rg_count (cw_effects w) a - 1, r)"
        "registry_list r xs"
        "r = (cw_effects w)\<lparr>rg_count := (rg_count (cw_effects w))(a := rg_count (cw_effects w) a - 1)\<rparr>"
      by blast
    have "rg_count (cw_effects w) a - 1 \<noteq> 0" using False by simp
    moreover have "\<not> n \<le> 1"
      using False nz n by (auto simp: le_Suc_eq word_unat_eq_iff)
    ultimately show ?thesis
      using e r xs(2) nz n
      by (auto simp: effect_release_def effects_ok_def effect_refs_def fun_eq_iff unat_minus_one_word)
  next
    case True
    from registry_drop_last[OF xs(1) live True] obtain r where
      r: "reg_drop_ref a (cw_effects w) = Some (0, r)" "registry_list (reg_delete a r) (remove1 a xs)"
        "rg_heap r = rg_heap (cw_effects w)"
        "\<forall>b. b \<noteq> a \<longrightarrow> rg_count r b = rg_count (cw_effects w) b" by blast
    have "distinct xs" using xs(1) by (simp add: registry_list_def)
    then have s: "set (remove1 a xs) = set xs - {a}" by simp
    let ?w = "emit_event ((effect_event EffectCommandMsg e (w\<lparr>cw_effects := r\<rparr>))\<lparr>
        ev_command := command_code CmdRelease, ev_qpc_ticks := cw_now w\<rparr>) (w\<lparr>cw_effects := r\<rparr>)"
    have rel: "effect_release a w = Some (0, (real_release (we_real e) ?w)\<lparr>cw_effects := reg_delete a r\<rparr>)"
      using e r(1) by (auto simp: effect_release_def Let_def emit_event_def real_release_def split: option.split)
    have "rg_heap (reg_delete a r) b \<noteq> None \<Longrightarrow> b \<in> set (remove1 a xs)" for b
      using xs(2) r(3) s by (auto simp: reg_delete_def split: if_splits)
    then have ok: "effects_ok ((real_release (we_real e) ?w)\<lparr>cw_effects := reg_delete a r\<rparr>)"
      using r(2) by (auto simp: effects_ok_def)
    have "n = 1" using True n by simp
    then have "effect_refs ((real_release (we_real e) ?w)\<lparr>cw_effects := reg_delete a r\<rparr>)
        = (effect_refs w)(a := None)"
      using r(3,4) by (auto simp: effect_refs_def reg_delete_def fun_eq_iff)
    with rel ok \<open>n = 1\<close> show ?thesis by auto
  qed
qed

interpretation eff: refcounted effects_ok effect_refs "\<lambda>a w. snd (effect_add_ref a w)"
  "\<lambda>a w. map_option snd (effect_release a w)" "2 ^ 32"
proof
  fix w :: com and a n
  assume "effects_ok w" "effect_refs w a = Some n"
  then show "Suc n < 2 ^ 32 \<Longrightarrow> effects_ok (snd (effect_add_ref a w))
      \<and> effect_refs (snd (effect_add_ref a w)) = (effect_refs w)(a := Some (Suc n))"
    by (rule effect_add_ref_ok)
  show "\<exists>s'. map_option snd (effect_release a w) = Some s' \<and> effects_ok s'
      \<and> effect_refs s' = (effect_refs w)(a := (if n \<le> 1 then None else Some (n - 1)))"
    using effect_release_ok[OF \<open>effects_ok w\<close> \<open>effect_refs w a = Some n\<close>] by auto
qed


lemma effect_release_kept:
  assumes "effects_ok w" and "effect_refs w a = Some n" and "1 < n"
    and "effect_release a w = Some (k, w')"
  shows "cw_events w' = cw_events w \<and> cw_refs w' = cw_refs w
    \<and> rg_heap (cw_effects w') a = rg_heap (cw_effects w) a"
proof -
  from assms(2,3) have "rg_count (cw_effects w) a - 1 \<noteq> 0"
    by (auto simp: effect_refs_def split: if_splits)
  with assms(2,4) show ?thesis
    by (auto simp: effect_release_def reg_drop_ref_def Let_def effect_refs_def split: option.splits)
qed

lemma effect_release_final:
  assumes "effects_ok w" and "effect_refs w a = Some 1" and "rg_heap (cw_effects w) a = Some e"
    and "effect_release a w = Some (k, w')"
  shows "k = 0 \<and> cw_events w' = cw_events w @ [(effect_event EffectCommandMsg e w)\<lparr>
      ev_command := command_code CmdRelease, ev_qpc_ticks := cw_now w\<rparr>]
    \<and> cw_refs w' = cw_refs (real_release (we_real e) w)"
proof -
  have "rg_count (cw_effects w) a = 1"
    using assms(2) by (auto simp: effect_refs_def word_unat_eq_iff split: if_splits)
  with assms(3,4) show ?thesis
    by (auto simp: effect_release_def reg_drop_ref_def Let_def effect_event_def emit_event_def
        real_release_def split: option.splits)
qed

lemma effect_lifetime:
  assumes "effects_ok w" and "effect_refs w a = Some (Suc n)" and "rg_heap (cw_effects w) a = Some e"
  shows "\<exists>w' released. eff.release_many (Suc n) a w = Some w' \<and> effects_ok w'
    \<and> effect_refs w' = (effect_refs w)(a := None)
    \<and> cw_events w' = cw_events w @ [released] \<and> ev_command released = command_code CmdRelease
    \<and> ev_effect_id released = we_effect_id e
    \<and> cw_refs w' = cw_refs (real_release (we_real e) w)"
  using assms
proof (induction n arbitrary: w)
  case 0
  from effect_release_ok[OF 0(1,2)] obtain k w' where w': "effect_release a w = Some (k, w')"
    "effects_ok w'" "effect_refs w' = (effect_refs w)(a := None)" by auto
  from effect_release_final[OF 0(1) _ 0(3) w'(1)] 0(2) w' show ?case
    by (auto simp: effect_event_def)
next
  case (Suc n)
  from effect_release_ok[OF Suc.prems(1,2)] obtain k w' where w': "effect_release a w = Some (k, w')"
    "effects_ok w'" "effect_refs w' = (effect_refs w)(a := Some (Suc n))" by auto
  from effect_release_kept[OF Suc.prems(1,2) _ w'(1)] Suc.prems(3) have
    k: "cw_events w' = cw_events w" "cw_refs w' = cw_refs w" "rg_heap (cw_effects w') a = Some e" by auto
  have "effect_refs w' a = Some (Suc n)" using w'(3) by simp
  from Suc.IH[OF w'(2) this k(3)] obtain w2 r where
    w2: "eff.release_many (Suc n) a w' = Some w2" "effects_ok w2" "effect_refs w2 = (effect_refs w')(a := None)"
      "cw_events w2 = cw_events w' @ [r]" "ev_command r = command_code CmdRelease"
      "ev_effect_id r = we_effect_id e" "cw_refs w2 = cw_refs (real_release (we_real e) w')" by blast
  have "eff.release_many (Suc (Suc n)) a w = Some w2" using w'(1) w2(1) by simp
  moreover have "effect_refs w2 = (effect_refs w)(a := None)" using w'(3) w2(3) by (auto simp: fun_eq_iff)
  moreover have "cw_refs w2 = cw_refs (real_release (we_real e) w)"
    using w2(7) k(2) by (simp add: real_release_def split: option.split)
  ultimately show ?case using w2 k(1) by auto
qed

lemma find_and_add_ref_spec:
  assumes "effects_ok w"
  shows "\<exists>found. find_and_add_ref (Some r) ident w =
      Some (found, case found of None \<Rightarrow> w | Some a \<Rightarrow> snd (effect_add_ref a w))
    \<and> (case found of None \<Rightarrow> \<forall>a. \<not> effect_matches r ident w a
       | Some a \<Rightarrow> effect_matches r ident w a)"
proof -
  from assms obtain xs where xs: "registry_list (cw_effects w) xs"
    "\<forall>a. rg_heap (cw_effects w) a \<noteq> None \<longrightarrow> a \<in> set xs" by (auto simp: effects_ok_def)
  let ?P = "effect_matches r ident w"
  have s: "reg_search ?P (cw_effects w) = Some (List.find ?P xs)" by (rule reg_search_list[OF xs(1)])
  show ?thesis
  proof (cases "List.find ?P xs")
    case None
    have "\<not> ?P a" for a
    proof
      assume "?P a"
      then have "a \<in> set xs" using xs(2) by (auto simp: effect_matches_def split: option.splits)
      with None \<open>?P a\<close> show False by (auto simp: find_None_iff)
    qed
    with s None show ?thesis by (intro exI[of _ None]) (simp add: find_and_add_ref_def)
  next
    case (Some a)
    then have "?P a" by (auto simp: find_Some_iff)
    with s Some show ?thesis by (intro exI[of _ "Some a"]) (simp add: find_and_add_ref_def)
  qed
qed

lemma effect_matches_live: "effect_matches r i w a \<Longrightarrow> effect_refs w a \<noteq> None"
  by (auto simp: effect_matches_def effect_refs_def split: option.splits)

definition event_header :: "Event \<Rightarrow> MessageType \<times> u32 \<times> u32 \<times> u32 \<times> i32 \<times> u32" where
  "event_header e = (ev_type e, ev_process_id e, ev_device_id e, ev_effect_id e, ev_hresult e, ev_flags e)"

lemma event_header_kept:
  "kept_by_stores cap k (\<lambda>e. event_header e = h \<and> ev_effect_kind e = k)"
  unfolding kept_by_stores_def event_header_def store_condition_word_def by simp

lemma fill_header: "event_header (fill_effect_parameters a e eff) = event_header e"
proof -
  have "(\<lambda>x. event_header x = event_header e \<and> ev_effect_kind x = ev_effect_kind e)
      (fill_effect_parameters a e eff)"
    by (rule fill_effect_parameters_all[OF event_header_kept]) (simp_all add: event_header_def fill_handler_def)
  then show ?thesis by simp
qed

section \<open>The properties\<close>

definition empty_com :: com where
  "empty_com = \<lparr>cw_pid = 7, cw_now = 5, cw_events = [], cw_refs = (\<lambda>_. 0), cw_next_device = 0,
     cw_next_effect = 0, cw_effects = empty_registry, cw_devices = empty_registry,
     cw_inputs = empty_registry\<rparr>"

lemma empty_effects_ok: "effects_ok empty_com"
  by (auto simp: effects_ok_def empty_com_def empty_registry_def intro!: exI[of _ "[]"]
      registry_empty[unfolded empty_registry_def])

text \<open>C17: an effect wrapper lives exactly until its last reference is released.  Releasing all
  \<open>n + 1\<close> references removes it, emits one release event with its id, gives the real effect back
  its one reference, and leaves every other wrapper as it was.\<close>

theorem effect_dies_with_its_last_reference:
  assumes "effects_ok w" and "effect_refs w a = Some (Suc n)" and "rg_heap (cw_effects w) a = Some e"
  shows "\<exists>w' released. eff.release_many (Suc n) a w = Some w' \<and> effects_ok w'
    \<and> effect_refs w' = (effect_refs w)(a := None)
    \<and> cw_events w' = cw_events w @ [released] \<and> ev_command released = command_code CmdRelease
    \<and> ev_effect_id released = we_effect_id e
    \<and> cw_refs w' = cw_refs (real_release (we_real e) w)"
  by (rule effect_lifetime[OF assms])

theorem effect_dies_with_its_last_reference_witness:
  "\<exists>w'. eff.release_many 1 0 (snd (effect_new 3 None 1 1 GUID_Sine empty_com)) = Some w'
    \<and> effect_refs w' 0 = None \<and> cw_refs w' 3 = -1"
proof -
  let ?w = "snd (effect_new 3 None 1 1 GUID_Sine empty_com)"
  have new: "effect_new 3 None 1 1 GUID_Sine empty_com = (0, ?w)"
    by (simp add: effect_new_def reg_new_def Let_def empty_com_def empty_registry_def)
  note ok = effect_new_ok[OF empty_effects_ok new]
  have h: "rg_heap (cw_effects ?w) 0 = Some \<lparr>we_real = Some 3, we_identity = None, we_guid = GUID_Sine,
      we_device_id = 1, we_effect_id = 1\<rparr>" and r: "cw_refs ?w = (\<lambda>_. 0)"
    by (simp_all add: effect_new_def reg_new_def Let_def empty_com_def empty_registry_def reg_register_def)
  from ok(2) have "effect_refs ?w 0 = Some (Suc 0)" by simp
  from effect_dies_with_its_last_reference[OF ok(1) this h] r show ?thesis
    by (auto simp: real_release_def)
qed

text \<open>The lookup behind the enumeration callback finds a live wrapper of the given real object
  (by pointer or by identity) exactly when there is one, takes one reference on it, and changes
  nothing otherwise.\<close>

theorem find_and_add_ref_finds:
  assumes "effects_ok w"
  shows "\<exists>found. find_and_add_ref (Some r) ident w =
      Some (found, case found of None \<Rightarrow> w | Some a \<Rightarrow> snd (effect_add_ref a w))
    \<and> (case found of None \<Rightarrow> \<forall>a. \<not> effect_matches r ident w a
       | Some a \<Rightarrow> effect_matches r ident w a)"
  by (rule find_and_add_ref_spec[OF assms])

theorem find_and_add_ref_finds_witness:
  "\<exists>found. find_and_add_ref (Some 3) None empty_com =
      Some (found, case found of None \<Rightarrow> empty_com | Some a \<Rightarrow> snd (effect_add_ref a empty_com))"
  using find_and_add_ref_finds[OF empty_effects_ok, of 3 None] by blast

text \<open>The enumeration callback returns the application's answer and is balanced: when the
  application's callback leaves the reference counts as it found them, so does the wrapper's.\<close>

theorem enumeration_is_balanced:
  assumes "effects_ok w" and "\<forall>a n. effect_refs w a = Some n \<longrightarrow> Suc n < 2 ^ 32"
    and "\<And>p v. effects_ok v \<Longrightarrow>
      \<exists>v'. app p v = Some (result, v') \<and> effects_ok v' \<and> effect_refs v' = effect_refs v"
  shows "\<exists>w'. created_effect_callback (Some app) r ident w = Some (result, w')
    \<and> effects_ok w' \<and> effect_refs w' = effect_refs w"
proof -
  obtain found where f: "find_and_add_ref (Some r) ident w =
      Some (found, case found of None \<Rightarrow> w | Some a \<Rightarrow> snd (effect_add_ref a w))"
    "case found of None \<Rightarrow> True | Some a \<Rightarrow> effect_matches r ident w a"
    using find_and_add_ref_spec[OF assms(1), of r ident] by (auto split: option.splits)
  show ?thesis
  proof (cases found)
    case None
    with f assms(1) assms(3)[of w "IReal r"] show ?thesis by (auto simp: created_effect_callback_def)
  next
    case (Some a)
    with f obtain n where n: "effect_refs w a = Some n" using effect_matches_live by fastforce
    let ?w1 = "snd (effect_add_ref a w)"
    from effect_add_ref_ok[OF assms(1) n] assms(2) n have
      1: "effects_ok ?w1" "effect_refs ?w1 = (effect_refs w)(a := Some (Suc n))" by auto
    from assms(3)[OF 1(1), of "IEffect a"] obtain w2 where
      2: "app (IEffect a) ?w1 = Some (result, w2)" "effects_ok w2" "effect_refs w2 = effect_refs ?w1" by blast
    from 2(3) 1(2) have a2: "effect_refs w2 a = Some (Suc n)" by simp
    from effect_release_ok[OF 2(2) a2] obtain k w3 where
      3: "effect_release a w2 = Some (k, w3)" "effects_ok w3"
        "effect_refs w3 = (effect_refs w2)(a := (if Suc n \<le> 1 then None else Some n))" by auto
    have "rg_count (cw_effects w) a \<noteq> 0" "n = unat (rg_count (cw_effects w) a)"
      using n assms(1) by (auto simp: effect_refs_def effects_ok_def registry_list_def split: if_splits)
    then have "n \<noteq> 0" by (simp add: unat_eq_zero)
    then have "effect_refs w3 = effect_refs w"
      using 3(3) 2(3) 1(2) n by (auto simp: fun_eq_iff)
    with f(1) Some 2(1) 3 show ?thesis by (simp add: created_effect_callback_def)
  qed
qed

theorem enumeration_is_balanced_witness:
  "\<exists>w'. created_effect_callback (Some (\<lambda>p v. Some (1, v))) 3 None empty_com = Some (1, w')
    \<and> effects_ok w' \<and> effect_refs w' = effect_refs empty_com"
  by (rule enumeration_is_balanced[OF empty_effects_ok])
    (simp_all add: effect_refs_def empty_com_def empty_registry_def)

text \<open>Interception is transparent: each command and update of an effect returns the answer of the
  real object and hands telemetry exactly one event, which carries that answer and the wrapper's ids
  and changes nothing else; recording the parameters never changes what the event says about the call.\<close>

theorem effect_calls_are_transparent:
  assumes "we_real e = Some r"
    and "op \<in> {effect_set_parameters a e eff flags, effect_start e iterations flags, effect_stop e,
      effect_download e, effect_unload e}"
  shows "\<exists>event. op hr w = (hr, emit_event event w) \<and> ev_hresult event = hr
    \<and> ev_process_id event = cw_pid w \<and> ev_device_id event = we_device_id e
    \<and> ev_effect_id event = we_effect_id e"
proof -
  have "ev_hresult (fill_effect_parameters a x eff) = ev_hresult x
    \<and> ev_process_id (fill_effect_parameters a x eff) = ev_process_id x
    \<and> ev_device_id (fill_effect_parameters a x eff) = ev_device_id x
    \<and> ev_effect_id (fill_effect_parameters a x eff) = ev_effect_id x" for x
    using fill_header[of a x eff] by (simp add: event_header_def)
  with assms show ?thesis
    by (auto simp: effect_set_parameters_def effect_start_def effect_stop_def effect_download_def
        effect_unload_def effect_forward_def effect_event_def Let_def)
qed

theorem effect_calls_are_transparent_witness:
  "\<exists>event. effect_stop \<lparr>we_real = Some 3, we_identity = None, we_guid = GUID_Sine, we_device_id = 1,
      we_effect_id = 1\<rparr> 0x80004005 empty_com = (0x80004005, emit_event event empty_com)"
  using effect_calls_are_transparent[of "\<lparr>we_real = Some 3, we_identity = None, we_guid = GUID_Sine,
      we_device_id = 1, we_effect_id = 1\<rparr>" 3
      "effect_stop \<lparr>we_real = Some 3, we_identity = None, we_guid = GUID_Sine, we_device_id = 1,
      we_effect_id = 1\<rparr>"] by fastforce

end
