(* ===== verification/Com_Device.thy ===== *)
theory Com_Device imports Com_Effect begin

text \<open>
  \<open>WrapperDevice8\<close> and \<open>WrapperDevice8State\<close> of \<open>src/wrapper_device8.cpp\<close>.  A device wrapper is its
  control block: the A and W wrapper objects are the pair of a block and the template flag
  (\<open>IDevice\<close>).  What allocations and real calls answer is in \<open>device_env\<close> and in arguments.
  A property is named by the address behind the \<open>REFGUID\<close>, and \<open>mem\<close> is the readable memory of the
  host process, because the code compares properties through that reference.
\<close>

section \<open>Telemetry of a device\<close>

definition emit_effect :: "arch \<Rightarrow> u32 \<Rightarrow> u32 \<Rightarrow> GUID \<Rightarrow> DIEFFECT ptr \<Rightarrow> i32 \<Rightarrow> com \<Rightarrow> com" where
  "emit_effect a dev eff guid params hr w =
     emit_event (fill_effect_parameters a (empty_event\<lparr>ev_type := EffectCreated,
       ev_effect_kind := effect_kind_from_guid guid, ev_process_id := cw_pid w,
       ev_device_id := dev, ev_effect_id := eff, ev_effect_guid := guid, ev_hresult := hr,
       ev_presence := (if params = NullPtr then PresenceAbsent else PresencePresent)\<rparr>) params) w"

definition emit_device_command :: "u32 \<Rightarrow> u32 \<Rightarrow> i32 \<Rightarrow> com \<Rightarrow> com" where
  "emit_device_command dev command hr w =
     emit_event (empty_event\<lparr>ev_type := DeviceCommand, ev_process_id := cw_pid w,
       ev_device_id := dev, ev_di_flags := command, ev_hresult := hr\<rparr>) w"

text \<open>\<open>IsEqualGUID\<close> of two references compares the sixteen bytes they lead to; \<open>None\<close> is an access
  violation.\<close>

fun compare_bytes :: "(nat \<Rightarrow> byte option) \<Rightarrow> nat \<Rightarrow> nat \<Rightarrow> nat \<Rightarrow> bool option" where
  "compare_bytes mem p q 0 = Some True"
| "compare_bytes mem p q (Suc n) =
     (case mem p of None \<Rightarrow> None
      | Some x \<Rightarrow> (case mem q of None \<Rightarrow> None
         | Some y \<Rightarrow> if x = y then compare_bytes mem (Suc p) (Suc q) n else Some False))"

definition is_equal_guid :: "(nat \<Rightarrow> byte option) \<Rightarrow> nat \<Rightarrow> nat \<Rightarrow> bool option" where
  "is_equal_guid mem p q = compare_bytes mem p q 16"

text \<open>\<open>MAKEDIPROP (n)\<close> of \<open>dinput.h\<close> is a reference to a GUID at address \<open>n\<close>.\<close>

definition DIPROP_FFGAIN :: nat where "DIPROP_FFGAIN = 7"
definition DIPROP_AUTOCENTER :: nat where "DIPROP_AUTOCENTER = 9"
definition sizeof_DIPROPDWORD :: nat where "sizeof_DIPROPDWORD = 20"

text \<open>A property header: its size and, when readable, its data word.  A fault while reading it is
  handled; a fault in the comparisons is not.\<close>

definition property_gain :: "(u32 \<times> u32 option) ptr \<Rightarrow> u32" where
  "property_gain header =
     (case header of
        Ptr (sz, Some v) \<Rightarrow> if sizeof_DIPROPDWORD \<le> unat sz then v else 0
      | _ \<Rightarrow> 0)"

definition emit_property ::
  "(nat \<Rightarrow> byte option) \<Rightarrow> u32 \<Rightarrow> nat \<Rightarrow> (u32 \<times> u32 option) ptr \<Rightarrow> i32 \<Rightarrow> com \<Rightarrow> com option" where
  "emit_property mem dev prop header hr w =
     (case is_equal_guid mem prop DIPROP_FFGAIN of
        None \<Rightarrow> None
      | Some gain \<Rightarrow>
         (case (if gain then Some True else is_equal_guid mem prop DIPROP_AUTOCENTER) of
            None \<Rightarrow> None
          | Some False \<Rightarrow> Some w
          | Some True \<Rightarrow>
              Some (emit_event (empty_event\<lparr>ev_type := DevicePropertyChanged,
                ev_process_id := cw_pid w, ev_device_id := dev,
                ev_property_id := (if gain then 1 else 2), ev_hresult := hr,
                ev_gain := property_gain header\<rparr>) w)))"

section \<open>The control block\<close>

definition device_valid :: "wdevice \<Rightarrow> bool" where
  "device_valid d \<longleftrightarrow> (wd_real_a d \<noteq> None \<longrightarrow> wd_wrapper_a d) \<and> (wd_real_w d \<noteq> None \<longrightarrow> wd_wrapper_w d)"

definition device_canonical :: "nat \<Rightarrow> wdevice \<Rightarrow> iface" where
  "device_canonical a d = (if wd_wrapper_a d then IDevice False a else IDevice True a)"

definition device_add_ref :: "nat \<Rightarrow> com \<Rightarrow> u32 \<times> com" where
  "device_add_ref a w = (case reg_add_ref a (cw_devices w) of (n, r) \<Rightarrow> (n, w\<lparr>cw_devices := r\<rparr>))"

text \<open>The destructor gives back the references on the two real interfaces.\<close>

definition device_release :: "nat \<Rightarrow> com \<Rightarrow> (u32 \<times> com) option" where
  "device_release a w =
     (case reg_drop_ref a (cw_devices w) of
        None \<Rightarrow> None
      | Some (n, r) \<Rightarrow>
          let w = w\<lparr>cw_devices := r\<rparr> in
          if n = 0 then
            (case rg_heap r a of
               None \<Rightarrow> None
             | Some d \<Rightarrow> Some (n, real_release (wd_real_w d) (real_release (wd_real_a d)
                 (w\<lparr>cw_devices := reg_delete a r\<rparr>))))
          else Some (n, w))"

definition device_update :: "nat \<Rightarrow> (wdevice \<Rightarrow> wdevice) \<Rightarrow> com \<Rightarrow> com" where
  "device_update a f w =
     w\<lparr>cw_devices := (cw_devices w)\<lparr>rg_heap :=
        (rg_heap (cw_devices w))(a := map_option f (rg_heap (cw_devices w) a))\<rparr>\<rparr>"

section \<open>Publication\<close>

text \<open>What the constructor meets: whether the wrapper and its control block can be allocated, the
  alias interface the real device answers with, whether the alias wrapper can be allocated, and
  the canonical identity.\<close>

record device_env =
  de_candidate :: bool
  de_state :: bool
  de_alias :: "nat option"
  de_alias_wrapper :: bool
  de_identity :: "nat option"

definition device_construct :: "bool \<Rightarrow> nat \<Rightarrow> u32 \<Rightarrow> device_env \<Rightarrow> wdevice" where
  "device_construct U real dev env =
     (let alias_wrapper = de_alias env \<noteq> None \<and> de_alias_wrapper env in
      \<lparr>wd_invalidated = True,
       wd_real_a = (if U then de_alias env else Some real),
       wd_real_w = (if U then Some real else de_alias env),
       wd_wrapper_a = (if U then alias_wrapper else True),
       wd_wrapper_w = (if U then True else alias_wrapper),
       wd_identity = de_identity env, wd_device_id = dev\<rparr>)"

definition detach_real :: "bool \<Rightarrow> wdevice \<Rightarrow> wdevice" where
  "detach_real U d = (if U then d\<lparr>wd_real_w := None\<rparr> else d\<lparr>wd_real_a := None\<rparr>)"

definition discard_unpublished :: "bool \<Rightarrow> nat \<Rightarrow> com \<Rightarrow> com option" where
  "discard_unpublished U a w = map_option snd (device_release a (device_update a (detach_real U) w))"

definition device_matches :: "nat \<Rightarrow> nat option \<Rightarrow> com \<Rightarrow> nat \<Rightarrow> bool" where
  "device_matches real identity w a =
     (case rg_heap (cw_devices w) a of None \<Rightarrow> False
      | Some d \<Rightarrow> wd_real_a d = Some real \<or> wd_real_w d = Some real
          \<or> identity \<noteq> None \<and> wd_identity d = identity)"

definition has_wrapper :: "bool \<Rightarrow> wdevice \<Rightarrow> bool" where
  "has_wrapper U d = (if U then wd_wrapper_w d else wd_wrapper_a d)"

text \<open>The result: the wrapper's block, and whether it was newly created.\<close>

definition publish_or_add_ref ::
  "bool \<Rightarrow> nat option \<Rightarrow> u32 \<Rightarrow> device_env \<Rightarrow> com \<Rightarrow> (nat option \<times> bool \<times> com) option" where
  "publish_or_add_ref U real dev env w =
     (case real of
        None \<Rightarrow> Some (None, False, w)
      | Some r \<Rightarrow>
          if \<not> de_candidate env \<or> \<not> de_state env then Some (None, False, w)
          else
            let d = device_construct U r dev env;
                w = (case de_alias env of None \<Rightarrow> w | Some alias \<Rightarrow> real_add_ref alias w) in
            (case reg_new d (cw_devices w) of
               (c, devices) \<Rightarrow>
                 let w = w\<lparr>cw_devices := devices\<rparr> in
                 if \<not> device_valid d then
                   map_option (\<lambda>w. (None, False, w)) (discard_unpublished U c w)
                 else
                   (case reg_search (device_matches r (wd_identity d) w) (cw_devices w) of
                      None \<Rightarrow> None
                    | Some None \<Rightarrow>
                        Some (Some c, True, w\<lparr>cw_devices := reg_register c (cw_devices w)\<rparr>)
                    | Some (Some a) \<Rightarrow>
                       (case rg_heap (cw_devices w) a of
                          None \<Rightarrow> None
                        | Some old \<Rightarrow>
                            if has_wrapper U old then
                              map_option (\<lambda>(n, w). (Some a, False, w))
                                (device_release c (snd (device_add_ref a w)))
                            else map_option (\<lambda>w. (None, False, w)) (discard_unpublished U c w)))))"

definition device_query_interface ::
  "bool \<Rightarrow> nat option \<Rightarrow> iid \<Rightarrow> bool \<Rightarrow> nat option \<Rightarrow> i32 \<times> iface \<Rightarrow> com \<Rightarrow> i32 \<times> iface \<times> com" where
  "device_query_interface U st riid valid_out real forwarded w =
     (if \<not> valid_out then (E_POINTER, INull, w)
      else case st of
        None \<Rightarrow> (E_NOINTERFACE, INull, w)
      | Some a \<Rightarrow>
         (case rg_heap (cw_devices w) a of
            None \<Rightarrow> (E_NOINTERFACE, INull, w)
          | Some d \<Rightarrow>
              if riid = IID_IUnknown then (S_OK, device_canonical a d, snd (device_add_ref a w))
              else if riid = IID_IDirectInputDevice8 False \<and> wd_wrapper_a d then
                (S_OK, IDevice False a, snd (device_add_ref a w))
              else if riid = IID_IDirectInputDevice8 True \<and> wd_wrapper_w d then
                (S_OK, IDevice True a, snd (device_add_ref a w))
              else (case real of None \<Rightarrow> (E_NOINTERFACE, INull, w)
                    | Some _ \<Rightarrow> (fst forwarded, snd forwarded, w))))"

section \<open>Methods\<close>

definition acquisition_is_lost :: "i32 \<Rightarrow> bool" where
  "acquisition_is_lost hr \<longleftrightarrow> hr = DIERR_INPUTLOST \<or> hr = DIERR_NOTACQUIRED \<or> hr = DIERR_OTHERAPPHASPRIO"

definition DISFFC_STOPALL :: u32 where "DISFFC_STOPALL = 2"

text \<open>The exchange returns the old flag and sets it; only the first caller emits.\<close>

definition invalidate_playback :: "nat option \<Rightarrow> u32 \<Rightarrow> i32 \<Rightarrow> com \<Rightarrow> com" where
  "invalidate_playback st dev hr w =
     (case st of None \<Rightarrow> w
      | Some a \<Rightarrow>
         (case rg_heap (cw_devices w) a of None \<Rightarrow> w
          | Some d \<Rightarrow>
             let w = device_update a (\<lambda>d. d\<lparr>wd_invalidated := True\<rparr>) w in
             if wd_invalidated d then w else emit_device_command dev DISFFC_STOPALL hr w))"

definition device_acquire :: "nat option \<Rightarrow> u32 \<Rightarrow> i32 \<Rightarrow> com \<Rightarrow> i32 \<times> com" where
  "device_acquire st dev hr w =
     (hr, case st of
            Some a \<Rightarrow>
              if succeeded hr then device_update a (\<lambda>d. d\<lparr>wd_invalidated := False\<rparr>) w
              else if acquisition_is_lost hr then invalidate_playback st dev DI_OK w else w
          | None \<Rightarrow> if acquisition_is_lost hr then invalidate_playback st dev DI_OK w else w)"

definition device_unacquire :: "nat option \<Rightarrow> u32 \<Rightarrow> i32 \<Rightarrow> com \<Rightarrow> i32 \<times> com" where
  "device_unacquire st dev hr w =
     (hr, if succeeded hr then invalidate_playback st dev hr w else w)"

definition device_get_state :: "nat option \<Rightarrow> u32 \<Rightarrow> i32 \<Rightarrow> com \<Rightarrow> i32 \<times> com" where
  "device_get_state st dev hr w =
     (hr, if acquisition_is_lost hr then invalidate_playback st dev DI_OK w else w)"

definition device_get_data :: "nat option \<Rightarrow> u32 \<Rightarrow> i32 \<Rightarrow> com \<Rightarrow> i32 \<times> com" where
  "device_get_data st dev hr w =
     (hr, if acquisition_is_lost hr then invalidate_playback st dev DI_OK w else w)"

definition device_poll :: "nat option \<Rightarrow> u32 \<Rightarrow> i32 \<Rightarrow> com \<Rightarrow> i32 \<times> com" where
  "device_poll st dev hr w =
     (hr, if acquisition_is_lost hr then invalidate_playback st dev DI_OK w else w)"

definition device_send_command :: "u32 \<Rightarrow> u32 \<Rightarrow> i32 \<Rightarrow> com \<Rightarrow> i32 \<times> com" where
  "device_send_command dev flags hr w = (hr, emit_device_command dev flags hr w)"

definition device_set_property ::
  "(nat \<Rightarrow> byte option) \<Rightarrow> u32 \<Rightarrow> nat \<Rightarrow> (u32 \<times> u32 option) ptr \<Rightarrow> i32 \<Rightarrow> com \<Rightarrow> (i32 \<times> com) option" where
  "device_set_property mem dev prop header hr w =
     map_option (\<lambda>w. (hr, w)) (emit_property mem dev prop header hr w)"

text \<open>\<open>real_out\<close> is the real effect the real device answers with; the answer is what the game's out
  pointer receives.\<close>

definition device_create_effect ::
  "arch \<Rightarrow> bool \<Rightarrow> nat option \<Rightarrow> u32 \<Rightarrow> GUID \<Rightarrow> DIEFFECT ptr \<Rightarrow> bool \<Rightarrow> i32 \<Rightarrow> nat option
    \<Rightarrow> bool \<Rightarrow> nat option \<Rightarrow> com \<Rightarrow> i32 \<times> iface \<times> com" where
  "device_create_effect a valid_out m_real dev guid params outer hr real_out alloc identity w =
     (if \<not> valid_out then (E_POINTER, INull, w)
      else if m_real = None then (DIERR_NOTINITIALIZED, INull, w)
      else
        case real_out of
          None \<Rightarrow> (hr, INull, emit_effect a dev 0 guid params hr w)
        | Some r \<Rightarrow>
            if \<not> succeeded hr \<or> outer then (hr, IReal r, emit_effect a dev 0 guid params hr w)
            else
              (case next_effect_id w of
                 (eff, w) \<Rightarrow>
                   if \<not> alloc then (hr, IReal r, emit_effect a dev eff guid params hr w)
                   else (case effect_new r identity dev eff guid w of
                           (e, w) \<Rightarrow> (hr, IEffect e, emit_effect a dev eff guid params hr w))))"

section \<open>Control blocks are well-formed\<close>

definition devices_ok :: "com \<Rightarrow> bool" where
  "devices_ok w \<longleftrightarrow> (\<exists>xs. registry_list (cw_devices w) xs
     \<and> (\<forall>a. rg_heap (cw_devices w) a \<noteq> None \<longrightarrow> a \<in> set xs))"

definition device_refs :: "com \<Rightarrow> nat \<Rightarrow> nat option" where
  "device_refs w a =
     (if rg_heap (cw_devices w) a = None then None else Some (unat (rg_count (cw_devices w) a)))"

lemma cw_refs_release [simp]: "cw_devices (real_release p w) = cw_devices w"
  "cw_events (real_release p w) = cw_events w"
  by (simp_all add: real_release_def split: option.split)

lemma device_add_ref_ok:
  assumes "devices_ok w" and "device_refs w a = Some n" and "Suc n < 2 ^ 32"
  shows "devices_ok (snd (device_add_ref a w))
    \<and> device_refs (snd (device_add_ref a w)) = (device_refs w)(a := Some (Suc n))"
proof -
  from assms(1) obtain xs where xs: "registry_list (cw_devices w) xs"
    "\<forall>a. rg_heap (cw_devices w) a \<noteq> None \<longrightarrow> a \<in> set xs" by (auto simp: devices_ok_def)
  have n: "n = unat (rg_count (cw_devices w) a)" "rg_heap (cw_devices w) a \<noteq> None"
    using assms(2) by (auto simp: device_refs_def split: if_splits)
  then have c: "unat (rg_count (cw_devices w) a + 1) = Suc n" using assms(3) unat_plus_one by simp
  then have "rg_count (cw_devices w) a + 1 \<noteq> 0" by auto
  from registry_add_ref[OF xs(1) this] xs(2) c n show ?thesis
    by (auto simp: devices_ok_def device_add_ref_def reg_add_ref_def Let_def device_refs_def fun_eq_iff)
qed

text \<open>A block at its last reference is deleted and gives back both real references, whether it was
  published or not.\<close>

lemma device_release_last:
  assumes "registry_list (cw_devices w) xs" and "rg_heap (cw_devices w) a = Some d"
    and "rg_count (cw_devices w) a = 1"
  shows "\<exists>w'. device_release a w = Some (0, w') \<and> registry_list (cw_devices w') (remove1 a xs)
    \<and> rg_heap (cw_devices w') = (rg_heap (cw_devices w))(a := None)
    \<and> (\<forall>b. b \<noteq> a \<longrightarrow> rg_count (cw_devices w') b = rg_count (cw_devices w) b)
    \<and> cw_refs w' = cw_refs (real_release (wd_real_w d) (real_release (wd_real_a d) w))
    \<and> cw_events w' = cw_events w"
proof -
  from registry_drop_last[OF assms(1) _ assms(3)] assms(2) obtain r where
    r: "reg_drop_ref a (cw_devices w) = Some (0, r)" "registry_list (reg_delete a r) (remove1 a xs)"
      "rg_heap r = rg_heap (cw_devices w)"
      "\<forall>b. b \<noteq> a \<longrightarrow> rg_count r b = rg_count (cw_devices w) b" by auto
  let ?w = "real_release (wd_real_w d) (real_release (wd_real_a d) (w\<lparr>cw_devices := reg_delete a r\<rparr>))"
  have "device_release a w = Some (0, ?w)"
    using r assms(2) by (simp add: device_release_def Let_def)
  moreover have "cw_refs ?w = cw_refs (real_release (wd_real_w d) (real_release (wd_real_a d) w))"
    by (simp add: real_release_def split: option.split)
  ultimately show ?thesis using r by (auto simp: reg_delete_def)
qed

lemma device_release_ok:
  assumes "devices_ok w" and "device_refs w a = Some n"
  shows "\<exists>k w'. device_release a w = Some (k, w') \<and> devices_ok w'
    \<and> device_refs w' = (device_refs w)(a := (if n \<le> 1 then None else Some (n - 1)))"
proof -
  from assms(1) obtain xs where xs: "registry_list (cw_devices w) xs"
    "\<forall>a. rg_heap (cw_devices w) a \<noteq> None \<longrightarrow> a \<in> set xs" by (auto simp: devices_ok_def)
  obtain d where d: "rg_heap (cw_devices w) a = Some d" and n: "n = unat (rg_count (cw_devices w) a)"
    using assms(2) by (auto simp: device_refs_def split: if_splits)
  from xs(1) d have nz: "rg_count (cw_devices w) a \<noteq> 0" by (auto simp: registry_list_def)
  have live: "rg_heap (cw_devices w) a \<noteq> None" using d by simp
  show ?thesis
  proof (cases "rg_count (cw_devices w) a = 1")
    case False
    from registry_drop[OF xs(1) live False] obtain r where
      r: "reg_drop_ref a (cw_devices w) = Some (rg_count (cw_devices w) a - 1, r)"
        "registry_list r xs"
        "r = (cw_devices w)\<lparr>rg_count := (rg_count (cw_devices w))(a := rg_count (cw_devices w) a - 1)\<rparr>"
      by blast
    have "rg_count (cw_devices w) a - 1 \<noteq> 0" using False by simp
    moreover have "\<not> n \<le> 1"
      using False nz n by (auto simp: le_Suc_eq word_unat_eq_iff)
    ultimately show ?thesis
      using d r xs(2) nz n
      by (auto simp: device_release_def devices_ok_def device_refs_def fun_eq_iff unat_minus_one_word)
  next
    case True
    from device_release_last[OF xs(1) d True] obtain w' where
      w': "device_release a w = Some (0, w')" "registry_list (cw_devices w') (remove1 a xs)"
        "rg_heap (cw_devices w') = (rg_heap (cw_devices w))(a := None)"
        "\<forall>b. b \<noteq> a \<longrightarrow> rg_count (cw_devices w') b = rg_count (cw_devices w) b" by blast
    have "distinct xs" using xs(1) by (simp add: registry_list_def)
    then have "rg_heap (cw_devices w') b \<noteq> None \<Longrightarrow> b \<in> set (remove1 a xs)" for b
      using xs(2) w'(3) by (auto split: if_splits)
    then have "devices_ok w'" using w'(2) by (auto simp: devices_ok_def)
    moreover have "n = 1" using True n by simp
    moreover have "device_refs w' = (device_refs w)(a := None)"
      using w'(3,4) by (auto simp: device_refs_def fun_eq_iff)
    ultimately show ?thesis using w'(1) by auto
  qed
qed

interpretation dev: refcounted devices_ok device_refs "\<lambda>a w. snd (device_add_ref a w)"
  "\<lambda>a w. map_option snd (device_release a w)" "2 ^ 32"
proof
  fix w :: com and a n
  assume "devices_ok w" "device_refs w a = Some n"
  then show "Suc n < 2 ^ 32 \<Longrightarrow> devices_ok (snd (device_add_ref a w))
      \<and> device_refs (snd (device_add_ref a w)) = (device_refs w)(a := Some (Suc n))"
    by (rule device_add_ref_ok)
  show "\<exists>s'. map_option snd (device_release a w) = Some s' \<and> devices_ok s'
      \<and> device_refs s' = (device_refs w)(a := (if n \<le> 1 then None else Some (n - 1)))"
    using device_release_ok[OF \<open>devices_ok w\<close> \<open>device_refs w a = Some n\<close>] by auto
qed

section \<open>Publication keeps the books\<close>

text \<open>The state of the world while a candidate \<open>c\<close> for the real interface \<open>r\<close> exists, unpublished.\<close>

definition candidate :: "nat \<Rightarrow> wdevice \<Rightarrow> com \<Rightarrow> com \<Rightarrow> bool" where
  "candidate c d w v \<longleftrightarrow> (\<exists>xs. registry_list (cw_devices v) xs \<and> c \<notin> set xs
     \<and> (\<forall>a. rg_heap (cw_devices v) a \<noteq> None \<longrightarrow> a \<in> set xs \<or> a = c))
     \<and> rg_heap (cw_devices v) = (rg_heap (cw_devices w))(c := Some d)
     \<and> rg_count (cw_devices v) c = 1 \<and> rg_heap (cw_devices w) c = None
     \<and> (\<forall>b. b \<noteq> c \<longrightarrow> rg_count (cw_devices v) b = rg_count (cw_devices w) b)"

lemma candidate_release:
  assumes "candidate c d w v"
  shows "\<exists>v'. device_release c v = Some (0, v') \<and> devices_ok v' \<and> device_refs v' = device_refs w
    \<and> rg_heap (cw_devices v') = rg_heap (cw_devices w)
    \<and> cw_refs v' = cw_refs (real_release (wd_real_w d) (real_release (wd_real_a d) v))
    \<and> cw_events v' = cw_events v"
proof -
  from assms obtain xs where xs: "registry_list (cw_devices v) xs" "c \<notin> set xs"
    "\<forall>a. rg_heap (cw_devices v) a \<noteq> None \<longrightarrow> a \<in> set xs \<or> a = c" by (auto simp: candidate_def)
  have h: "rg_heap (cw_devices v) c = Some d" "rg_count (cw_devices v) c = 1"
    using assms by (simp_all add: candidate_def)
  from device_release_last[OF xs(1) h] obtain v' where
    v': "device_release c v = Some (0, v')" "registry_list (cw_devices v') (remove1 c xs)"
      "rg_heap (cw_devices v') = (rg_heap (cw_devices v))(c := None)"
      "\<forall>b. b \<noteq> c \<longrightarrow> rg_count (cw_devices v') b = rg_count (cw_devices v) b"
      "cw_refs v' = cw_refs (real_release (wd_real_w d) (real_release (wd_real_a d) v))"
      "cw_events v' = cw_events v" by blast
  have "remove1 c xs = xs" using xs(2) by (simp add: remove1_idem)
  then have "devices_ok v'"
    using v'(2,3) xs(3) by (auto simp: devices_ok_def intro!: exI[of _ xs] split: if_splits)
  moreover have "device_refs v' b = device_refs w b" for b
    using v'(3,4) assms by (auto simp: device_refs_def candidate_def)
  then have "device_refs v' = device_refs w" by (rule ext)
  moreover have "rg_heap (cw_devices v') = rg_heap (cw_devices w)"
    using v'(3) assms by (auto simp: candidate_def fun_eq_iff)
  ultimately show ?thesis using v' by blast
qed

lemma candidate_discard:
  assumes "candidate c d w v"
  shows "\<exists>v'. discard_unpublished U c v = Some v' \<and> devices_ok v' \<and> device_refs v' = device_refs w
    \<and> rg_heap (cw_devices v') = rg_heap (cw_devices w)
    \<and> cw_refs v' = cw_refs (real_release (if U then wd_real_a d else wd_real_w d) v)
    \<and> cw_events v' = cw_events v"
proof -
  let ?v = "device_update c (detach_real U) v"
  have eq: "registry_list (cw_devices ?v) xs = registry_list (cw_devices v) xs" for xs
    using assms by (auto simp: registry_list_def device_update_def candidate_def)
  have same: "(rg_heap (cw_devices ?v) a \<noteq> None) = (rg_heap (cw_devices v) a \<noteq> None)" for a
    by (auto simp: device_update_def)
  have "rg_heap (cw_devices ?v) = (rg_heap (cw_devices w))(c := Some (detach_real U d))"
    "rg_count (cw_devices ?v) = rg_count (cw_devices v)"
    using assms by (auto simp: candidate_def device_update_def)
  moreover obtain xs where "registry_list (cw_devices v) xs" "c \<notin> set xs"
    "\<forall>a. rg_heap (cw_devices v) a \<noteq> None \<longrightarrow> a \<in> set xs \<or> a = c"
    using assms by (auto simp: candidate_def)
  then have "\<exists>xs. registry_list (cw_devices ?v) xs \<and> c \<notin> set xs
      \<and> (\<forall>a. rg_heap (cw_devices ?v) a \<noteq> None \<longrightarrow> a \<in> set xs \<or> a = c)"
    unfolding eq same by blast
  ultimately have "candidate c (detach_real U d) w ?v"
    using assms unfolding candidate_def by (simp only: simp_thms) blast
  from candidate_release[OF this] show ?thesis
    by (auto simp: discard_unpublished_def detach_real_def device_update_def real_release_def
        split: option.splits)
qed


lemma device_matches_live: "device_matches r i w a \<Longrightarrow> rg_heap (cw_devices w) a \<noteq> None"
  by (auto simp: device_matches_def split: option.splits)

lemma devices_ok_count: "devices_ok w \<Longrightarrow> device_refs w a = Some n \<Longrightarrow> 0 < n"
  by (auto simp: devices_ok_def device_refs_def registry_list_def unat_gt_0 split: if_splits)

text \<open>The three outcomes of publishing a real interface \<open>r\<close>.\<close>

definition published_outcome ::
  "bool \<Rightarrow> nat \<Rightarrow> u32 \<Rightarrow> device_env \<Rightarrow> com \<Rightarrow> nat option \<times> bool \<times> com \<Rightarrow> bool" where
  "published_outcome U r dev env w res =
     (case res of
        (None, created, w') \<Rightarrow> \<not> created \<and> device_refs w' = device_refs w \<and> cw_refs w' = cw_refs w
      | (Some a, True, w') \<Rightarrow> device_refs w a = None \<and> device_refs w' = (device_refs w)(a := Some 1)
          \<and> rg_heap (cw_devices w') a = Some (device_construct U r dev env)
          \<and> device_valid (device_construct U r dev env)
          \<and> cw_refs w' = (case de_alias env of None \<Rightarrow> cw_refs w
              | Some alias \<Rightarrow> cw_refs (real_add_ref alias w))
      | (Some a, False, w') \<Rightarrow> device_matches r (de_identity env) w a
          \<and> device_refs w' = (device_refs w)(a := map_option Suc (device_refs w a))
          \<and> rg_heap (cw_devices w') a = rg_heap (cw_devices w) a
          \<and> cw_refs w' = cw_refs (real_release (Some r) w))"

lemma refs_alias_release:
  assumes "d = device_construct U r dev env"
    and "v = (case de_alias env of None \<Rightarrow> w | Some alias \<Rightarrow> real_add_ref alias w)"
  shows "cw_refs (real_release (if U then wd_real_a d else wd_real_w d) v) = cw_refs w"
    and "cw_refs (real_release (wd_real_w d) (real_release (wd_real_a d) v)) = cw_refs (real_release (Some r) w)"
  using assms by (auto simp: device_construct_def Let_def real_release_def real_add_ref_def
      fun_eq_iff split: option.splits)

lemma real_release_cong: "cw_refs v = cw_refs w \<Longrightarrow> cw_refs (real_release p v) = cw_refs (real_release p w)"
  by (simp add: real_release_def split: option.split)

lemma publish_outcome:
  assumes ok: "devices_ok w" and small: "\<forall>a n. device_refs w a = Some n \<longrightarrow> Suc n < 2 ^ 32"
  shows "\<exists>res w'. publish_or_add_ref U (Some r) dev env w = Some res \<and> w' = snd (snd res)
    \<and> devices_ok w' \<and> cw_events w' = cw_events w \<and> published_outcome U r dev env w res"
proof (cases "de_candidate env \<and> de_state env")
  case False
  with ok show ?thesis by (auto simp: publish_or_add_ref_def published_outcome_def)
next
  case alloc: True
  define d where "d = device_construct U r dev env"
  define u where "u = (case de_alias env of None \<Rightarrow> w | Some alias \<Rightarrow> real_add_ref alias w)"
  have u: "cw_devices u = cw_devices w" "cw_events u = cw_events w"
    by (simp_all add: u_def real_add_ref_def split: option.split)
  from ok obtain xs where xs: "registry_list (cw_devices w) xs"
    "\<forall>a. rg_heap (cw_devices w) a \<noteq> None \<longrightarrow> a \<in> set xs" by (auto simp: devices_ok_def)
  obtain c devs where new: "reg_new d (cw_devices w) = (c, devs)" by fastforce
  note n = registry_new[OF xs(1) new]
  let ?v = "u\<lparr>cw_devices := devs\<rparr>"
  have cand: "candidate c d w ?v"
    using n xs(2) by (auto simp: candidate_def intro!: exI[of _ xs])
  have refs_v: "cw_refs ?v = cw_refs u" "cw_events ?v = cw_events w" by (simp_all add: u)
  have pub: "publish_or_add_ref U (Some r) dev env w =
      (if \<not> device_valid d then map_option (\<lambda>w. (None, False, w)) (discard_unpublished U c ?v)
       else (case reg_search (device_matches r (wd_identity d) ?v) devs of
               None \<Rightarrow> None
             | Some None \<Rightarrow> Some (Some c, True, ?v\<lparr>cw_devices := reg_register c (cw_devices ?v)\<rparr>)
             | Some (Some a) \<Rightarrow>
                (case rg_heap (cw_devices ?v) a of None \<Rightarrow> None
                 | Some old \<Rightarrow>
                     if has_wrapper U old then
                       map_option (\<lambda>(n, w). (Some a, False, w)) (device_release c (snd (device_add_ref a ?v)))
                     else map_option (\<lambda>w. (None, False, w)) (discard_unpublished U c ?v))))"
    using alloc new u
    by (simp add: publish_or_add_ref_def Let_def flip: d_def u_def)
  from candidate_discard[OF cand] obtain v' where v': "discard_unpublished U c ?v = Some v'"
    "devices_ok v'" "device_refs v' = device_refs w"
    "cw_refs v' = cw_refs (real_release (if U then wd_real_a d else wd_real_w d) ?v)"
    "cw_events v' = cw_events ?v" by blast
  have "cw_refs v' = cw_refs w"
    using v'(4) real_release_cong[OF refs_v(1)] refs_alias_release(1)[OF d_def u_def] by simp
  with v' refs_v have discard: ?thesis
    if "publish_or_add_ref U (Some r) dev env w = map_option (\<lambda>w. (None, False, w)) (discard_unpublished U c ?v)"
    using that by (simp add: published_outcome_def)
  show ?thesis
  proof (cases "device_valid d")
    case False
    with pub discard show ?thesis by simp
  next
    case valid: True
    have search: "reg_search P devs = Some (List.find P xs)" for P by (rule reg_search_list[OF n(1)])
    show ?thesis
    proof (cases "List.find (device_matches r (wd_identity d) ?v) xs")
      case None
      let ?w = "?v\<lparr>cw_devices := reg_register c devs\<rparr>"
      have "registry_list (reg_register c devs) (c # xs)"
        using n by (intro registry_register) auto
      with n xs(2) have "devices_ok ?w"
        by (auto simp: devices_ok_def reg_register_def intro!: exI[of _ "c # xs"])
      moreover have "device_refs ?w = (device_refs w)(c := Some 1)" "device_refs w c = None"
        using n by (auto simp: device_refs_def reg_register_def fun_eq_iff)
      moreover have "cw_refs ?w = (case de_alias env of None \<Rightarrow> cw_refs w
              | Some alias \<Rightarrow> cw_refs (real_add_ref alias w))"
        by (simp add: u_def split: option.split)
      moreover have "rg_heap (cw_devices ?w) c = Some (device_construct U r dev env)"
        using n(5) by (simp add: reg_register_def d_def)
      ultimately show ?thesis
        using pub valid None search u by (simp add: published_outcome_def flip: d_def)
    next
      case (Some a)
      then have "device_matches r (wd_identity d) ?v a" and "a \<in> set xs"
        by (auto simp: find_Some_iff)
      moreover have "wd_identity d = de_identity env"
        by (simp add: d_def device_construct_def Let_def)
      moreover have ac: "a \<noteq> c" using \<open>a \<in> set xs\<close> n(2) by auto
      ultimately have a: "a \<noteq> c" "device_matches r (de_identity env) w a"
        using n(5) by (simp_all add: device_matches_def)
      then obtain old where old: "rg_heap (cw_devices w) a = Some old"
        using device_matches_live by fastforce
      then have old': "rg_heap devs a = Some old" using n(5) a(1) by simp
      show ?thesis
      proof (cases "has_wrapper U old")
        case False
        with pub valid Some search old' discard show ?thesis by simp
      next
        case True
        obtain k where k: "device_refs w a = Some k" using old by (auto simp: device_refs_def)
        let ?w1 = "snd (device_add_ref a w)" and ?v1 = "snd (device_add_ref a ?v)"
        from device_add_ref_ok[OF ok k] small k
        have 1: "device_refs ?w1 = (device_refs w)(a := Some (Suc k))" by blast
        have "rg_count (cw_devices w) a + 1 \<noteq> 0"
        proof -
          have "Suc k < 2 ^ 32" using small k by blast
          moreover have "k = unat (rg_count (cw_devices w) a)"
            using k by (auto simp: device_refs_def split: if_splits)
          ultimately have "unat (rg_count (cw_devices w) a + 1) = Suc k" using unat_plus_one by blast
          then show ?thesis by auto
        qed
        moreover have "rg_count devs a = rg_count (cw_devices w) a" using n(6) a(1) by simp
        ultimately have reg: "registry_list (snd (reg_add_ref a devs)) xs"
          using n(1) by (intro registry_add_ref) simp_all
        have "candidate c d ?w1 ?v1"
          using cand a(1) reg n(2) xs(2) n(5)
          by (auto simp: candidate_def device_add_ref_def reg_add_ref_def Let_def intro!: exI[of _ xs])
        from candidate_release[OF this] obtain v2 where v2: "device_release c ?v1 = Some (0, v2)"
          "devices_ok v2" "device_refs v2 = device_refs ?w1"
          "rg_heap (cw_devices v2) = rg_heap (cw_devices ?w1)"
          "cw_refs v2 = cw_refs (real_release (wd_real_w d) (real_release (wd_real_a d) ?v1))"
          "cw_events v2 = cw_events ?v1" by blast
        have "cw_refs ?v1 = cw_refs u" "cw_events ?v1 = cw_events w"
          by (simp_all add: device_add_ref_def reg_add_ref_def Let_def u)
        then have "cw_refs v2 = cw_refs (real_release (Some r) w)" "cw_events v2 = cw_events w"
          using v2(5,6) refs_alias_release(2)[OF d_def u_def] real_release_cong by metis+
        moreover have "rg_heap (cw_devices ?w1) = rg_heap (cw_devices w)"
          by (simp add: device_add_ref_def reg_add_ref_def Let_def)
        ultimately show ?thesis
          using pub valid Some search old' True v2 1 a k by (simp add: published_outcome_def)
      qed
    qed
  qed
qed

section \<open>The playback gate\<close>

text \<open>The calls of an application on one device that may move the gate, each with the answer of the
  real device.\<close>

datatype device_call = CallAcquire i32 | CallUnacquire i32 | CallGetState i32 | CallGetData i32 | CallPoll i32

fun device_step :: "nat \<Rightarrow> u32 \<Rightarrow> device_call \<Rightarrow> com \<Rightarrow> com" where
  "device_step a dev (CallAcquire hr) w = snd (device_acquire (Some a) dev hr w)"
| "device_step a dev (CallUnacquire hr) w = snd (device_unacquire (Some a) dev hr w)"
| "device_step a dev (CallGetState hr) w = snd (device_get_state (Some a) dev hr w)"
| "device_step a dev (CallGetData hr) w = snd (device_get_data (Some a) dev hr w)"
| "device_step a dev (CallPoll hr) w = snd (device_poll (Some a) dev hr w)"

definition gate_closed :: "com \<Rightarrow> nat \<Rightarrow> bool" where
  "gate_closed w a = (case rg_heap (cw_devices w) a of None \<Rightarrow> True | Some d \<Rightarrow> wd_invalidated d)"

fun opens :: "device_call \<Rightarrow> bool" where
  "opens (CallAcquire hr) = succeeded hr"
| "opens _ = False"

fun closes :: "device_call \<Rightarrow> bool" where
  "closes (CallAcquire hr) = acquisition_is_lost hr"
| "closes (CallUnacquire hr) = succeeded hr"
| "closes (CallGetState hr) = acquisition_is_lost hr"
| "closes (CallGetData hr) = acquisition_is_lost hr"
| "closes (CallPoll hr) = acquisition_is_lost hr"

lemma lost_not_succeeded: "acquisition_is_lost hr \<Longrightarrow> \<not> succeeded hr"
  by (auto simp: acquisition_is_lost_def succeeded_def DIERR_INPUTLOST_def DIERR_NOTACQUIRED_def
      DIERR_OTHERAPPHASPRIO_def)

lemma invalidate_gate:
  assumes "rg_heap (cw_devices w) a \<noteq> None"
  shows "gate_closed (invalidate_playback (Some a) dev hr w) a"
    and "rg_heap (cw_devices (invalidate_playback (Some a) dev hr w)) a \<noteq> None"
    and "length (cw_events (invalidate_playback (Some a) dev hr w))
      = length (cw_events w) + (if gate_closed w a then 0 else 1)"
  using assms by (auto simp: invalidate_playback_def Let_def gate_closed_def device_update_def
      emit_device_command_def emit_event_def)

lemma device_call_gate:
  assumes "rg_heap (cw_devices w) a \<noteq> None"
  shows "rg_heap (cw_devices (device_step a dev c w)) a \<noteq> None
    \<and> gate_closed (device_step a dev c w) a = (closes c \<or> gate_closed w a \<and> \<not> opens c)
    \<and> length (cw_events (device_step a dev c w))
      = length (cw_events w) + (if closes c \<and> \<not> gate_closed w a then 1 else 0)"
proof (cases c)
  case (CallAcquire hr)
  show ?thesis
  proof (cases "succeeded hr")
    case True
    with CallAcquire assms lost_not_succeeded[of hr] show ?thesis
      by (auto simp: device_acquire_def gate_closed_def device_update_def)
  next
    case False
    with CallAcquire assms invalidate_gate[OF assms, of dev DI_OK] show ?thesis
      by (auto simp: device_acquire_def)
  qed
qed (use assms invalidate_gate[OF assms, of dev] in
    \<open>auto simp: device_unacquire_def device_get_state_def device_get_data_def device_poll_def\<close>)

definition device_calls :: "nat \<Rightarrow> u32 \<Rightarrow> device_call list \<Rightarrow> com \<Rightarrow> com" where
  "device_calls a dev cs w = fold (device_step a dev) cs w"

lemma device_calls_bound:
  assumes "rg_heap (cw_devices w) a \<noteq> None"
  shows "length (cw_events (device_calls a dev cs w))
      + (if gate_closed (device_calls a dev cs w) a then 0 else 1)
    \<le> length (cw_events w) + (if gate_closed w a then 0 else 1) + length (filter opens cs)"
  using assms
proof (induction cs arbitrary: w)
  case (Cons c cs)
  note g = device_call_gate[OF Cons.prems, of dev c]
  from Cons.IH[of "device_step a dev c w"] g
  have "length (cw_events (device_calls a dev (c # cs) w))
      + (if gate_closed (device_calls a dev (c # cs) w) a then 0 else 1)
    \<le> length (cw_events (device_step a dev c w)) + (if gate_closed (device_step a dev c w) a then 0 else 1)
      + length (filter opens cs)"
    by (simp add: device_calls_def)
  also have "\<dots> \<le> length (cw_events w) + (if gate_closed w a then 0 else 1) + length (filter opens (c # cs))"
    using g by (auto simp: Let_def)
  finally show ?case .
qed (simp add: device_calls_def)

lemma device_calls_silent:
  assumes "rg_heap (cw_devices w) a \<noteq> None" and "gate_closed w a" and "\<forall>c \<in> set cs. \<not> opens c"
  shows "length (cw_events (device_calls a dev cs w)) = length (cw_events w)"
  using assms
proof (induction cs arbitrary: w)
  case (Cons c cs)
  note g = device_call_gate[OF Cons.prems(1), of dev c]
  with Cons.prems have "gate_closed (device_step a dev c w) a" "rg_heap (cw_devices (device_step a dev c w)) a \<noteq> None"
    by auto
  with Cons.IH[of "device_step a dev c w"] Cons.prems g show ?case by (simp add: device_calls_def)
qed (simp add: device_calls_def)

section \<open>The properties\<close>

lemma empty_devices_ok: "devices_ok empty_com"
  by (auto simp: devices_ok_def empty_com_def empty_registry_def intro!: exI[of _ "[]"]
      registry_empty[unfolded empty_registry_def])

definition sample_env :: device_env where
  "sample_env = \<lparr>de_candidate = True, de_state = True, de_alias = Some 11, de_alias_wrapper = True,
     de_identity = Some 12\<rparr>"



text \<open>A device control block lives exactly until its last reference: \<open>k\<close> additional references
  and \<open>k\<close> releases, through any of its A and W wrappers, leave every count as it was.\<close>

theorem device_references_balance:
  assumes "devices_ok w" and "device_refs w a = Some n" and "0 < n" and "n + k < 2 ^ 32"
  shows "\<exists>w'. dev.release_many k a (dev.retain_many k a w) = Some w' \<and> devices_ok w'
    \<and> device_refs w' = device_refs w"
  using dev.balanced[OF assms] by blast

theorem device_references_balance_witness:
  "\<exists>w w'. device_refs w 0 = Some 1 \<and> dev.release_many 5 0 (dev.retain_many 5 0 w) = Some w'
    \<and> device_refs w' 0 = Some 1"
proof -
  let ?d = "device_construct True 3 1 sample_env"
  let ?w = "empty_com\<lparr>cw_devices := reg_register 0 (snd (reg_new ?d empty_registry))\<rparr>"
  have "reg_new ?d empty_registry = (0, snd (reg_new ?d empty_registry))"
    by (simp add: reg_new_def empty_registry_def Let_def)
  note n = registry_new[OF registry_empty this]
  have "registry_list (reg_register 0 (snd (reg_new ?d empty_registry))) [0]"
    using n by (intro registry_register) auto
  then have ok: "devices_ok ?w"
    using n by (auto simp: devices_ok_def reg_register_def empty_registry_def intro!: exI[of _ "[0]"] split: if_splits)
  have one: "device_refs ?w 0 = Some 1" using n by (simp add: device_refs_def reg_register_def)
  from device_references_balance[OF ok one, of 5] one show ?thesis by auto
qed



text \<open>C21: creating an effect fails open.  With an out pointer and a real device, the game gets the
  real answer; it gets a wrapper around exactly the real effect when the call succeeded without
  aggregation and the wrapper could be allocated, and otherwise what the real device returned; and
  telemetry gets exactly one event, with the answer and whether parameters were given.\<close>

theorem create_effect_fails_open:
  assumes "device_create_effect a True (Some m) dev guid params outer hr real_out alloc ident w = (hr', p, w')"
  shows "hr' = hr
    \<and> (case real_out of None \<Rightarrow> p = INull
       | Some r \<Rightarrow> if succeeded hr \<and> \<not> outer \<and> alloc
           then \<exists>e. p = IEffect e \<and> effect_matches r ident w' e \<and> rg_registered (cw_effects w') e
           else p = IReal r \<and> cw_effects w' = cw_effects w)
    \<and> (\<exists>event. cw_events w' = cw_events w @ [event] \<and> ev_type event = EffectCreated
        \<and> ev_hresult event = hr
        \<and> ev_presence event = (if params = NullPtr then PresenceAbsent else PresencePresent))"
proof -
  have pres: "ev_presence (fill_effect_parameters a x eff) = ev_presence x" for x eff
  proof -
    have "kept_by_stores cap k (\<lambda>e. ev_presence e = ev_presence x \<and> ev_effect_kind e = k)" for cap k
      unfolding kept_by_stores_def store_condition_word_def by simp
    from fill_effect_parameters_all[OF this, where a = a and eff = eff and e = x] show ?thesis by (simp add: fill_handler_def)
  qed
  have head: "ev_type (fill_effect_parameters a x eff) = ev_type x"
    "ev_hresult (fill_effect_parameters a x eff) = ev_hresult x" for x eff
    using fill_header[of a x eff] by (simp_all add: event_header_def)
  from assms show ?thesis
    by (auto simp: device_create_effect_def emit_effect_def emit_event_def next_effect_id_def
        effect_new_def reg_new_def reg_register_def Let_def pres head effect_matches_def
        split: option.splits if_splits)
qed

theorem create_effect_fails_open_witness:
  "\<exists>event. cw_events (snd (snd (device_create_effect X64 True (Some 1) 1 GUID_Sine NullPtr False 0 (Some 5)
      False None empty_com))) = [event] \<and> ev_presence event = PresenceAbsent"
proof -
  obtain hr p w' where r: "device_create_effect X64 True (Some 1) 1 GUID_Sine NullPtr False 0 (Some 5)
      False None empty_com = (hr, p, w')" by (metis prod_cases3)
  from create_effect_fails_open[OF r] r show ?thesis by (auto simp: empty_com_def)
qed

text \<open>C22: setting any property faults.  \<open>DIPROP_FFGAIN\<close> is a reference to address 7, which no process
  can read, and the code compares through it, outside its exception handler and whatever property
  was set; so \<open>SetProperty\<close> never returns to the game.\<close>

theorem set_property_faults:
  assumes "\<forall>x < 0x10000. mem x = None"
  shows "device_set_property mem dev prop header hr w = None"
proof -
  have "mem 7 = None" using assms by simp
  then have "is_equal_guid mem prop DIPROP_FFGAIN = None"
    by (simp add: is_equal_guid_def DIPROP_FFGAIN_def numeral_eq_Suc split: option.split)
  then show ?thesis by (simp add: device_set_property_def emit_property_def)
qed

theorem set_property_faults_witness:
  "device_set_property (\<lambda>x. if x < 0x10000 then None else Some 0) 1 1 NullPtr DI_OK empty_com = None"
  by (rule set_property_faults) simp

end
