(* ===== verification/Com_Input.thy ===== *)
theory Com_Input imports Com_Device begin

text \<open>
  \<open>WrapperDirectInput8\<close> of \<open>src/wrapper_dinput8.cpp\<close>, and the interception of
  \<open>DirectInput8Create\<close> (\<open>src/intercept_create.cpp\<close>).  Like a device, a DirectInput wrapper is its
  control block and the flag of its half; the blocks are not registered.  A result of \<open>None\<close> means
  the call does not return.
\<close>

section \<open>Names of devices\<close>

text \<open>\<open>info\<close> is the product name of the device (\<open>None\<close> when the query fails); the converters are
  empty on failure.\<close>

definition product_name_w :: "(wstring \<Rightarrow> byte list) \<Rightarrow> wstring option \<Rightarrow> byte list" where
  "product_name_w to_utf8 info =
     (case info of None \<Rightarrow> [] | Some name \<Rightarrow> to_utf8 (takeWhile (\<lambda>c. c \<noteq> 0) name))"

definition product_name_a ::
  "(byte list \<Rightarrow> wstring) \<Rightarrow> (wstring \<Rightarrow> byte list) \<Rightarrow> byte list option \<Rightarrow> byte list" where
  "product_name_a to_wide to_utf8 info =
     (case info of None \<Rightarrow> []
      | Some name \<Rightarrow>
          let w = to_wide (takeWhile (\<lambda>c. c \<noteq> 0) name) in
          if w = [] then [] else to_utf8 (takeWhile (\<lambda>c. c \<noteq> 0) w))"

definition emit_device :: "u32 \<Rightarrow> GUID \<Rightarrow> i32 \<Rightarrow> byte list \<Rightarrow> com \<Rightarrow> com" where
  "emit_device dev guid hr name w =
     emit_event (empty_event\<lparr>ev_type := DeviceCreated, ev_process_id := cw_pid w,
       ev_device_id := dev, ev_effect_guid := guid, ev_hresult := hr,
       ev_text := (case copy_utf8_truncated (Some (ev_text empty_event)) 64 (Some name) (length name) of
                     (Some t, _) \<Rightarrow> t | (None, _) \<Rightarrow> ev_text empty_event)\<rparr>) w"

section \<open>The control block\<close>

definition input_valid :: "winput \<Rightarrow> bool" where
  "input_valid d \<longleftrightarrow> (wi_real_a d \<noteq> None \<longrightarrow> wi_wrapper_a d) \<and> (wi_real_w d \<noteq> None \<longrightarrow> wi_wrapper_w d)"

definition input_canonical :: "nat \<Rightarrow> winput \<Rightarrow> iface" where
  "input_canonical a d = (if wi_wrapper_a d then IInput False a else IInput True a)"

definition input_add_ref :: "nat \<Rightarrow> com \<Rightarrow> u32 \<times> com" where
  "input_add_ref a w = (case reg_add_ref a (cw_inputs w) of (n, r) \<Rightarrow> (n, w\<lparr>cw_inputs := r\<rparr>))"

definition input_release :: "nat \<Rightarrow> com \<Rightarrow> (u32 \<times> com) option" where
  "input_release a w =
     (let n = rg_count (cw_inputs w) a - 1;
          r = (cw_inputs w)\<lparr>rg_count := (rg_count (cw_inputs w))(a := n)\<rparr>
      in if n = 0 then
           (case rg_heap r a of
              None \<Rightarrow> None
            | Some d \<Rightarrow> Some (n, real_release (wi_real_w d) (real_release (wi_real_a d)
                (w\<lparr>cw_inputs := reg_delete a r\<rparr>))))
         else Some (n, w\<lparr>cw_inputs := r\<rparr>))"

definition input_construct :: "bool \<Rightarrow> nat \<Rightarrow> device_env \<Rightarrow> winput" where
  "input_construct U real env =
     (let alias_wrapper = de_alias env \<noteq> None \<and> de_alias_wrapper env in
      \<lparr>wi_real_a = (if U then de_alias env else Some real),
       wi_real_w = (if U then Some real else de_alias env),
       wi_wrapper_a = (if U then alias_wrapper else True),
       wi_wrapper_w = (if U then True else alias_wrapper)\<rparr>)"

definition input_detach :: "bool \<Rightarrow> winput \<Rightarrow> winput" where
  "input_detach U d = (if U then d\<lparr>wi_real_w := None\<rparr> else d\<lparr>wi_real_a := None\<rparr>)"

definition input_discard :: "bool \<Rightarrow> nat \<Rightarrow> com \<Rightarrow> com option" where
  "input_discard U a w =
     map_option snd (input_release a (w\<lparr>cw_inputs := (cw_inputs w)\<lparr>rg_heap :=
       (rg_heap (cw_inputs w))(a := map_option (input_detach U) (rg_heap (cw_inputs w) a))\<rparr>\<rparr>))"

definition input_query_interface ::
  "nat option \<Rightarrow> iid \<Rightarrow> bool \<Rightarrow> nat option \<Rightarrow> i32 \<times> iface \<Rightarrow> com \<Rightarrow> i32 \<times> iface \<times> com" where
  "input_query_interface st riid valid_out real forwarded w =
     (if \<not> valid_out then (E_POINTER, INull, w)
      else case st of
        None \<Rightarrow> (E_NOINTERFACE, INull, w)
      | Some a \<Rightarrow>
         (case rg_heap (cw_inputs w) a of
            None \<Rightarrow> (E_NOINTERFACE, INull, w)
          | Some d \<Rightarrow>
              if riid = IID_IUnknown then (S_OK, input_canonical a d, snd (input_add_ref a w))
              else if riid = IID_IDirectInput8 False \<and> wi_wrapper_a d then
                (S_OK, IInput False a, snd (input_add_ref a w))
              else if riid = IID_IDirectInput8 True \<and> wi_wrapper_w d then
                (S_OK, IInput True a, snd (input_add_ref a w))
              else (case real of None \<Rightarrow> (E_NOINTERFACE, INull, w)
                    | Some _ \<Rightarrow> (fst forwarded, snd forwarded, w))))"

section \<open>CreateDevice and EnumDevicesBySemantics\<close>

definition create_device ::
  "bool \<Rightarrow> bool \<Rightarrow> nat option \<Rightarrow> GUID \<Rightarrow> bool \<Rightarrow> i32 \<Rightarrow> nat option \<Rightarrow> byte list \<Rightarrow> device_env
    \<Rightarrow> com \<Rightarrow> (i32 \<times> iface \<times> com) option" where
  "create_device U valid_out m_real guid outer hr real_out name env w =
     (if \<not> valid_out then Some (E_POINTER, INull, w)
      else if m_real = None then Some (DIERR_NOTINITIALIZED, INull, w)
      else
        case real_out of
          None \<Rightarrow> Some (hr, INull, emit_device 0 guid hr [] w)
        | Some r \<Rightarrow>
            if \<not> succeeded hr then Some (hr, INull, emit_device 0 guid hr [] w)
            else if outer then Some (hr, IReal r, emit_device 0 guid hr [] w)
            else
              (case next_device_id w of
                 (dev, w) \<Rightarrow>
                   (case publish_or_add_ref U (Some r) dev env w of
                      None \<Rightarrow> None
                    | Some (None, created, w) \<Rightarrow> Some (hr, IReal r, w)
                    | Some (Some a, created, w) \<Rightarrow>
                        (case rg_heap (cw_devices w) a of
                           None \<Rightarrow> None
                         | Some d \<Rightarrow>
                             if \<not> device_valid d then Some (hr, IReal r, w)
                             else Some (hr, IDevice U a,
                               if created then emit_device dev guid hr name w else w)))))"

text \<open>\<open>app\<close> is the application's callback; \<open>None\<close> for a null pointer.\<close>

definition semantics_callback ::
  "bool \<Rightarrow> (iface \<Rightarrow> com \<Rightarrow> (u32 \<times> com) option) option \<Rightarrow> nat option \<Rightarrow> GUID option \<Rightarrow> byte list
    \<Rightarrow> device_env \<Rightarrow> com \<Rightarrow> (u32 \<times> com) option" where
  "semantics_callback U callback real guid name env w =
     (case callback of
        None \<Rightarrow> Some (DIENUM_STOP, w)
      | Some app \<Rightarrow>
         (case real of
            None \<Rightarrow> app INull w
          | Some r \<Rightarrow>
             (case next_device_id (real_add_ref r w) of
                (dev, w) \<Rightarrow>
                  (case publish_or_add_ref U (Some r) dev env w of
                     None \<Rightarrow> None
                   | Some (None, created, w) \<Rightarrow> app (IReal r) (real_release (Some r) w)
                   | Some (Some a, created, w) \<Rightarrow>
                       let w = (if created then
                                  emit_device dev (case guid of None \<Rightarrow> GUID_NULL | Some g \<Rightarrow> g) DI_OK name w
                                else w)
                       in (case app (IDevice U a) w of
                             None \<Rightarrow> None
                           | Some (result, w) \<Rightarrow>
                               map_option (\<lambda>(n, w). (result, w)) (device_release a w))))))"

section \<open>Intercepting DirectInput8Create\<close>

text \<open>\<open>original\<close> is the answer of the real function, \<open>None\<close> without one; \<open>Telemetry::start\<close> leaves
  this world as it is.\<close>

definition intercept_wrap :: "bool \<Rightarrow> nat \<Rightarrow> device_env \<Rightarrow> com \<Rightarrow> (iface \<times> com) option" where
  "intercept_wrap U r env w =
     (if \<not> de_candidate env \<or> \<not> de_state env then Some (IReal r, w)
      else
        let d = input_construct U r env;
            w = (case de_alias env of None \<Rightarrow> w | Some alias \<Rightarrow> real_add_ref alias w) in
        (case reg_new d (cw_inputs w) of
           (a, inputs) \<Rightarrow>
             let w = w\<lparr>cw_inputs := inputs\<rparr> in
             if input_valid d then Some (IInput U a, w)
             else map_option (\<lambda>w. (IReal r, w)) (input_discard U a w)))"

definition intercept_direct_input8_create ::
  "(i32 \<times> nat option) option \<Rightarrow> iid \<Rightarrow> bool \<Rightarrow> bool \<Rightarrow> device_env \<Rightarrow> com \<Rightarrow> (i32 \<times> iface \<times> com) option" where
  "intercept_direct_input8_create original riid valid_out outer env w =
     (if \<not> valid_out then Some (E_POINTER, INull, w)
      else case original of
        None \<Rightarrow> Some (DIERR_NOTINITIALIZED, INull, w)
      | Some (hr, None) \<Rightarrow> Some (hr, INull, w)
      | Some (hr, Some r) \<Rightarrow>
          if \<not> succeeded hr \<or> outer then Some (hr, IReal r, w)
          else
            (case riid of
               IID_IDirectInput8 U \<Rightarrow> map_option (\<lambda>(p, w). (hr, p, w)) (intercept_wrap U r env w)
             | _ \<Rightarrow> Some (hr, IReal r, w)))"

section \<open>Properties of the blocks\<close>

definition input_refs :: "com \<Rightarrow> nat \<Rightarrow> nat option" where
  "input_refs w a =
     (if rg_heap (cw_inputs w) a = None then None else Some (unat (rg_count (cw_inputs w) a)))"

definition inputs_ok :: "com \<Rightarrow> bool" where
  "inputs_ok w \<longleftrightarrow> registry_list (cw_inputs w) []"

lemma input_add_ref_ok:
  assumes "inputs_ok w" and "input_refs w a = Some n" and "Suc n < 2 ^ 32"
  shows "inputs_ok (snd (input_add_ref a w))
    \<and> input_refs (snd (input_add_ref a w)) = (input_refs w)(a := Some (Suc n))"
proof -
  have n: "n = unat (rg_count (cw_inputs w) a)" "rg_heap (cw_inputs w) a \<noteq> None"
    using assms(2) by (auto simp: input_refs_def split: if_splits)
  then have c: "unat (rg_count (cw_inputs w) a + 1) = Suc n" using assms(3) unat_plus_one by simp
  then have "rg_count (cw_inputs w) a + 1 \<noteq> 0" by auto
  from registry_add_ref[OF assms(1)[unfolded inputs_ok_def] this] c n show ?thesis
    by (auto simp: inputs_ok_def input_add_ref_def reg_add_ref_def Let_def input_refs_def fun_eq_iff)
qed

lemma real_release_inputs [simp]: "cw_inputs (real_release p w) = cw_inputs w"
  by (simp add: real_release_def split: option.split)

lemma input_release_ok:
  assumes "inputs_ok w" and "input_refs w a = Some n"
  shows "\<exists>k w'. input_release a w = Some (k, w') \<and> inputs_ok w'
    \<and> input_refs w' = (input_refs w)(a := (if n \<le> 1 then None else Some (n - 1)))"
proof -
  obtain d where d: "rg_heap (cw_inputs w) a = Some d" and n: "n = unat (rg_count (cw_inputs w) a)"
    using assms(2) by (auto simp: input_refs_def split: if_splits)
  have l: "registry_list (cw_inputs w) []" using assms(1) by (simp add: inputs_ok_def)
  with d have nz: "rg_count (cw_inputs w) a \<noteq> 0" by (auto simp: registry_list_def)
  show ?thesis
  proof (cases "rg_count (cw_inputs w) a = 1")
    case False
    have "rg_count (cw_inputs w) a - 1 \<noteq> 0" using False by simp
    moreover have "\<not> n \<le> 1" using False nz n by (auto simp: le_Suc_eq word_unat_eq_iff)
    ultimately show ?thesis
      using d l nz n
      by (auto simp: input_release_def inputs_ok_def input_refs_def Let_def fun_eq_iff
          unat_minus_one_word registry_list_def)
  next
    case True
    then have "n = 1" using n by simp
    with True d l show ?thesis
      by (auto simp: input_release_def inputs_ok_def input_refs_def Let_def fun_eq_iff
          registry_list_def reg_delete_def)
  qed
qed

interpretation inp: refcounted inputs_ok input_refs "\<lambda>a w. snd (input_add_ref a w)"
  "\<lambda>a w. map_option snd (input_release a w)" "2 ^ 32"
proof
  fix w :: com and a n
  assume "inputs_ok w" "input_refs w a = Some n"
  then show "Suc n < 2 ^ 32 \<Longrightarrow> inputs_ok (snd (input_add_ref a w))
      \<and> input_refs (snd (input_add_ref a w)) = (input_refs w)(a := Some (Suc n))"
    by (rule input_add_ref_ok)
  show "\<exists>s'. map_option snd (input_release a w) = Some s' \<and> inputs_ok s'
      \<and> input_refs s' = (input_refs w)(a := (if n \<le> 1 then None else Some (n - 1)))"
    using input_release_ok[OF \<open>inputs_ok w\<close> \<open>input_refs w a = Some n\<close>] by auto
qed

section \<open>A lent interface is given back\<close>

lemma device_release_kept:
  assumes "device_refs w a = Some n" and "1 < n" and "device_release a w = Some (k, w')"
  shows "cw_refs w' = cw_refs w"
proof -
  from assms(1,2) have "rg_count (cw_devices w) a - 1 \<noteq> 0"
    by (auto simp: device_refs_def split: if_splits)
  with assms(3) show ?thesis
    by (auto simp: device_release_def reg_drop_ref_def Let_def split: option.splits)
qed

lemma device_release_only:
  assumes "devices_ok w" and "device_refs w a = Some 1" and "rg_heap (cw_devices w) a = Some d"
  shows "\<exists>w'. device_release a w = Some (0, w') \<and> device_refs w' = (device_refs w)(a := None)
    \<and> devices_ok w' \<and> cw_refs w' = cw_refs (real_release (wd_real_w d) (real_release (wd_real_a d) w))"
proof -
  have c: "rg_count (cw_devices w) a = 1"
    using assms(2) by (auto simp: device_refs_def word_unat_eq_iff split: if_splits)
  obtain xs where xs: "registry_list (cw_devices w) xs" using assms(1) by (auto simp: devices_ok_def)
  from device_release_last[OF xs assms(3) c] device_release_ok[OF assms(1,2)] show ?thesis by auto
qed

lemma emit_device_world [simp]:
  "cw_devices (emit_device dev guid hr name w) = cw_devices w"
  "cw_refs (emit_device dev guid hr name w) = cw_refs w"
  "cw_inputs (emit_device dev guid hr name w) = cw_inputs w"
  by (simp_all add: emit_device_def emit_event_def)

lemma devices_same: "cw_devices v = cw_devices w \<Longrightarrow> devices_ok v = devices_ok w"
  "cw_devices v = cw_devices w \<Longrightarrow> device_refs v = device_refs w"
  by (auto simp: devices_ok_def device_refs_def)

lemma semantics_balanced:
  assumes ok: "devices_ok w" and small: "\<forall>a n. device_refs w a = Some n \<longrightarrow> Suc n < 2 ^ 32"
    and app: "\<And>p v. \<exists>v'. app p v = Some (result, v') \<and> cw_devices v' = cw_devices v \<and> cw_refs v' = cw_refs v"
  shows "\<exists>w'. semantics_callback U (Some app) (Some r) guid name env w = Some (result, w')
    \<and> devices_ok w' \<and> device_refs w' = device_refs w \<and> cw_refs w' = cw_refs w"
proof -
  define w1 where "w1 = snd (next_device_id (real_add_ref r w))"
  define dev where "dev = fst (next_device_id (real_add_ref r w))"
  have id: "next_device_id (real_add_ref r w) = (dev, w1)" by (simp add: w1_def dev_def)
  have d1: "cw_devices w1 = cw_devices w" and r1: "cw_refs w1 = cw_refs (real_add_ref r w)"
    by (simp_all add: w1_def next_device_id_def real_add_ref_def)
  note s1 = devices_same[OF d1]
  have returned: "cw_refs (real_release (Some r) v) = cw_refs w" if "cw_refs v = cw_refs w1" for v
    using that r1 by (auto simp: real_release_def real_add_ref_def fun_eq_iff)
  from publish_outcome[of w1 U r dev env] ok small s1 obtain res created w2 where
    pub: "publish_or_add_ref U (Some r) dev env w1 = Some (res, created, w2)"
    and ok2: "devices_ok w2" and out: "published_outcome U r dev env w1 (res, created, w2)" by fastforce
  show ?thesis
  proof (cases res)
    case None
    with out have o: "device_refs w2 = device_refs w1" "cw_refs w2 = cw_refs w1"
      by (simp_all add: published_outcome_def)
    obtain v where v: "app (IReal r) (real_release (Some r) w2) = Some (result, v)"
      "cw_devices v = cw_devices w2" "cw_refs v = cw_refs (real_release (Some r) w2)"
      using app[of "IReal r" "real_release (Some r) w2"] by auto
    have "semantics_callback U (Some app) (Some r) guid name env w = Some (result, v)"
      using id pub None v(1) by (simp add: semantics_callback_def)
    with v o returned ok2 s1 devices_same[OF v(2)] show ?thesis by auto
  next
    case (Some a)
    let ?g = "case guid of None \<Rightarrow> GUID_NULL | Some g \<Rightarrow> g"
    define w3 where "w3 = (if created then emit_device dev ?g DI_OK name w2 else w2)"
    have w3: "cw_devices w3 = cw_devices w2" "cw_refs w3 = cw_refs w2" by (simp_all add: w3_def)
    obtain v where v: "app (IDevice U a) w3 = Some (result, v)" "cw_devices v = cw_devices w3"
      "cw_refs v = cw_refs w3" using app[of "IDevice U a" w3] by auto
    have vd: "cw_devices v = cw_devices w2" "cw_refs v = cw_refs w2" using v w3 by simp_all
    note vs = devices_same[OF vd(1)]
    have call: "semantics_callback U (Some app) (Some r) guid name env w
        = map_option (\<lambda>(n, w). (result, w)) (device_release a v)"
      using id pub Some v(1) by (simp add: semantics_callback_def Let_def w3_def)
    show ?thesis
    proof (cases created)
      case True
      with out Some have o: "device_refs w1 a = None" "device_refs w2 = (device_refs w1)(a := Some 1)"
        "rg_heap (cw_devices w2) a = Some (device_construct U r dev env)"
        "cw_refs w2 = cw_refs (case de_alias env of None \<Rightarrow> w1 | Some alias \<Rightarrow> real_add_ref alias w1)"
        by (auto simp: published_outcome_def split: option.splits)
      let ?d = "device_construct U r dev env"
      from device_release_only[of v a ?d] vs ok2 o(2,3) vd obtain w' where
        w': "device_release a v = Some (0, w')" "device_refs w' = (device_refs w2)(a := None)" "devices_ok w'"
          "cw_refs w' = cw_refs (real_release (wd_real_w ?d) (real_release (wd_real_a ?d) v))" by auto
      have "cw_refs w' = cw_refs (real_release (Some r) w1)"
        using w'(4) refs_alias_release(2)[OF refl refl, where U = U and r = r and dev = dev and env = env and w = w1]
          real_release_cong[OF real_release_cong[of v "case de_alias env of None \<Rightarrow> w1 | Some alias \<Rightarrow> real_add_ref alias w1"]]
          vd(2) o(4) by metis
      moreover have "device_refs w' = device_refs w" using w'(2) o(1,2) s1 by (auto simp: fun_eq_iff)
      ultimately show ?thesis using call w'(1,3) returned[of w1] by simp
    next
      case False
      with out Some have o: "device_matches r (de_identity env) w1 a"
        "device_refs w2 = (device_refs w1)(a := map_option Suc (device_refs w1 a))"
        "cw_refs w2 = cw_refs (real_release (Some r) w1)"
        by (auto simp: published_outcome_def)
      from device_matches_live[OF o(1)] obtain n where n: "device_refs w1 a = Some n"
        by (auto simp: device_refs_def)
      then have n0: "0 < n" using devices_ok_count ok s1 by metis
      have va: "device_refs v a = Some (Suc n)" using vs o(2) n by simp
      from device_release_ok[OF _ va] vs ok2 n0 obtain k w' where
        w': "device_release a v = Some (k, w')" "devices_ok w'" "device_refs w' = (device_refs v)(a := Some n)"
        by auto
      from device_release_kept[OF va _ w'(1)] n0 have "cw_refs w' = cw_refs v" by simp
      with o(3) vd returned[of w1] have "cw_refs w' = cw_refs w" by simp
      moreover have "device_refs w' = device_refs w"
        using w'(3) vs o(2) n s1 by (auto simp: fun_eq_iff)
      ultimately show ?thesis using call w'(1,2) by simp
    qed
  qed
qed

section \<open>The properties\<close>

text \<open>The callback of \<open>EnumDevicesBySemantics\<close> is balanced on every path, new wrapper, reused
  wrapper or none: when the application's callback keeps nothing, every wrapper and every real
  interface has the references it had before, and the application's answer is returned.\<close>

theorem lent_devices_are_given_back:
  assumes "devices_ok w" and "\<forall>a n. device_refs w a = Some n \<longrightarrow> Suc n < 2 ^ 32"
    and "\<And>p v. \<exists>v'. app p v = Some (result, v') \<and> cw_devices v' = cw_devices v \<and> cw_refs v' = cw_refs v"
  shows "\<exists>w'. semantics_callback U (Some app) (Some r) guid name env w = Some (result, w')
    \<and> devices_ok w' \<and> device_refs w' = device_refs w \<and> cw_refs w' = cw_refs w"
  by (rule semantics_balanced[OF assms])

theorem lent_devices_are_given_back_witness:
  "\<exists>w'. semantics_callback True (Some (\<lambda>p v. Some (1, v))) (Some 3) None [] sample_env empty_com = Some (1, w')
    \<and> cw_refs w' = cw_refs empty_com"
proof -
  have "\<forall>a n. device_refs empty_com a = Some n \<longrightarrow> Suc n < 2 ^ 32"
    by (simp add: device_refs_def empty_com_def empty_registry_def)
  from lent_devices_are_given_back[OF empty_devices_ok this, of "\<lambda>p v. Some (1, v)" 1] show ?thesis
    by blast
qed

text \<open>Creating a device fails open.  Every control block being valid, a successful call without
  aggregation returns the real answer, and the game gets either the real interface, every count
  as it was and so still its own reference, or a wrapper that publication accounts for; a newly
  created device, and only that, is announced.\<close>

theorem create_device_fails_open:
  assumes "devices_ok w" and "\<forall>a n. device_refs w a = Some n \<longrightarrow> Suc n < 2 ^ 32"
    and "\<forall>a d. rg_heap (cw_devices w) a = Some d \<longrightarrow> device_valid d" and "succeeded hr"
  shows "\<exists>p w'. create_device U True (Some m) guid False hr (Some r) name env w = Some (hr, p, w')
    \<and> devices_ok w'
    \<and> (p = IReal r \<and> cw_refs w' = cw_refs w \<and> device_refs w' = device_refs w \<and> cw_events w' = cw_events w
       \<or> (\<exists>a created w2. p = IDevice U a
          \<and> published_outcome U r (cw_next_device w + 1) env (snd (next_device_id w)) (Some a, created, w2)
          \<and> cw_devices w' = cw_devices w2 \<and> cw_refs w' = cw_refs w2
          \<and> length (cw_events w') = length (cw_events w) + (if created then 1 else 0)))"
proof -
  define w1 where "w1 = snd (next_device_id w)"
  have id: "next_device_id w = (cw_next_device w + 1, w1)" by (simp add: w1_def next_device_id_def)
  have w1: "cw_devices w1 = cw_devices w" "cw_refs w1 = cw_refs w" "cw_events w1 = cw_events w"
    by (simp_all add: w1_def next_device_id_def)
  note s1 = devices_same[OF w1(1)]
  from publish_outcome[of w1 U r "cw_next_device w + 1" env] assms(1,2) s1 obtain res created w2 where
    pub: "publish_or_add_ref U (Some r) (cw_next_device w + 1) env w1 = Some (res, created, w2)"
    and ok2: "devices_ok w2" and ev: "cw_events w2 = cw_events w1"
    and out: "published_outcome U r (cw_next_device w + 1) env w1 (res, created, w2)" by fastforce
  show ?thesis
  proof (cases res)
    case None
    with pub id assms(4)
    have "create_device U True (Some m) guid False hr (Some r) name env w = Some (hr, IReal r, w2)"
      by (simp add: create_device_def)
    with None out ok2 w1 ev s1 show ?thesis by (simp add: published_outcome_def)
  next
    case (Some a)
    obtain d where d: "rg_heap (cw_devices w2) a = Some d" "device_valid d"
    proof (cases created)
      case True
      with out Some that show ?thesis by (simp add: published_outcome_def)
    next
      case False
      with out Some have "device_matches r (de_identity env) w1 a"
        and same: "rg_heap (cw_devices w2) a = rg_heap (cw_devices w1) a"
        by (simp_all add: published_outcome_def)
      then obtain d where "rg_heap (cw_devices w1) a = Some d" using device_matches_live by fastforce
      with same assms(3) w1(1) that show ?thesis by simp
    qed
    let ?w = "if created then emit_device (cw_next_device w + 1) guid hr name w2 else w2"
    have call: "create_device U True (Some m) guid False hr (Some r) name env w = Some (hr, IDevice U a, ?w)"
      using pub id Some assms(4) d by (simp add: create_device_def)
    have "devices_ok ?w" "cw_devices ?w = cw_devices w2" "cw_refs ?w = cw_refs w2"
      using ok2 devices_same(1)[of ?w w2] by auto
    moreover have "length (cw_events ?w) = length (cw_events w) + (if created then 1 else 0)"
      using ev w1 by (simp add: emit_device_def emit_event_def)
    ultimately show ?thesis using call out Some unfolding w1_def[symmetric] by blast
  qed
qed

theorem create_device_fails_open_witness:
  "\<exists>p w'. create_device False True (Some 1) GUID_NULL False 0 (Some 3) [] sample_env empty_com = Some (0, p, w')
    \<and> devices_ok w'"
proof -
  have 1: "\<forall>a n. device_refs empty_com a = Some n \<longrightarrow> Suc n < 2 ^ 32"
    "\<forall>a d. rg_heap (cw_devices empty_com) a = Some d \<longrightarrow> device_valid d"
    by (simp_all add: device_refs_def empty_com_def empty_registry_def)
  have "succeeded 0" by (simp add: succeeded_def)
  from create_device_fails_open[OF empty_devices_ok 1 this, of False 1 GUID_NULL 3 "[]" sample_env]
  show ?thesis by blast
qed

text \<open>Intercepting \<open>DirectInput8Create\<close> fails open: it always returns the real answer; with a
  failing or aggregated call the game gets what the real function returned; otherwise it gets the
  real interface with every count as it was, or a fresh wrapper with one reference, which owns the
  game's reference on the real interface and one on the alias.\<close>

theorem direct_input_create_fails_open:
  assumes "inputs_ok w"
  shows "\<exists>p w'. intercept_direct_input8_create (Some (hr, Some r)) riid True outer env w = Some (hr, p, w')
    \<and> inputs_ok w' \<and> cw_events w' = cw_events w
    \<and> (p = IReal r \<and> cw_refs w' = cw_refs w \<and> input_refs w' = input_refs w
       \<or> (\<exists>U a. p = IInput U a \<and> riid = IID_IDirectInput8 U \<and> succeeded hr \<and> \<not> outer
          \<and> input_refs w a = None \<and> input_refs w' = (input_refs w)(a := Some 1)
          \<and> cw_refs w' = (case de_alias env of None \<Rightarrow> cw_refs w
              | Some alias \<Rightarrow> cw_refs (real_add_ref alias w))))"
proof (cases "\<exists>U. riid = IID_IDirectInput8 U \<and> succeeded hr \<and> \<not> outer \<and> de_candidate env \<and> de_state env")
  case False
  then have "intercept_direct_input8_create (Some (hr, Some r)) riid True outer env w = Some (hr, IReal r, w)"
    by (auto simp: intercept_direct_input8_create_def intercept_wrap_def split: iid.split)
  with assms show ?thesis by simp
next
  case True
  then obtain U where U: "riid = IID_IDirectInput8 U" "succeeded hr" "\<not> outer" "de_candidate env" "de_state env"
    by blast
  define d where "d = input_construct U r env"
  define u where "u = (case de_alias env of None \<Rightarrow> w | Some alias \<Rightarrow> real_add_ref alias w)"
  have u: "cw_inputs u = cw_inputs w" "cw_events u = cw_events w"
    "cw_refs u = (case de_alias env of None \<Rightarrow> cw_refs w | Some alias \<Rightarrow> cw_refs (real_add_ref alias w))"
    by (simp_all add: u_def real_add_ref_def split: option.split)
  obtain a ins where new: "reg_new d (cw_inputs w) = (a, ins)" by fastforce
  note n = registry_new[OF assms[unfolded inputs_ok_def] new]
  let ?v = "u\<lparr>cw_inputs := ins\<rparr>"
  have call: "intercept_direct_input8_create (Some (hr, Some r)) riid True outer env w =
      (if input_valid d then Some (hr, IInput U a, ?v)
       else map_option (\<lambda>w. (hr, IReal r, w)) (input_discard U a ?v))"
    using U new u by (simp add: intercept_direct_input8_create_def intercept_wrap_def Let_def
        option.map_comp o_def flip: d_def u_def)
  show ?thesis
  proof (cases "input_valid d")
    case valid: True
    have "input_refs ?v = (input_refs w)(a := Some 1)" "input_refs w a = None"
      using n by (auto simp: input_refs_def fun_eq_iff)
    moreover have "inputs_ok ?v" using n(1) by (simp add: inputs_ok_def)
    ultimately show ?thesis using call valid U u by simp
  next
    case False
    let ?v2 = "?v\<lparr>cw_inputs := ins\<lparr>rg_heap := (rg_heap ins)(a := map_option (input_detach U) (rg_heap ins a))\<rparr>\<rparr>"
    have same: "registry_list (ins\<lparr>rg_heap := h\<rparr>) xs = registry_list ins xs"
      if "\<forall>b. (h b \<noteq> None) = (rg_heap ins b \<noteq> None)" for h xs
      using that by (simp add: registry_list_def)
    have "inputs_ok ?v2" using same n(1) by (simp add: inputs_ok_def)
    moreover have "input_refs ?v2 a = Some 1" using n by (simp add: input_refs_def)
    ultimately obtain k w' where w': "input_release a ?v2 = Some (k, w')" "inputs_ok w'"
      "input_refs w' = (input_refs ?v2)(a := None)" using input_release_ok[of ?v2 a 1] by auto
    have disc: "input_discard U a ?v = Some w'" using w'(1) by (simp add: input_discard_def)
    have "cw_refs w' = cw_refs w \<and> cw_events w' = cw_events w"
      using w'(1) n u by (auto simp: input_release_def Let_def input_detach_def d_def input_construct_def
          real_release_def real_add_ref_def fun_eq_iff split: option.splits if_splits)
    moreover have "input_refs w' = input_refs w"
      using w'(3) n by (auto simp: input_refs_def fun_eq_iff)
    ultimately show ?thesis using call False disc w'(2) by simp
  qed
qed

theorem direct_input_create_fails_open_witness:
  "\<exists>p w'. intercept_direct_input8_create (Some (0, Some 3)) (IID_IDirectInput8 True) True False sample_env empty_com
    = Some (0, p, w') \<and> inputs_ok w'"
proof -
  have "inputs_ok empty_com"
    by (simp add: inputs_ok_def empty_com_def registry_empty[unfolded empty_registry_def] empty_registry_def)
  from direct_input_create_fails_open[OF this, of 0 3 "IID_IDirectInput8 True" False sample_env]
  show ?thesis by blast
qed

end
