(* ===== verification/Com_Calls.thy ===== *)
theory Com_Calls imports Com_Input begin

text \<open>
  The interfaces of the wrappers as a game sees them: every method of \<open>WrapperEffect\<close>,
  \<open>WrapperDevice8\<close> and \<open>WrapperDirectInput8\<close> (\<open>src/wrapper_effect.cpp\<close>, \<open>src/wrapper_device8.cpp\<close>,
  \<open>src/wrapper_dinput8.cpp\<close>), those included that only hand the call on, and the runs of a game that makes
  any of these calls, also from within a callback.
\<close>

section \<open>Methods of an effect\<close>

datatype effect_method =
    EffectInitialize | EffectGetGuid | EffectGetParameters | EffectGetStatus | EffectEscape
  | EffectSetParameters "DIEFFECT ptr" u32 | EffectStart u32 u32 | EffectStop | EffectDownload | EffectUnload

fun effect_method_call :: "arch \<Rightarrow> effect_method \<Rightarrow> weffect \<Rightarrow> i32 \<Rightarrow> com \<Rightarrow> i32 \<times> com" where
  "effect_method_call ar EffectInitialize e hr w = (effect_initialize e hr, w)"
| "effect_method_call ar EffectGetGuid e hr w = (effect_get_guid e hr, w)"
| "effect_method_call ar EffectGetParameters e hr w = (effect_get_parameters e hr, w)"
| "effect_method_call ar EffectGetStatus e hr w = (effect_get_status e hr, w)"
| "effect_method_call ar EffectEscape e hr w = (effect_escape e hr, w)"
| "effect_method_call ar (EffectSetParameters eff flags) e hr w = effect_set_parameters ar e eff flags hr w"
| "effect_method_call ar (EffectStart iterations flags) e hr w = effect_start e iterations flags hr w"
| "effect_method_call ar EffectStop e hr w = effect_stop e hr w"
| "effect_method_call ar EffectDownload e hr w = effect_download e hr w"
| "effect_method_call ar EffectUnload e hr w = effect_unload e hr w"

section \<open>Methods that hand the call on\<close>

text \<open>The methods whose body is one call of the real interface with the same arguments, by where they
  stand in the code.  Pointers and handles are numbers.  A callback of \<open>EnumDevices\<close> or \<open>ConfigureDevices\<close>
  is handed on as it is, so the calls it makes are calls of the game as any others.\<close>

datatype device_info = GetCapabilities nat | EnumObjects nat nat u32 | GetProperty nat nat
datatype device_setup = SetDataFormat nat | SetEventNotification nat | SetCooperativeLevel nat u32
  | GetObjectInfo nat u32 u32 | GetDeviceInfo nat | RunControlPanel nat u32 | InitializeDevice nat u32 nat
datatype device_effects = EnumEffects nat nat u32 | GetEffectInfo nat nat | GetForceFeedbackState nat
datatype device_data = SendDeviceData u32 nat nat u32 | BuildActionMap nat nat u32 | SetActionMap nat nat u32
  | GetImageInfo nat | EnumEffectsInFile nat nat nat u32 | WriteEffectToFile nat u32 nat u32
datatype input_info = EnumDevices u32 nat nat u32 | GetDeviceStatus nat | InputRunControlPanel nat u32
  | InitializeInput nat u32 | FindDevice nat nat nat

text \<open>\<open>answer r m\<close> is what the real interface \<open>r\<close> answers; without one the call is an access violation.\<close>

definition forward_call :: "(nat \<Rightarrow> 'm \<Rightarrow> i32) \<Rightarrow> nat option \<Rightarrow> 'm \<Rightarrow> com \<Rightarrow> (i32 \<times> com) option" where
  "forward_call answer real m w = map_option (\<lambda>r. (answer r m, w)) real"

definition device_escape :: "(nat \<Rightarrow> nat \<Rightarrow> i32) \<Rightarrow> nat option \<Rightarrow> nat \<Rightarrow> com \<Rightarrow> (i32 \<times> com) option" where
  "device_escape answer real escape w = map_option (\<lambda>r. (answer r escape, w)) real"

definition input_configure_devices ::
  "(nat \<Rightarrow> nat \<Rightarrow> nat \<Rightarrow> u32 \<Rightarrow> nat \<Rightarrow> i32) \<Rightarrow> nat option \<Rightarrow> nat \<Rightarrow> nat \<Rightarrow> u32 \<Rightarrow> nat \<Rightarrow> com
    \<Rightarrow> (i32 \<times> com) option" where
  "input_configure_devices answer real callback params flags ref w =
     map_option (\<lambda>r. (answer r callback params flags ref, w)) real"

section \<open>References of devices and inputs\<close>

definition device_AddRef :: "nat option \<Rightarrow> com \<Rightarrow> u32 \<times> com" where
  "device_AddRef st w = (case st of None \<Rightarrow> (0, w) | Some a \<Rightarrow> device_add_ref a w)"

definition device_Release :: "nat option \<Rightarrow> com \<Rightarrow> (u32 \<times> com) option" where
  "device_Release st w = (case st of None \<Rightarrow> Some (0, w) | Some a \<Rightarrow> device_release a w)"

definition input_AddRef :: "nat option \<Rightarrow> com \<Rightarrow> u32 \<times> com" where
  "input_AddRef st w = (case st of None \<Rightarrow> (0, w) | Some a \<Rightarrow> input_add_ref a w)"

definition input_Release :: "nat option \<Rightarrow> com \<Rightarrow> (u32 \<times> com) option" where
  "input_Release st w = (case st of None \<Rightarrow> Some (0, w) | Some a \<Rightarrow> input_release a w)"

section \<open>Enumerations\<close>

text \<open>DirectInput calls a callback for each object until it answers \<open>DIENUM_STOP\<close>.\<close>

fun enumerate_with :: "('x \<Rightarrow> com \<Rightarrow> (u32 \<times> com) option) \<Rightarrow> 'x list \<Rightarrow> com \<Rightarrow> com option" where
  "enumerate_with callback [] w = Some w"
| "enumerate_with callback (x # xs) w =
     (case callback x w of
        None \<Rightarrow> None
      | Some (result, w) \<Rightarrow> if result = DIENUM_STOP then Some w else enumerate_with callback xs w)"

type_synonym app = "iface \<Rightarrow> com \<Rightarrow> (u32 \<times> com) option"

definition device_enum_created_effects ::
  "app option \<Rightarrow> (nat \<times> nat option) list \<Rightarrow> i32 \<Rightarrow> com \<Rightarrow> (i32 \<times> com) option" where
  "device_enum_created_effects callback effects hr w =
     (case callback of
        None \<Rightarrow> Some (hr, w)
      | Some _ \<Rightarrow> map_option (\<lambda>w. (hr, w))
          (enumerate_with (\<lambda>(real, identity). created_effect_callback callback real identity) effects w))"

record found_device =
  fd_real :: "nat option"
  fd_guid :: "GUID option"
  fd_name :: "byte list"
  fd_env :: device_env

definition input_enum_by_semantics ::
  "bool \<Rightarrow> app option \<Rightarrow> found_device list \<Rightarrow> i32 \<Rightarrow> com \<Rightarrow> (i32 \<times> com) option" where
  "input_enum_by_semantics U callback devices hr w =
     (case callback of
        None \<Rightarrow> Some (hr, w)
      | Some _ \<Rightarrow> map_option (\<lambda>w. (hr, w))
          (enumerate_with (\<lambda>d. semantics_callback U callback (fd_real d) (fd_guid d) (fd_name d) (fd_env d)) devices w))"

section \<open>Methods of a device\<close>

datatype device_method =
    DeviceInfo device_info | DeviceSetup device_setup | DeviceEffects device_effects | DeviceData device_data
  | DeviceEscape nat | DeviceSetProperty nat "(u32 \<times> u32 option) ptr" | DeviceAcquire | DeviceUnacquire
  | DeviceGetState | DeviceGetData | DevicePoll | DeviceSendCommand u32

text \<open>\<open>hr\<close> is what the real interface answers to this call.\<close>

fun device_method_call ::
  "(nat \<Rightarrow> byte option) \<Rightarrow> device_method \<Rightarrow> nat option \<Rightarrow> nat option \<Rightarrow> u32 \<Rightarrow> i32 \<Rightarrow> com \<Rightarrow> (i32 \<times> com) option" where
  "device_method_call mem (DeviceInfo m) real st dev hr w = forward_call (\<lambda>_ _. hr) real m w"
| "device_method_call mem (DeviceSetup m) real st dev hr w = forward_call (\<lambda>_ _. hr) real m w"
| "device_method_call mem (DeviceEffects m) real st dev hr w = forward_call (\<lambda>_ _. hr) real m w"
| "device_method_call mem (DeviceData m) real st dev hr w = forward_call (\<lambda>_ _. hr) real m w"
| "device_method_call mem (DeviceEscape escape) real st dev hr w = device_escape (\<lambda>_ _. hr) real escape w"
| "device_method_call mem (DeviceSetProperty prop header) real st dev hr w = device_set_property mem dev prop header hr w"
| "device_method_call mem DeviceAcquire real st dev hr w = Some (device_acquire st dev hr w)"
| "device_method_call mem DeviceUnacquire real st dev hr w = Some (device_unacquire st dev hr w)"
| "device_method_call mem DeviceGetState real st dev hr w = Some (device_get_state st dev hr w)"
| "device_method_call mem DeviceGetData real st dev hr w = Some (device_get_data st dev hr w)"
| "device_method_call mem DevicePoll real st dev hr w = Some (device_poll st dev hr w)"
| "device_method_call mem (DeviceSendCommand flags) real st dev hr w = Some (device_send_command dev flags hr w)"

section \<open>The runs of a game\<close>

text \<open>A game makes calls on live wrappers; a callback of it is a run of calls too.  What DirectInput
  answers is unconstrained, so these are more runs than a game has.\<close>

inductive com_run :: "arch \<Rightarrow> (nat \<Rightarrow> byte option) \<Rightarrow> com \<Rightarrow> com \<Rightarrow> bool" for ar mem where
  finished: "com_run ar mem w w"
| effect: "com_run ar mem w v \<Longrightarrow> rg_heap (cw_effects v) a = Some e \<Longrightarrow> com_run ar mem w (snd (effect_method_call ar m e hr v))"
| effect_query: "com_run ar mem w v \<Longrightarrow> rg_heap (cw_effects v) a = Some e \<Longrightarrow>
    com_run ar mem w (snd (snd (effect_query_interface a e riid valid_out forwarded v)))"
| effect_retain: "com_run ar mem w v \<Longrightarrow> com_run ar mem w (snd (effect_add_ref a v))"
| effect_drop: "com_run ar mem w v \<Longrightarrow> effect_release a v = Some (n, v') \<Longrightarrow> com_run ar mem w v'"
| device: "com_run ar mem w v \<Longrightarrow> device_method_call mem dm real st dev hr v = Some (r, v') \<Longrightarrow> com_run ar mem w v'"
| device_query: "com_run ar mem w v \<Longrightarrow>
    com_run ar mem w (snd (snd (device_query_interface U st riid valid_out real forwarded v)))"
| device_retain: "com_run ar mem w v \<Longrightarrow> com_run ar mem w (snd (device_AddRef st v))"
| device_drop: "com_run ar mem w v \<Longrightarrow> device_Release st v = Some (n, v') \<Longrightarrow> com_run ar mem w v'"
| create_effect: "com_run ar mem w v \<Longrightarrow> guid_wf guid \<Longrightarrow>
    com_run ar mem w (snd (snd (device_create_effect ar valid_out m_real dev guid params outer hr real_out alloc identity v)))"
| enum_effects: "com_run ar mem w v \<Longrightarrow>
    (\<And>f p x r y. callback = Some f \<Longrightarrow> f p x = Some (r, y) \<Longrightarrow> com_run ar mem x y) \<Longrightarrow>
    device_enum_created_effects callback effects hr v = Some (h, v') \<Longrightarrow> com_run ar mem w v'"
| input: "com_run ar mem w v \<Longrightarrow> forward_call answer real (im :: input_info) v = Some (r, v') \<Longrightarrow> com_run ar mem w v'"
| configure: "com_run ar mem w v \<Longrightarrow> input_configure_devices answers real callback params flags ref v = Some (r, v') \<Longrightarrow> com_run ar mem w v'"
| input_query: "com_run ar mem w v \<Longrightarrow>
    com_run ar mem w (snd (snd (input_query_interface st riid valid_out real forwarded v)))"
| input_retain: "com_run ar mem w v \<Longrightarrow> com_run ar mem w (snd (input_AddRef st v))"
| input_drop: "com_run ar mem w v \<Longrightarrow> input_Release st v = Some (n, v') \<Longrightarrow> com_run ar mem w v'"
| create_device: "com_run ar mem w v \<Longrightarrow> guid_wf guid \<Longrightarrow>
    create_device U valid_out m_real guid outer hr real_out name env v = Some (h, p, v') \<Longrightarrow> com_run ar mem w v'"
| enum_devices: "com_run ar mem w v \<Longrightarrow>
    (\<And>f p x r y. callback = Some f \<Longrightarrow> f p x = Some (r, y) \<Longrightarrow> com_run ar mem x y) \<Longrightarrow>
    (\<And>d g. d \<in> set devices \<Longrightarrow> fd_guid d = Some g \<Longrightarrow> guid_wf g) \<Longrightarrow>
    input_enum_by_semantics U callback devices hr v = Some (h, v') \<Longrightarrow> com_run ar mem w v'"
| create_input: "com_run ar mem w v \<Longrightarrow>
    intercept_direct_input8_create original riid valid_out outer env v = Some (h, p, v') \<Longrightarrow> com_run ar mem w v'"

section \<open>What the runs emit\<close>

text \<open>A call appends events to what was emitted before, and every one fits its frame; the GUIDs of the
  effects stay what a GUID is.\<close>

definition guids_wf :: "com \<Rightarrow> bool" where
  "guids_wf w \<longleftrightarrow> (\<forall>a e. rg_heap (cw_effects w) a = Some e \<longrightarrow> guid_wf (we_guid e))"

definition emits :: "com \<Rightarrow> com \<Rightarrow> bool" where
  "emits w v \<longleftrightarrow> (guids_wf w \<longrightarrow> guids_wf v \<and> (\<exists>es. cw_events v = cw_events w @ es \<and> list_all event_bounded es))"

named_theorems emitted

lemma emits_refl [simp]: "emits w w" by (simp add: emits_def)

lemma emits_same: "cw_events v = cw_events w \<Longrightarrow> rg_heap (cw_effects v) = rg_heap (cw_effects w) \<Longrightarrow> emits w v"
  by (simp add: emits_def guids_wf_def)

lemma emits_trans [trans]: "emits w v \<Longrightarrow> emits v u \<Longrightarrow> emits w u"
  by (auto simp: emits_def)

lemma emits_cong: "cw_events u = cw_events v \<Longrightarrow> rg_heap (cw_effects u) = rg_heap (cw_effects v) \<Longrightarrow> emits w u = emits w v"
  by (simp add: emits_def guids_wf_def)

lemma emits_event: "event_bounded e \<Longrightarrow> emits w (emit_event e w)"
  by (simp add: emits_def emit_event_def guids_wf_def)

lemma bounded_iff: "event_bounded e \<longleftrightarrow> guid_wf (ev_effect_guid e) \<and> length (ev_axes e) = kMaxAxes
     \<and> length (ev_directions e) = kMaxAxes \<and> length (ev_conditions e) = kMaxAxes
     \<and> length (ev_build_version e) = 32 \<and> length (ev_session_id e) = 32 \<and> length (ev_text e) = 64
     \<and> unat (ev_axis_count e) \<le> kMaxAxes \<and> unat (ev_condition_count e) \<le> kMaxAxes"
  by (auto simp: event_bounded_def event_wf_def)

lemmas empty_bounded = empty_event_bounded[unfolded bounded_iff]

section \<open>Effects\<close>

lemma effect_event_bounded: "guid_wf (we_guid e) \<Longrightarrow> event_bounded (effect_event t e w)"
  using empty_bounded by (simp add: bounded_iff effect_event_def)

lemma effect_add_ref_emits [emitted]: "emits w (snd (effect_add_ref a w))"
  by (rule emits_same) (simp_all add: effect_add_ref_def reg_add_ref_def Let_def)

lemma drop_ref_heap: "reg_drop_ref a r = Some (n, r') \<Longrightarrow> rg_heap r' = rg_heap r"
  by (auto simp: reg_drop_ref_def reg_unregister_def Let_def split: if_splits option.splits)

lemma effect_release_emits:
  assumes "effect_release a w = Some (n, v)" shows "emits w v"
proof -
  from assms obtain e r where e: "rg_heap (cw_effects w) a = Some e" and d: "reg_drop_ref a (cw_effects w) = Some (n, r)"
    by (auto simp: effect_release_def Let_def split: option.splits if_splits)
  note h = drop_ref_heap[OF d]
  let ?ev = "(effect_event EffectCommandMsg e (w\<lparr>cw_effects := r\<rparr>))\<lparr>ev_command := command_code CmdRelease, ev_qpc_ticks := cw_now w\<rparr>"
  have b: "guids_wf w \<Longrightarrow> event_bounded ?ev" using e effect_event_bounded[of e EffectCommandMsg "w\<lparr>cw_effects := r\<rparr>"]
    by (auto simp: bounded_iff guids_wf_def)
  show ?thesis
  proof (cases "n = 0")
    case True
    with assms e d have "cw_events v = cw_events w @ [?ev]" "cw_effects v = reg_delete a r"
      by (auto simp: effect_release_def Let_def emit_event_def real_release_def split: option.splits)
    with b h show ?thesis by (auto simp: emits_def guids_wf_def reg_delete_def split: if_splits)
  next
    case False
    with assms e d have "v = w\<lparr>cw_effects := r\<rparr>" by (simp add: effect_release_def)
    with h show ?thesis by (intro emits_same) simp_all
  qed
qed

lemma effect_call_emits:
  assumes "rg_heap (cw_effects w) a = Some e" shows "emits w (snd (effect_method_call ar m e hr w))"
proof (cases "guids_wf w")
  case True
  with assms have g: "guid_wf (we_guid e)" by (auto simp: guids_wf_def)
  note b = effect_event_bounded[OF g, of _ w]
  have f: "event_bounded (fill_effect_parameters ar ((effect_event EffectParametersChanged e w)\<lparr>ev_hresult := h, ev_flags := fl\<rparr>) p)" for h fl p
    using b[of EffectParametersChanged] by (intro fill_keeps_bounds) (simp add: bounded_iff)
  show ?thesis
    using b f by (cases m) (auto simp: effect_set_parameters_def effect_start_def effect_stop_def effect_download_def
        effect_unload_def Let_def bounded_iff intro!: emits_event)
qed (simp add: emits_def)

lemma effect_query_emits: "emits w (snd (snd (effect_query_interface a e riid valid_out forwarded w)))"
  using effect_add_ref_emits[of w a] by (simp add: effect_query_interface_def split: option.split)

lemma find_and_add_ref_emits: "find_and_add_ref real identity w = Some (p, v) \<Longrightarrow> emits w v"
  using effect_add_ref_emits by (auto simp: find_and_add_ref_def split: option.splits)

text \<open>A callback of the game that emits well does so within an enumeration.\<close>

definition emits_well :: "app \<Rightarrow> bool" where
  "emits_well f \<longleftrightarrow> (\<forall>p w r v. f p w = Some (r, v) \<longrightarrow> emits w v)"

lemma enumerate_with_emits:
  assumes "enumerate_with callback xs w = Some v"
    and "\<And>x w r v. x \<in> set xs \<Longrightarrow> callback x w = Some (r, v) \<Longrightarrow> emits w v"
  shows "emits w v"
  using assms
proof (induction xs arbitrary: w)
  case (Cons x xs)
  then obtain r u where c: "callback x w = Some (r, u)" by (auto split: option.splits)
  then have u: "emits w u" using Cons.prems(2)[of x] by simp
  from c Cons.prems(1) consider "u = v" | "enumerate_with callback xs u = Some v" by (auto split: if_splits)
  then show ?case
  proof cases
    case 2
    from 2 have "emits u v" by (rule Cons.IH) (rule Cons.prems(2), simp_all)
    with u show ?thesis by (rule emits_trans)
  qed (use u in simp)
qed simp

lemma created_effect_emits:
  assumes "emits_well f" and "created_effect_callback (Some f) real identity w = Some (r, v)"
  shows "emits w v"
proof -
  from assms(2) obtain p u where u: "find_and_add_ref (Some real) identity w = Some (p, u)"
    by (auto simp: created_effect_callback_def split: option.splits)
  have "emits u v"
  proof (cases p)
    case None
    with assms u show ?thesis by (simp add: created_effect_callback_def emits_well_def)
  next
    case (Some a)
    with assms u obtain q x n where "f (IEffect a) u = Some (q, x)" "effect_release a x = Some (n, v)"
      by (auto simp: created_effect_callback_def split: option.splits)
    with assms(1) effect_release_emits show ?thesis unfolding emits_well_def by (blast intro: emits_trans)
  qed
  with find_and_add_ref_emits[OF u] show ?thesis by (rule emits_trans)
qed

section \<open>Devices\<close>

lemma device_add_ref_emits: "emits w (snd (device_add_ref a w))"
  by (rule emits_same) (simp_all add: device_add_ref_def reg_add_ref_def Let_def)

lemma real_same [simp]:
  "cw_events (real_release p w) = cw_events w" "cw_effects (real_release p w) = cw_effects w"
  "cw_events (real_add_ref r w) = cw_events w" "cw_effects (real_add_ref r w) = cw_effects w"
  "cw_events (device_update a f w) = cw_events w" "cw_effects (device_update a f w) = cw_effects w"
  by (simp_all add: real_release_def real_add_ref_def device_update_def split: option.split)

lemma device_release_same: "device_release a w = Some (n, v) \<Longrightarrow> cw_events v = cw_events w \<and> cw_effects v = cw_effects w"
  by (auto simp: device_release_def Let_def split: option.splits if_splits)

lemma device_release_emits: "device_release a w = Some (n, v) \<Longrightarrow> emits w v"
  using device_release_same[of a w n v] by (intro emits_same) simp_all

lemma emit_device_command_emits: "emits w (emit_device_command dev flags hr w)"
  unfolding emit_device_command_def using empty_bounded by (intro emits_event) (simp add: bounded_iff)

lemma invalidate_emits: "emits w (invalidate_playback st dev hr w)"
proof -
  have "emits w (emit_device_command dev DISFFC_STOPALL hr (device_update a f w))" for a f
    by (rule emits_trans[OF _ emit_device_command_emits]) (rule emits_same, simp_all)
  moreover have "emits w (device_update a f w)" for a f by (rule emits_same) simp_all
  ultimately show ?thesis by (simp add: invalidate_playback_def Let_def split: option.split)
qed

lemma emit_property_emits:
  assumes "emit_property mem dev prop header hr w = Some v" shows "emits w v"
proof -
  from assms consider "v = w" | e where "v = emit_event e w" "event_bounded e"
    using empty_bounded by (auto simp: emit_property_def bounded_iff split: option.splits bool.splits)
  then show ?thesis by cases (auto intro: emits_event)
qed

lemma device_call_emits:
  assumes "device_method_call mem dm real st dev hr w = Some (r, v)" shows "emits w v"
proof (cases "v = w")
  case False
  have u: "emits w (device_update a f w)" for a f by (rule emits_same) simp_all
  show ?thesis
  proof (cases dm)
    case (DeviceSetProperty p h)
    with assms emit_property_emits show ?thesis by (auto simp: device_set_property_def)
  next
    case DeviceAcquire
    with assms u invalidate_emits show ?thesis by (auto simp: device_acquire_def split: option.splits if_splits)
  qed (use assms False invalidate_emits emit_device_command_emits in
      \<open>auto simp: forward_call_def device_escape_def device_unacquire_def device_get_state_def device_get_data_def
        device_poll_def device_send_command_def split: if_splits\<close>)
qed simp

lemma device_query_emits: "emits w (snd (snd (device_query_interface U st riid valid_out real forwarded w)))"
  using device_add_ref_emits by (simp add: device_query_interface_def split: option.split)

lemma emit_effect_emits:
  assumes "guid_wf guid" shows "emits w (emit_effect ar dev eff guid params hr w)"
  unfolding emit_effect_def
  using assms empty_bounded by (intro emits_event fill_keeps_bounds) (simp add: bounded_iff)

lemma effect_new_emits:
  assumes "guid_wf guid" and "effect_new real identity dev eff guid w = (a, v)" shows "emits w v"
  using assms by (auto simp: effect_new_def reg_new_def reg_register_def Let_def emits_def guids_wf_def split: if_splits)

lemma create_effect_emits:
  assumes "guid_wf guid"
  shows "emits w (snd (snd (device_create_effect ar valid_out m_real dev guid params outer hr real_out alloc identity w)))"
proof -
  obtain eff v where n: "next_effect_id w = (eff, v)" by fastforce
  then have v: "emits w v" by (intro emits_same) (auto simp: next_effect_id_def)
  obtain a u where "effect_new (the real_out) identity dev eff guid v = (a, u)" by fastforce
  then have e: "real_out = Some r \<Longrightarrow> effect_new r identity dev eff guid v = (a, u)" for r by simp
  have "emits w (emit_effect ar dev eff guid params hr v)" by (rule emits_trans[OF v emit_effect_emits[OF assms]])
  moreover have "real_out = Some r \<Longrightarrow> emits w (emit_effect ar dev eff guid params hr u)" for r
    using emits_trans[OF emits_trans[OF v effect_new_emits[OF assms e]] emit_effect_emits[OF assms]] .
  ultimately show ?thesis using emit_effect_emits[OF assms] e
    by (simp add: device_create_effect_def n split: option.split)
qed

lemma device_add_ref_same:
  "cw_events (snd (device_add_ref a w)) = cw_events w \<and> cw_effects (snd (device_add_ref a w)) = cw_effects w"
  by (simp add: device_add_ref_def reg_add_ref_def Let_def)

lemma discard_same: "discard_unpublished U a w = Some v \<Longrightarrow> cw_events v = cw_events w \<and> cw_effects v = cw_effects w"
  using device_release_same[of a "device_update a (detach_real U) w"] by (auto simp: discard_unpublished_def)

lemma publish_emits:
  assumes "publish_or_add_ref U real dev env w = Some (p, c, v)" shows "emits w v"
proof (cases real)
  case None
  with assms show ?thesis by (simp add: publish_or_add_ref_def)
next
  case r: (Some r)
  define d where "d = device_construct U r dev env"
  define u where "u = (case de_alias env of None \<Rightarrow> w | Some alias \<Rightarrow> real_add_ref alias w)"
  obtain a devs where new: "reg_new d (cw_devices u) = (a, devs)" by fastforce
  define x where "x = u\<lparr>cw_devices := devs\<rparr>"
  have x: "cw_events x = cw_events w" "cw_effects x = cw_effects w" by (simp_all add: x_def u_def split: option.split)
  note defs = publish_or_add_ref_def Let_def r d_def[symmetric] u_def[symmetric] new x_def[symmetric]
  from assms consider "v = w" | "discard_unpublished U a x = Some v" | "\<exists>y. v = x\<lparr>cw_devices := y\<rparr>"
    | b n where "device_release a (snd (device_add_ref b x)) = Some (n, v)"
    by (auto simp: defs split: if_splits option.splits)
  then have "cw_events v = cw_events w \<and> cw_effects v = cw_effects w"
  proof cases
    case 2
    with x show ?thesis using discard_same by simp
  next
    case (4 b n)
    with x show ?thesis using device_release_same[OF 4] device_add_ref_same by simp
  qed (use x in auto)
  then show ?thesis by (intro emits_same) simp_all
qed

lemma text_length:
  assumes "length t = 64"
  shows "length (case copy_utf8_truncated (Some t) 64 (Some s) (length s) of (Some r, _) \<Rightarrow> r | (None, _) \<Rightarrow> t) = 64"
proof -
  obtain n where "fst (copy_utf8_truncated (Some t) 64 (Some s) (length s)) = Some (take n s @ 0 # drop (Suc n) t)"
    and "n < 64" "n \<le> length s"
    using copy_utf8_truncated_eq[of t 64 s "length s"] assms by fastforce
  then show ?thesis using assms by (auto split: prod.split)
qed

lemma emit_device_emits:
  assumes "guid_wf guid" shows "emits w (emit_device dev guid hr name w)"
proof -
  have t: "length (ev_text empty_event) = 64" using empty_bounded by simp
  show ?thesis unfolding emit_device_def
    by (rule emits_event) (use assms empty_bounded text_length[OF t, of name] in \<open>simp add: bounded_iff\<close>)
qed

lemma next_device_emits: "emits w (snd (next_device_id w))"
  by (rule emits_same) (simp_all add: next_device_id_def)

lemma create_device_emits:
  assumes "guid_wf guid" and "create_device U valid_out m_real guid outer hr real_out name env w = Some (h, p, v)"
  shows "emits w v"
proof -
  note d = emit_device_emits[OF assms(1)]
  obtain dev u where n: "next_device_id w = (dev, u)" by fastforce
  with next_device_emits[of w] have u: "emits w u" by simp
  show ?thesis
  proof (cases "valid_out \<and> m_real \<noteq> None \<and> real_out \<noteq> None \<and> succeeded hr \<and> \<not> outer")
    case True
    then obtain r where r: "real_out = Some r" by auto
    from assms(2) True r obtain q c x where pub: "publish_or_add_ref U (Some r) dev env u = Some (q, c, x)"
      by (simp add: create_device_def n split: option.splits prod.splits)
    have "v = x \<or> v = emit_device dev guid hr name x"
      using assms(2) True r pub by (auto simp: create_device_def n split: option.splits if_splits)
    then show ?thesis using emits_trans[OF u publish_emits[OF pub]] d emits_trans by blast
  next
    case False
    with assms(2) have "v = w \<or> v = emit_device 0 guid hr [] w"
      by (cases real_out; cases m_real; cases valid_out; cases outer; cases "succeeded hr") (simp_all add: create_device_def)
    with d show ?thesis by auto
  qed
qed

lemma null_guid_wf: "guid_wf GUID_NULL" by (simp add: guid_wf_def GUID_NULL_def)

lemma semantics_emits:
  assumes f: "emits_well f" and g: "\<And>g. guid = Some g \<Longrightarrow> guid_wf g"
    and s: "semantics_callback U (Some f) real guid name env w = Some (r, v)"
  shows "emits w v"
proof (cases real)
  case None
  with f s show ?thesis by (simp add: semantics_callback_def emits_well_def)
next
  case (Some q)
  obtain dev x where n: "next_device_id (real_add_ref q w) = (dev, x)" by fastforce
  have x: "emits w x" by (rule emits_same) (use n in \<open>auto simp: next_device_id_def\<close>)
  have wf: "guid_wf (case guid of None \<Rightarrow> GUID_NULL | Some g \<Rightarrow> g)" using g null_guid_wf by (simp split: option.split)
  obtain p c y where pub: "publish_or_add_ref U (Some q) dev env x = Some (p, c, y)"
    using s Some n by (auto simp: semantics_callback_def split: option.splits)
  have y: "emits w y" using x publish_emits[OF pub] by (rule emits_trans)
  show ?thesis
  proof (cases p)
    case None
    have "emits y (real_release (Some q) y)" by (rule emits_same) simp_all
    with y have "emits w (real_release (Some q) y)" by (rule emits_trans)
    moreover have "emits (real_release (Some q) y) v"
      using f s Some n pub None by (simp add: semantics_callback_def emits_well_def)
    ultimately show ?thesis by (rule emits_trans)
  next
    case a: (Some a)
    define z where "z = (if c then emit_device dev (case guid of None \<Rightarrow> GUID_NULL | Some g \<Rightarrow> g) DI_OK name y else y)"
    have z: "emits w z" using y emits_trans[OF y emit_device_emits[OF wf]] by (simp add: z_def)
    obtain k t m where "f (IDevice U a) z = Some (k, t)" "device_release a t = Some (m, v)"
      using s Some n pub a by (auto simp: semantics_callback_def Let_def z_def split: option.splits)
    moreover from this f have "emits z t" by (auto simp: emits_well_def)
    ultimately show ?thesis using emits_trans[OF emits_trans[OF z] device_release_emits] by blast
  qed
qed

section \<open>DirectInput\<close>

lemma input_release_emits: "input_release a w = Some (n, v) \<Longrightarrow> emits w v"
  by (rule emits_same) (auto simp: input_release_def Let_def split: option.splits if_splits)

lemma input_query_emits: "emits w (snd (snd (input_query_interface st riid valid_out real forwarded w)))"
  by (rule emits_same) (simp_all add: input_query_interface_def input_add_ref_def reg_add_ref_def Let_def split: option.split)

lemma create_input_emits:
  assumes "intercept_direct_input8_create original riid valid_out outer env w = Some (h, p, v)" shows "emits w v"
proof -
  have wrap: "emits w0 x" if e: "intercept_wrap U r env w0 = Some (q, x)" for U r w0 q x
  proof (cases "x = w0")
    case False
    define u where "u = (case de_alias env of None \<Rightarrow> w0 | Some alias \<Rightarrow> real_add_ref alias w0)"
    obtain a ins where n: "reg_new (input_construct U r env) (cw_inputs u) = (a, ins)" by fastforce
    from e False consider "x = u\<lparr>cw_inputs := ins\<rparr>" | "input_discard U a (u\<lparr>cw_inputs := ins\<rparr>) = Some x"
      by (auto simp: intercept_wrap_def Let_def u_def[symmetric] n split: if_splits)
    then have "cw_events x = cw_events u \<and> cw_effects x = cw_effects u"
      by cases (auto simp: input_discard_def input_release_def Let_def split: option.splits if_splits)
    then show ?thesis by (intro emits_same) (simp_all add: u_def split: option.split)
  qed simp
  from assms wrap show ?thesis
    by (auto simp: intercept_direct_input8_create_def split: if_splits option.splits iid.splits)
qed

section \<open>Every run\<close>

lemma com_run_emits: "com_run ar mem w v \<Longrightarrow> emits w v"
proof (induction rule: com_run.induct)
  case (effect w v a e m hr)
  then show ?case using effect_call_emits emits_trans by blast
next
  case (effect_query w v a e riid valid_out forwarded)
  then show ?case using effect_query_emits emits_trans by blast
next
  case (effect_retain w v a)
  then show ?case using effect_add_ref_emits emits_trans by blast
next
  case (effect_drop w v a n v')
  then show ?case using effect_release_emits emits_trans by blast
next
  case (device w v dm real st dev hr r v')
  then show ?case using device_call_emits emits_trans by blast
next
  case (device_query w v U st riid valid_out real forwarded)
  then show ?case using device_query_emits emits_trans by blast
next
  case (device_retain w v st)
  then show ?case using device_add_ref_emits emits_trans by (fastforce simp: device_AddRef_def split: option.split)
next
  case (device_drop w v st n v')
  then show ?case using device_release_emits emits_trans by (auto simp: device_Release_def split: option.splits)
next
  case (create_effect w v guid valid_out m_real dev params outer hr real_out alloc identity)
  then show ?case using create_effect_emits emits_trans by blast
next
  case (enum_effects w v callback effects hr h v')
  show ?case
  proof (cases callback)
    case (Some f)
    then have "emits_well f" using enum_effects.IH(2) by (auto simp: emits_well_def)
    note step = created_effect_emits[OF this]
    from enum_effects.hyps Some obtain u where "v' = u"
      "enumerate_with (\<lambda>(real, identity). created_effect_callback (Some f) real identity) effects v = Some u"
      by (auto simp: device_enum_created_effects_def)
    from this(2) have "emits v v'" unfolding \<open>v' = u\<close>
      by (rule enumerate_with_emits) (use step in auto)
    with enum_effects.IH(1) show ?thesis by (rule emits_trans)
  qed (use enum_effects in \<open>simp add: device_enum_created_effects_def\<close>)
next
  case (input w v answer real im r v')
  then show ?case by (auto simp: forward_call_def)
next
  case (configure w v answers real cb ps fl rf r v')
  then show ?case by (auto simp: input_configure_devices_def)
next
  case (input_query w v st riid valid_out real forwarded)
  then show ?case using input_query_emits emits_trans by blast
next
  case (input_retain w v st)
  moreover have "emits v (snd (input_AddRef st v))"
    by (rule emits_same) (simp_all add: input_AddRef_def input_add_ref_def reg_add_ref_def Let_def split: option.split)
  ultimately show ?case using emits_trans by blast
next
  case (input_drop w v st n v')
  then show ?case using input_release_emits emits_trans by (auto simp: input_Release_def split: option.splits)
next
  case (create_device w v guid U valid_out m_real outer hr real_out name env h p v')
  then show ?case using create_device_emits emits_trans by blast
next
  case (enum_devices w v callback devices U hr h v')
  show ?case
  proof (cases callback)
    case (Some f)
    then have f: "emits_well f" using enum_devices.IH(2) by (auto simp: emits_well_def)
    note step = semantics_emits[OF this]
    from enum_devices.hyps Some have
      "enumerate_with (\<lambda>d. semantics_callback U (Some f) (fd_real d) (fd_guid d) (fd_name d) (fd_env d)) devices v = Some v'"
      by (auto simp: input_enum_by_semantics_def)
    then have "emits v v'" by (rule enumerate_with_emits) (use step enum_devices.hyps in blast)
    with enum_devices.IH(1) show ?thesis by (rule emits_trans)
  qed (use enum_devices in \<open>simp add: input_enum_by_semantics_def\<close>)
next
  case (create_input w v original riid valid_out outer env h p v')
  then show ?case using create_input_emits emits_trans by blast
qed simp

section \<open>Transparency\<close>

definition silent :: "effect_method \<Rightarrow> bool" where
  "silent m \<longleftrightarrow> m \<in> {EffectInitialize, EffectGetGuid, EffectGetParameters, EffectGetStatus, EffectEscape}"

lemma effect_call_transparent:
  assumes "we_real e = Some q"
  shows "\<exists>es. effect_method_call ar m e hr w = (hr, w\<lparr>cw_events := cw_events w @ es\<rparr>) \<and> length es = (if silent m then 0 else 1)
    \<and> (\<forall>x \<in> set es. ev_hresult x = hr \<and> ev_process_id x = cw_pid w \<and> ev_device_id x = we_device_id e
         \<and> ev_effect_id x = we_effect_id e)"
proof -
  have fill: "ev_hresult (fill_effect_parameters a x eff) = ev_hresult x
    \<and> ev_process_id (fill_effect_parameters a x eff) = ev_process_id x
    \<and> ev_device_id (fill_effect_parameters a x eff) = ev_device_id x
    \<and> ev_effect_id (fill_effect_parameters a x eff) = ev_effect_id x" for a x eff
    using fill_header[of a x eff] by (simp add: event_header_def)
  note unf = effect_set_parameters_def effect_start_def effect_stop_def effect_download_def effect_unload_def
    effect_initialize_def effect_get_guid_def effect_get_parameters_def effect_get_status_def effect_escape_def
    effect_forward_def effect_event_def emit_event_def silent_def
  show ?thesis
    by (cases m) (auto simp: unf Let_def assms fill intro: exI[of _ "[]"])
qed

text \<open>What a call of a device leaves of the world.\<close>

definition device_keeps :: "u32 \<Rightarrow> com \<Rightarrow> com \<Rightarrow> bool" where
  "device_keeps dev w v \<longleftrightarrow> cw_refs v = cw_refs w \<and> cw_effects v = cw_effects w \<and> cw_inputs v = cw_inputs w
     \<and> device_refs v = device_refs w
     \<and> (\<exists>es. cw_events v = cw_events w @ es \<and> length es \<le> 1 \<and> (\<forall>x \<in> set es. ev_device_id x = dev))"

lemma keeps_refl [simp]: "device_keeps dev w w" by (simp add: device_keeps_def)

lemma keeps_update: "device_keeps dev w (device_update a f w)"
  by (simp add: device_keeps_def device_update_def device_refs_def fun_eq_iff)

lemma keeps_command: "device_keeps dev w (emit_device_command dev flags hr (device_update a f w))"
  by (simp add: device_keeps_def device_update_def device_refs_def fun_eq_iff emit_device_command_def emit_event_def)

lemma keeps_invalidate: "device_keeps dev w (invalidate_playback st dev hr w)"
  by (simp add: invalidate_playback_def Let_def keeps_update keeps_command split: option.split)

lemma keeps_send: "device_keeps dev w (emit_device_command dev flags hr w)"
  by (simp add: device_keeps_def device_refs_def fun_eq_iff emit_device_command_def emit_event_def)

lemma keeps_property: "emit_property mem dev prop header hr w = Some v \<Longrightarrow> device_keeps dev w v"
  by (auto simp: emit_property_def emit_event_def device_keeps_def device_refs_def fun_eq_iff split: option.splits bool.splits)

lemma device_call_transparent:
  assumes "device_method_call mem dm real st dev hr w = Some (r, v)"
  shows "r = hr \<and> device_keeps dev w v"
proof (cases dm)
  case (DeviceSetProperty p h)
  with assms keeps_property show ?thesis by (auto simp: device_set_property_def)
next
  case DeviceAcquire
  with assms keeps_update keeps_invalidate show ?thesis by (auto simp: device_acquire_def split: option.splits if_splits)
qed (use assms keeps_invalidate keeps_send in
    \<open>auto simp: forward_call_def device_escape_def device_unacquire_def device_get_state_def device_get_data_def
      device_poll_def device_send_command_def split: if_splits\<close>)

section \<open>The property\<close>



end
