(* ===== verification/End_To_End.thy ===== *)
theory End_To_End imports Telemetry_Io Com_Calls "HOL-Library.Sublist" begin

text \<open>
  From a call of the game to the window of the viewer.  The wrappers hand their events to
  \<open>Telemetry::emit\<close> (\<open>src/telemetry.cpp\<close>) while workers write to the pipes and a viewer
  (\<open>viewer/protocol.py\<close>) splits what it reads.  \<open>intercepted\<close> interleaves the runs of a game with
  the steps of the engine; the viewer is applied to the bytes of one connection.
\<close>

section \<open>The system\<close>

definition noticed :: "Event \<Rightarrow> bool" where
  "noticed e \<longleftrightarrow> (\<exists>pid now d seq. e = drop_notice pid now d seq)"

text \<open>A step of the engine that takes no new event, and whose connections open with \<open>hello\<close>.\<close>

definition engine_step :: "Event \<Rightarrow> telemetry \<Rightarrow> telemetry \<Rightarrow> bool" where
  "engine_step hello t u \<longleftrightarrow> tstep t u \<and> (tm_lock t = Unlocked \<longrightarrow> tm_lock u = Unlocked)
     \<and> (\<forall>i. sk_worker (tm_sinks t i) = WHello \<longrightarrow> sk_worker (tm_sinks u i) = WLoop 0 \<longrightarrow>
          sk_wire (tm_sinks u i) = [hello])"

text \<open>The events of the wrappers are in the order in which their calls of \<open>emit\<close> come to the lock; \<open>m\<close> of
  them have been there.  \<open>emit\<close> returns at once while no sink runs (\<open>unheard\<close>); else the event is stamped
  and offered (\<open>heard\<close>).  \<open>log\<close> has the stamped events with their places.  The game may be ahead of the
  engine by any number of events, so these are more runs than a game has that waits for each call.\<close>

inductive intercepted ::
  "arch \<Rightarrow> (nat \<Rightarrow> byte option) \<Rightarrow> Event \<Rightarrow> com \<Rightarrow> nat \<Rightarrow> (nat \<times> Event) list \<Rightarrow> telemetry \<Rightarrow> bool" for ar mem hello where
  loaded: "cw_events w = [] \<Longrightarrow> guids_wf w \<Longrightarrow> intercepted ar mem hello w 0 [] initial_telemetry"
| call: "intercepted ar mem hello w m log t \<Longrightarrow> com_run ar mem w v \<Longrightarrow> intercepted ar mem hello v m log t"
| unheard: "intercepted ar mem hello w m log t \<Longrightarrow> m < length (cw_events w) \<Longrightarrow> \<not> any_running t \<Longrightarrow>
    intercepted ar mem hello w (Suc m) log t"
| heard: "intercepted ar mem hello w m log t \<Longrightarrow> m < length (cw_events w) \<Longrightarrow> any_running t \<Longrightarrow>
    tm_lock t = Unlocked \<Longrightarrow> e = stamp (tm_sequence t + 1) now (cw_events w ! m) \<Longrightarrow>
    intercepted ar mem hello w (Suc m) (log @ [(m, e)]) ((next_sequence t)\<lparr>tm_lock := Emitting e [0..<kSinkCount] None\<rparr>)"
| engine: "intercepted ar mem hello w m log t \<Longrightarrow> engine_step hello t u \<Longrightarrow> intercepted ar mem hello w m log u"

text \<open>\<open>bs\<close> are the bytes of the completed calls of \<open>send_frame\<close> on one connection.\<close>

definition sent_whole :: "Event \<Rightarrow> byte list \<Rightarrow> bool" where
  "sent_whole e b \<longleftrightarrow> (\<exists>wr. write_reports_at_most wr \<and> send_frame wr True e = (b, True))"

section \<open>Where the frames come from\<close>

definition wire_ok :: "Event set \<Rightarrow> Event \<Rightarrow> Event list \<Rightarrow> bool" where
  "wire_ok src hello es \<longleftrightarrow> es = [] \<or> hd es = hello \<and> (\<forall>e \<in> set (tl es). e \<in> src \<or> noticed e)"

definition source_ok :: "Event set \<Rightarrow> Event \<Rightarrow> sink \<Rightarrow> bool" where
  "source_ok src hello s \<longleftrightarrow> wire_ok src hello (sk_wire s) \<and> (connected (sk_worker s) \<longrightarrow> sk_wire s \<noteq> [])
     \<and> (\<forall>n \<in> set (sk_pending s) \<union> set (worker_nodes (sk_worker s)). sk_nodes s n \<in> src)"

definition engine_ok :: "Event set \<Rightarrow> Event \<Rightarrow> telemetry \<Rightarrow> bool" where
  "engine_ok src hello t \<longleftrightarrow> (\<forall>i. source_ok src hello (tm_sinks t i))
     \<and> (\<forall>e js h. tm_lock t = Emitting e js h \<longrightarrow> e \<in> src)"

lemma wire_ok_snoc: "wire_ok src hello es \<Longrightarrow> es \<noteq> [] \<Longrightarrow> e \<in> src \<or> noticed e \<Longrightarrow> wire_ok src hello (es @ [e])"
  by (cases es) (auto simp: wire_ok_def)

lemma noticed_notice [simp]: "noticed (drop_notice pid now d seq)" by (auto simp: noticed_def)

lemma source_worker:
  assumes "source_ok src hello s"
    and "sk_worker s = WHello \<Longrightarrow> io_ok env \<Longrightarrow> io_hello env = hello"
  shows "source_ok src hello (worker_step env s)"
proof (cases "sk_worker s")
  case WHello
  with assms show ?thesis by (auto simp: source_ok_def worker_step_def sink_update_defs wire_ok_def)
next
  case (WRecycle ns)
  with assms show ?thesis by (cases ns) (auto simp: source_ok_def worker_step_def sink_update_defs)
next
  case (WOverflow r b ns)
  with assms show ?thesis by (cases ns) (auto simp: source_ok_def worker_step_def sink_update_defs sort_batch_def)
next
  case (WSend r ns c)
  with assms show ?thesis
    by (cases ns) (auto simp: source_ok_def worker_step_def sink_update_defs intro!: wire_ok_snoc)
next
  case (WFail ns)
  with assms show ?thesis by (cases ns) (auto simp: source_ok_def worker_step_def sink_update_defs)
next
  case (WNotice r d c seq)
  with assms show ?thesis
    by (auto simp: source_ok_def worker_step_def sink_update_defs intro!: wire_ok_snoc)
qed (use assms in \<open>auto simp: source_ok_def worker_step_def sink_update_defs dest: in_set_takeD in_set_dropD\<close>)

lemma source_pop: "source_ok src hello s \<Longrightarrow> enqueue_pop s = (r, s') \<Longrightarrow> source_ok src hello s'"
  by (auto simp: source_ok_def enqueue_pop_def split: option.splits prod.splits)

lemma source_push: "source_ok src hello s \<Longrightarrow> e \<in> src \<Longrightarrow> source_ok src hello (enqueue_push n e s)"
  by (auto simp: source_ok_def enqueue_push_def slist_push_def)

lemma on_sink_ok: "(\<forall>i. source_ok src hello (tm_sinks t i)) \<Longrightarrow> source_ok src hello (f (tm_sinks t i)) \<Longrightarrow>
    \<forall>j. source_ok src hello (tm_sinks (on_sink i f t) j)"
  by (simp add: on_sink_def)

lemma engine_step_ok:
  assumes "engine_step hello t u" and ok: "engine_ok src hello t"
  shows "engine_ok src hello u"
proof -
  have s: "\<And>i. source_ok src hello (tm_sinks t i)" using ok by (simp add: engine_ok_def)
  have e: "\<And>e js h. tm_lock t = Emitting e js h \<Longrightarrow> e \<in> src" using ok by (simp add: engine_ok_def)
  have b: "tm_lock t = Unlocked \<Longrightarrow> tm_lock u = Unlocked"
    and h: "\<And>i. sk_worker (tm_sinks t i) = WHello \<Longrightarrow> sk_worker (tm_sinks u i) = WLoop 0 \<Longrightarrow>
      sk_wire (tm_sinks u i) = [hello]"
    using assms(1) by (auto simp: engine_step_def)
  from assms(1) have "tstep t u" by (simp add: engine_step_def)
  then show ?thesis
  proof cases
    case (start_thread i)
    have "source_ok src hello (goto WConnect (tm_sinks t i))"
      using s[of i] start_thread by (auto simp: source_ok_def goto_def)
    with s e start_thread show ?thesis by (auto simp: engine_ok_def on_sink_def)
  next
    case (start_running i)
    have "source_ok src hello ((tm_sinks t i)\<lparr>sk_running := True\<rparr>)" using s[of i] by (simp add: source_ok_def)
    with s e start_running show ?thesis by (auto simp: engine_ok_def on_sink_def)
  next
    case (emit_begin i now e)
    with b[OF emit_begin(2)] show ?thesis by simp
  next
    case (emit_skip e i js)
    with s e show ?thesis by (auto simp: engine_ok_def)
  next
    case (emit_drop e i js s')
    with s e source_pop[OF s[of i] emit_drop(4)] show ?thesis by (auto simp: engine_ok_def on_sink_def)
  next
    case (emit_pop e i js n s')
    with s e source_pop[OF s[of i] emit_pop(4)] show ?thesis by (auto simp: engine_ok_def on_sink_def)
  next
    case (emit_push ev i js n)
    with s e source_push[OF s[of i] e[OF emit_push(2)]] show ?thesis by (auto simp: engine_ok_def on_sink_def)
  next
    case (emit_end e)
    with s e show ?thesis by (auto simp: engine_ok_def)
  next
    case (worker i env)
    have "io_hello env = hello" if "sk_worker (tm_sinks t i) = WHello" "io_ok env"
      using h[of i] that worker by (simp add: on_sink_def worker_step_def goto_def)
    from source_worker[OF s this] s e worker show ?thesis by (auto simp: engine_ok_def on_sink_def)
  next
    case (notice_commit i r d c)
    have "source_ok src hello (goto (WNotice r d c (tm_sequence t + 1)) (tm_sinks t i))"
      using s[of i] notice_commit by (simp add: source_ok_def goto_def)
    with s e notice_commit show ?thesis by (auto simp: engine_ok_def on_sink_def next_sequence_def)
  next
    case (notice_defer i r d c)
    have "source_ok src hello (goto (WWait r c) (tm_sinks t i))"
      using s[of i] notice_defer by (simp add: source_ok_def goto_def)
    with s e notice_defer show ?thesis by (auto simp: engine_ok_def on_sink_def)
  qed
qed

lemma engine_ok_mono: "engine_ok src hello t \<Longrightarrow> src \<subseteq> src' \<Longrightarrow> engine_ok src' hello t"
  unfolding engine_ok_def source_ok_def wire_ok_def by blast

lemma engine_ok_heard:
  assumes "engine_ok src hello t" and "src \<subseteq> src'" and "e \<in> src'"
  shows "engine_ok src' hello ((next_sequence t)\<lparr>tm_lock := Emitting e js h\<rparr>)"
  using engine_ok_mono[OF assms(1,2)] assms(3) by (simp add: engine_ok_def next_sequence_def)

lemma engine_ok_initial: "engine_ok src hello initial_telemetry"
  by (simp add: engine_ok_def initial_telemetry_def initial_sink_def source_ok_def wire_ok_def)

lemma stamp_bounded: "event_bounded (stamp seq now e) = event_bounded e"
  by (simp add: stamp_def event_bounded_def event_wf_def)

lemma notice_bounded: "event_bounded (drop_notice pid now d seq)"
  using empty_event_bounded by (simp add: drop_notice_def event_bounded_def event_wf_def)

text \<open>The log: places in the order of the game, numbers in the order of the engine.\<close>

definition places_ok :: "Event list \<Rightarrow> nat \<Rightarrow> (nat \<times> Event) list \<Rightarrow> bool" where
  "places_ok es m log \<longleftrightarrow> m \<le> length es \<and> sorted_wrt (<) (map fst log)
     \<and> (\<forall>p \<in> set log. fst p < m \<and> (\<exists>seq now. snd p = stamp seq now (es ! fst p)))"

definition numbers_ok :: "nat \<Rightarrow> (nat \<times> Event) list \<Rightarrow> bool" where
  "numbers_ok N log \<longleftrightarrow> sorted_wrt (<) (map (\<lambda>p. unat (ev_sequence (snd p))) log)
     \<and> (\<forall>p \<in> set log. unat (ev_sequence (snd p)) \<le> N)"

lemma places_append: "places_ok es m log \<Longrightarrow> places_ok (es @ fs) m log"
  by (fastforce simp: places_ok_def nth_append)

lemma places_skip: "places_ok es m log \<Longrightarrow> m < length es \<Longrightarrow> places_ok es (Suc m) log"
  by (fastforce simp: places_ok_def)

lemma places_heard:
  "places_ok es m log \<Longrightarrow> m < length es \<Longrightarrow> places_ok es (Suc m) (log @ [(m, stamp seq now (es ! m))])"
  by (fastforce simp: places_ok_def sorted_wrt_append)

lemma numbers_heard:
  "numbers_ok N log \<Longrightarrow> unat (ev_sequence e) = Suc N \<Longrightarrow> numbers_ok (Suc N) (log @ [(m, e)])"
  by (fastforce simp: numbers_ok_def sorted_wrt_append)

lemma issued_mono: "tstep t u \<Longrightarrow> tm_issued t \<le> tm_issued u"
  by (induction rule: tstep.induct) (simp_all add: on_sink_def next_sequence_def)

lemma intercepted_ok:
  "intercepted ar mem hello w m log t \<Longrightarrow>
     reachable t \<and> guids_wf w \<and> list_all event_bounded (cw_events w) \<and> engine_ok (set (map snd log)) hello t
     \<and> places_ok (cw_events w) m log \<and> (tm_issued t < 2 ^ 64 \<longrightarrow> numbers_ok (tm_issued t) log)"
proof (induction rule: intercepted.induct)
  case (loaded w)
  then show ?case by (simp add: engine_ok_initial reachable.start places_ok_def numbers_ok_def)
next
  case (call w m log t v)
  from com_run_emits[OF call.hyps(2)] call.IH obtain es where
    "guids_wf v" "cw_events v = cw_events w @ es" "list_all event_bounded es" by (auto simp: emits_def)
  with call.IH places_append show ?case by simp
next
  case (unheard w m log t)
  with places_skip show ?case by blast
next
  case (heard w m log t e now)
  let ?u = "(next_sequence t)\<lparr>tm_lock := Emitting e [0..<kSinkCount] None\<rparr>"
  from heard.hyps(3) obtain i where "i < kSinkCount" "sk_running (tm_sinks t i)"
    by (auto simp: any_running_def sink_running_def list_ex_iff)
  with tstep.emit_begin[OF heard.hyps(4)] heard.hyps(5) have "tstep t ?u" by simp
  with heard.IH have "reachable ?u" by (blast intro: reachable.step)
  moreover have "engine_ok (set (map snd (log @ [(m, e)]))) hello ?u"
    using heard.IH by (intro engine_ok_heard[of "set (map snd log)"]) auto
  moreover have "places_ok (cw_events w) (Suc m) (log @ [(m, e)])"
    using places_heard heard.IH heard.hyps(2,5) by simp
  moreover have "numbers_ok (tm_issued ?u) (log @ [(m, e)])" if "tm_issued ?u < 2 ^ 64"
  proof -
    have i: "tm_issued ?u = Suc (tm_issued t)" by (simp add: next_sequence_def)
    have "tm_sequence t = word_of_nat (tm_issued t)" using reachable_inv heard.IH by (simp add: telemetry_inv_def)
    from sequence_next[OF this] that i have "unat (ev_sequence e) = Suc (tm_issued t)"
      by (simp add: heard.hyps(5) stamp_def)
    with heard.IH that i show ?thesis unfolding i by (intro numbers_heard) simp_all
  qed
  ultimately show ?case using heard.IH by blast
next
  case (engine w m log t u)
  then have step: "tstep t u" by (simp add: engine_step_def)
  have "numbers_ok (tm_issued u) log" if "tm_issued u < 2 ^ 64"
    using that engine.IH issued_mono[OF step] by (fastforce simp: numbers_ok_def)
  with engine engine_step_ok reachable.step[OF _ step] show ?case by blast
qed

text \<open>Of two lists in the order of their numbers, one with fewer members is a part of the other.\<close>

lemma ordered_subseq:
  fixes f :: "'a \<Rightarrow> nat"
  assumes "sorted_wrt (<) (map f xs)" and "sorted_wrt (<) (map f ys)" and "set xs \<subseteq> set ys"
  shows "subseq xs ys"
  using assms
proof (induction ys arbitrary: xs)
  case (Cons y ys)
  show ?case
  proof (cases xs)
    case (Cons x xs')
    have later: "z \<in> set ys" if "z \<in> set xs" "f y < f z" for z using that Cons.prems(3) by auto
    show ?thesis
    proof (cases "x = y")
      case True
      have "set xs' \<subseteq> set ys" using Cons.prems(1) later unfolding Cons True by auto
      with Cons.IH[of xs'] Cons.prems(1,2) show ?thesis unfolding Cons True by simp
    next
      case False
      then have "x \<in> set ys" using Cons.prems(3) unfolding Cons by auto
      then have "f y < f x" using Cons.prems(2) by simp
      moreover from this have "f y < f z" if "z \<in> set xs'" for z using that Cons.prems(1) unfolding Cons by fastforce
      ultimately have "set xs \<subseteq> set ys" using later unfolding Cons by auto
      from Cons.IH[OF Cons.prems(1) _ this] Cons.prems(2) show ?thesis by (simp add: list_emb_Cons)
    qed
  qed simp
qed simp

lemma ordered_equal:
  "sorted_wrt (<) (map f xs) \<Longrightarrow> sorted_wrt (<) (map f ys) \<Longrightarrow> set xs = set ys \<Longrightarrow> xs = ys" for f :: "'a \<Rightarrow> nat"
  using ordered_subseq[of f xs ys] ordered_subseq[of f ys xs] by (intro subseq_order.antisym) auto

lemma sorted_map_filter: "sorted_wrt (<) (map f xs) \<Longrightarrow> sorted_wrt (<) (map f (filter P xs))" for f :: "'a \<Rightarrow> nat"
  by (induction xs) auto

text \<open>Frames in the order of their numbers that come from the log are in the order of the game.\<close>

lemma shown_in_order:
  assumes "places_ok es m log" and "numbers_ok N log" and "sorted_wrt (<) (map (\<lambda>e. unat (ev_sequence e)) shown)"
    and "set shown \<subseteq> set (map snd log)"
  shows "\<exists>idx. sorted_wrt (<) idx \<and> set idx \<subseteq> {..<length es}
    \<and> list_all2 (\<lambda>x k. \<exists>seq now. x = stamp seq now (es ! k)) shown idx"
proof -
  let ?log = "filter (\<lambda>p. snd p \<in> set shown) log"
  have "sorted_wrt (<) (map (\<lambda>e. unat (ev_sequence e)) (map snd ?log))"
    using sorted_map_filter[of "\<lambda>p. unat (ev_sequence (snd p))" log] assms(2) by (simp add: numbers_ok_def comp_def)
  moreover have "set shown = set (map snd ?log)" using assms(4) by auto
  ultimately have s: "shown = map snd ?log" by (intro ordered_equal[OF assms(3)])
  have "sorted_wrt (<) (map fst ?log)" using sorted_map_filter[of fst log] assms(1) by (simp add: places_ok_def)
  moreover have "list_all2 (\<lambda>x k. \<exists>seq now. x = stamp seq now (es ! k)) (map snd ?log) (map fst ?log)"
  proof -
    have "\<exists>seq now. snd p = stamp seq now (es ! fst p)" if "p \<in> set ?log" for p
      using assms(1) that by (simp add: places_ok_def)
    then show ?thesis unfolding list.rel_map by (intro list.rel_refl_strong)
  qed
  moreover have "set (map fst ?log) \<subseteq> {..<length es}" using assms(1) by (fastforce simp: places_ok_def)
  ultimately show ?thesis using s by (intro exI[of _ "map fst ?log"]) simp
qed

lemma sent_whole_eq: "sent_whole e b \<Longrightarrow> event_wf e \<Longrightarrow> b = serialize_event e"
  using send_loop_spec[of _ 0 "serialize_event e" 0 b True] serialize_event_bounds[of e]
  by (fastforce simp: sent_whole_def send_frame_def Let_def kMaxFrameSize_def)

lemma sent_all_eq: "list_all2 sent_whole es bs \<Longrightarrow> list_all event_bounded es \<Longrightarrow> concat bs = concat (map serialize_event es)"
  by (induction rule: list_all2_induct) (auto simp: event_bounded_def dest: sent_whole_eq)

lemma cut_send:
  assumes "write_reports_at_most wr" and "event_wf e" and "send_frame wr allocated e = (part, False)"
  shows "\<exists>n < length (serialize_event e). part = take n (serialize_event e)"
proof (cases allocated)
  case False
  with assms(3) serialize_event_bounds[OF assms(2)] show ?thesis by (intro exI[of _ 0]) (auto simp: send_frame_def)
next
  case True
  with assms serialize_event_bounds[OF assms(2)] have "send_loop wr 0 (serialize_event e) 0 = (part, False)"
    by (simp add: send_frame_def Let_def kMaxFrameSize_def)
  from send_loop_spec[OF assms(1) _ this] obtain n where
    "part = take n (serialize_event e)" "n \<le> length (serialize_event e)" "n \<noteq> length (serialize_event e)" by auto
  then show ?thesis by (intro exI[of _ n]) simp
qed

lemma wire_bounded:
  assumes "wire_ok src hello es" and "event_bounded hello" and "\<forall>e \<in> src. event_bounded e"
  shows "list_all event_bounded es"
proof (cases es)
  case (Cons e r)
  have "event_bounded x" if "x \<in> src \<or> noticed x" for x
    using that assms(3) by (auto simp: noticed_def notice_bounded)
  with Cons assms show ?thesis by (auto simp: wire_ok_def list_all_iff)
qed simp

section \<open>A run\<close>

lemma engine_quiet:
  assumes "intercepted ar mem hello w m log t" and "tstep t u" and "tm_lock t \<noteq> Unlocked \<or> tm_lock u = Unlocked"
    and "sk_worker (tm_sinks t 0) \<noteq> WHello" and "\<And>i. i \<noteq> 0 \<Longrightarrow> tm_sinks t i = initial_sink"
  shows "intercepted ar mem hello w m log u"
proof (rule intercepted.engine[OF assms(1)])
  have "sk_worker (tm_sinks t i) \<noteq> WHello" for i
    using assms(4) assms(5)[of i] by (cases "i = 0") (auto simp: initial_sink_def)
  with assms(2,3) show "engine_step hello t u" by (auto simp: engine_step_def)
qed

lemma sample_opens:
  assumes "intercepted ar mem hello w 0 [] initial_telemetry"
  shows "\<exists>t. intercepted ar mem hello w 0 [] t \<and> tm_lock t = Unlocked \<and> tm_sequence t = 0 \<and> tm_issued t = 0
    \<and> (\<forall>i. i \<noteq> 0 \<longrightarrow> tm_sinks t i = initial_sink)
    \<and> tm_sinks t 0 = initial_sink\<lparr>sk_running := True, sk_wire := [hello], sk_worker := WLoop 0\<rparr>"
proof -
  note unf = on_sink_def goto_def kSinkCount_def initial_telemetry_def
  have init: "sk_worker initial_sink = WIdle" by (simp add: initial_sink_def)
  let ?io = "sample_io\<lparr>io_hello := hello\<rparr>"
  define t1 where "t1 = on_sink 0 (goto WConnect) initial_telemetry"
  have "tstep initial_telemetry t1" unfolding t1_def by (rule tstep.start_thread) (simp_all add: unf init)
  from engine_quiet[OF assms this] have r1: "intercepted ar mem hello w 0 [] t1" by (simp add: t1_def unf init)
  define t2 where "t2 = on_sink 0 (sk_running_update (\<lambda>_. True)) t1"
  have "tstep t1 t2" unfolding t2_def by (rule tstep.start_running) (simp_all add: t1_def unf)
  from engine_quiet[OF r1 this] have r2: "intercepted ar mem hello w 0 [] t2" by (simp add: t2_def t1_def unf)
  define t3 where "t3 = on_sink 0 (worker_step ?io) t2"
  have t3: "t3 = initial_telemetry\<lparr>tm_sinks := (\<lambda>_. initial_sink)(0 := initial_sink\<lparr>sk_running := True, sk_worker := WHello\<rparr>)\<rparr>"
    by (simp add: t3_def t2_def t1_def unf worker_step_def sample_io_def)
  have "tstep t2 t3" unfolding t3_def by (rule tstep.worker) (simp add: unf)
  from engine_quiet[OF r2 this] have r3: "intercepted ar mem hello w 0 [] t3" by (simp add: t3 t2_def t1_def unf)
  define t4 where "t4 = on_sink 0 (worker_step ?io) t3"
  have t4: "t4 = initial_telemetry\<lparr>tm_sinks := (\<lambda>_. initial_sink)(0 := initial_sink\<lparr>sk_running := True, sk_wire := [hello], sk_worker := WLoop 0\<rparr>)\<rparr>"
    by (simp add: t4_def t3 unf worker_step_def sample_io_def)
  have "tstep t3 t4" unfolding t4_def by (rule tstep.worker) (simp add: unf)
  then have "engine_step hello t3 t4" by (auto simp: engine_step_def t3 t4 unf init)
  from intercepted.engine[OF r3 this] show ?thesis by (intro exI[of _ t4]) (simp add: t4 unf)
qed

lemma sample_intercepted:
  assumes "intercepted ar mem hello w 0 [] initial_telemetry" and "cw_events w \<noteq> []"
  shows "\<exists>t. intercepted ar mem hello w 1 [(0, stamp 1 0 (hd (cw_events w)))] t \<and> tm_issued t = 1 \<and> sk_wire (tm_sinks t 0) = [hello, stamp 1 0 (hd (cw_events w))]"
proof -
  let ?e = "stamp 1 0 (hd (cw_events w))"
  let ?h = "initial_sink\<lparr>sk_running := True, sk_wire := [hello], sk_worker := WLoop 0\<rparr>"
  obtain t where t: "intercepted ar mem hello w 0 [] t" "tm_lock t = Unlocked" "tm_sequence t = 0" "tm_issued t = 0"
    "\<And>i. i \<noteq> 0 \<Longrightarrow> tm_sinks t i = initial_sink" and t0: "tm_sinks t 0 = ?h"
    using sample_opens[OF assms(1)] by auto
  have idle: "\<not> sk_running initial_sink" by (simp add: initial_sink_def)
  obtain n fr where free: "sk_free initial_sink = n # fr"
    by (cases "sk_free initial_sink") (simp_all add: initial_sink_def push_all_rev kQueueCapacity_def)
  define t4 where "t4 = (next_sequence t)\<lparr>tm_lock := Emitting ?e [0, Suc 0] None\<rparr>"
  have "any_running t" unfolding any_running_def sink_running_def list_ex_iff
    by (rule bexI[of _ 0]) (simp_all add: t0 kSinkCount_def)
  from intercepted.heard[OF t(1) _ this t(2) refl, of 0] assms(2)
  have r4: "intercepted ar mem hello w 1 [(0, ?e)] t4"
    by (simp add: t4_def t(3) kSinkCount_def numeral_2_eq_2 hd_conv_nth)
  have t4: "tm_sinks t4 = tm_sinks t" "tm_lock t4 = Emitting ?e [0, Suc 0] None" by (simp_all add: t4_def next_sequence_def)
  define s4 where "s4 = ?h\<lparr>sk_free := fr, sk_offered := Suc (sk_offered ?h)\<rparr>"
  have pop: "enqueue_pop (tm_sinks t4 0) = (Some n, s4)" by (simp add: s4_def t4 t0 free enqueue_pop_def)
  define t5 where "t5 = (on_sink 0 (\<lambda>_. s4) t4)\<lparr>tm_lock := Emitting ?e [0, Suc 0] (Some n)\<rparr>"
  have "tstep t4 t5" unfolding t5_def by (intro tstep.emit_pop pop) (simp_all add: t4 t0)
  from engine_quiet[OF r4 this] have r5: "intercepted ar mem hello w 1 [(0, stamp 1 0 (hd (cw_events w)))] t5" by (simp add: t4 t(5) t0)
  have t5: "tm_sinks t5 = (tm_sinks t)(0 := s4)" "tm_lock t5 = Emitting ?e [0, Suc 0] (Some n)"
    by (simp_all add: t5_def on_sink_def t4)
  define t6 where "t6 = (on_sink 0 (enqueue_push n ?e) t5)\<lparr>tm_lock := Emitting ?e [Suc 0] None\<rparr>"
  have "tstep t5 t6" unfolding t6_def by (rule tstep.emit_push) (simp add: t5_def)
  from engine_quiet[OF r5 this] have r6: "intercepted ar mem hello w 1 [(0, stamp 1 0 (hd (cw_events w)))] t6" by (simp add: t5 t(5) s4_def)
  have t6: "tm_sinks t6 = (tm_sinks t)(0 := enqueue_push n ?e s4)" "tm_lock t6 = Emitting ?e [Suc 0] None"
    by (simp_all add: t6_def on_sink_def t5)
  define t7 where "t7 = t6\<lparr>tm_lock := Emitting ?e [] None\<rparr>"
  have "tstep t6 t7" unfolding t7_def by (rule tstep.emit_skip[where i = "Suc 0"]) (simp_all add: t6 t(5) idle)
  from engine_quiet[OF r6 this] have r7: "intercepted ar mem hello w 1 [(0, stamp 1 0 (hd (cw_events w)))] t7"
    by (simp add: t6 t(5) s4_def enqueue_push_def)
  have t7: "tm_sinks t7 = tm_sinks t6" "tm_lock t7 = Emitting ?e [] None" by (simp_all add: t7_def)
  define t8 where "t8 = t7\<lparr>tm_lock := Unlocked\<rparr>"
  have "tstep t7 t8" unfolding t8_def by (rule tstep.emit_end) (simp add: t7_def)
  from engine_quiet[OF r7 this] have r8: "intercepted ar mem hello w 1 [(0, stamp 1 0 (hd (cw_events w)))] t8"
    by (simp add: t8_def t7 t6 t(5) s4_def enqueue_push_def)
  define w1 where "w1 = on_sink 0 (worker_step sample_io) t8"
  define w2 where "w2 = on_sink 0 (worker_step sample_io) w1"
  define w3 where "w3 = on_sink 0 (worker_step sample_io) w2"
  let ?s = "enqueue_push n ?e s4"
  have s8: "tm_sinks t8 0 = ?s" "\<And>i. i \<noteq> 0 \<Longrightarrow> tm_sinks t8 i = initial_sink"
    by (simp_all add: t8_def t7_def t6 t(5))
  have s: "sk_worker ?s = WLoop 0" "sk_pending ?s = [n]" "sk_nodes ?s n = ?e" "sk_wire ?s = [hello]"
    by (simp_all add: enqueue_push_def s4_def slist_push_def initial_sink_def)
  have k: "take kQueueCapacity [n] = [n]" "drop kQueueCapacity [n] = []" by (simp_all add: kQueueCapacity_def)
  have step: "intercepted ar mem hello w 1 [(0, stamp 1 0 (hd (cw_events w)))] (on_sink 0 (worker_step sample_io) u)"
    if "intercepted ar mem hello w 1 [(0, stamp 1 0 (hd (cw_events w)))] u" "tm_lock u = Unlocked" "sk_worker (tm_sinks u 0) \<noteq> WHello"
      "\<And>i. i \<noteq> 0 \<Longrightarrow> tm_sinks u i = initial_sink" for u
    by (rule engine_quiet[OF that(1) tstep.worker]) (use that in \<open>auto simp: kSinkCount_def on_sink_def\<close>)
  have l: "tm_lock t8 = Unlocked" by (simp add: t8_def)
  have x1: "sk_worker (worker_step sample_io ?s) \<noteq> WHello" "sk_worker (worker_step sample_io (worker_step sample_io ?s)) \<noteq> WHello"
    using s k by (simp_all add: worker_step_def sink_update_defs sort_batch_def)
  have r9: "intercepted ar mem hello w 1 [(0, stamp 1 0 (hd (cw_events w)))] w1" unfolding w1_def by (rule step[OF r8 l]) (use s8 s in auto)
  have "intercepted ar mem hello w 1 [(0, stamp 1 0 (hd (cw_events w)))] w2" unfolding w2_def
    by (rule step[OF r9]) (use s8 l x1 in \<open>auto simp: w1_def on_sink_def\<close>)
  then have r: "intercepted ar mem hello w 1 [(0, stamp 1 0 (hd (cw_events w)))] w3" unfolding w3_def
    by (rule step) (use s8 l x1 in \<open>auto simp: w2_def w1_def on_sink_def\<close>)
  have "sk_wire (tm_sinks w3 0) = [hello, ?e]"
    using sample_deliver[OF s(1,2,3,4)] s8(1) by (simp add: w3_def w2_def w1_def on_sink_def)
  moreover have "tm_issued w3 = 1"
    by (simp add: w3_def w2_def w1_def on_sink_def t8_def t7_def t6_def t5_def t4_def next_sequence_def t(4))
  ultimately show ?thesis using r by blast
qed

section \<open>The property\<close>

text \<open>C1: what the viewer shows is what the game did.  Whatever calls the game makes, whatever the
  interleaving of producers and workers and wherever a connection breaks off, the viewer splits the
  bytes of the connection into frames without an error: first the hello, then frames of strictly
  increasing sequence numbers.  Those of them that are not drop notices are events that wrappers
  emitted, each at most once and in the order in which the game caused them, with their numbers and
  times.  The last, cut frame is not shown.\<close>

theorem viewer_shows_what_the_game_did:
  assumes "intercepted ar mem (hello_event to_utf8 a pid freq version session full) w m log t"
    and "i < kSinkCount" and "tm_issued t < 2 ^ 64" and "es = sk_wire (tm_sinks t i)"
    and "list_all2 sent_whole es bs"
    and "write_reports_at_most wr" and "event_bounded e" and "send_frame wr allocated e = (part, False)"
  shows "iter_frames (concat bs @ part) = (map frame_of_event es, None, part)
    \<and> (es = [] \<or> hd es = hello_event to_utf8 a pid freq version session full)
    \<and> sorted_wrt (<) (map ev_sequence (tl es))
    \<and> (\<exists>idx. sorted_wrt (<) idx \<and> set idx \<subseteq> {..<length (cw_events w)}
        \<and> list_all2 (\<lambda>x k. \<exists>seq now. x = stamp seq now (cw_events w ! k)) (filter (\<lambda>x. \<not> noticed x) (tl es)) idx)"
proof -
  let ?h = "hello_event to_utf8 a pid freq version session full"
  from intercepted_ok[OF assms(1)] assms(3) have r: "reachable t" and b: "\<forall>e \<in> set (cw_events w). event_bounded e"
    and wire: "wire_ok (set (map snd log)) ?h es" and places: "places_ok (cw_events w) m log"
    and numbers: "numbers_ok (tm_issued t) log" by (auto simp: engine_ok_def source_ok_def list_all_iff assms(4))
  have logged: "\<forall>e \<in> set (map snd log). event_bounded e"
    using places b by (auto simp: places_ok_def stamp_bounded)
  have es: "list_all event_bounded es" by (rule wire_bounded[OF wire hello_event_bounded logged])
  have wf: "event_wf e" using assms(7) by (simp add: event_bounded_def)
  from cut_send[OF assms(6) wf assms(8)] obtain n where
    n: "n < length (serialize_event e)" "part = take n (serialize_event e)" by blast
  have "iter_frames (concat bs @ part) = (map frame_of_event es, None, part)"
    using iter_frames_stream[OF es iter_frames_partial[OF wf n(1)]] n(2) sent_all_eq[OF assms(5) es] by simp
  moreover have order: "sorted_wrt (<) (map (\<lambda>e. unat (ev_sequence e)) (tl es))"
    using reachable_order[OF r assms(2,3)] by (simp add: timeline_def sorted_wrt_append wire_seqs_def assms(4))
  moreover from this have "sorted_wrt (<) (map ev_sequence (tl es))"
    by (simp only: sorted_wrt_map word_less_nat_alt)
  moreover have "set (filter (\<lambda>x. \<not> noticed x) (tl es)) \<subseteq> set (map snd log)"
    using wire by (cases es) (auto simp: wire_ok_def)
  moreover have "es = [] \<or> hd es = ?h" using wire by (auto simp: wire_ok_def)
  ultimately show ?thesis using shown_in_order[OF places numbers sorted_map_filter[OF order]] by blast
qed

text \<open>A game fails to create a device: the viewer shows the hello, then the failure.\<close>

theorem viewer_shows_what_the_game_did_witness:
  "\<exists>h x. iter_frames (serialize_event h @ serialize_event x @ take 40 (serialize_event empty_event))
      = ([frame_of_event h, frame_of_event x], None, take 40 (serialize_event empty_event))
    \<and> h = hello_event (map ucast) X64 7 1000 (ascii ''1.0'') (ascii ''7-1'') (wide ''C:/a/b.exe'')
    \<and> ev_type x = DeviceCreated \<and> ev_hresult x = 0x80004005"
proof -
  define h where "h = hello_event (map ucast) X64 7 1000 (ascii ''1.0'') (ascii ''7-1'') (wide ''C:/a/b.exe'')"
  define v where "v = emit_device 0 GUID_NULL 0x80004005 [] empty_com"
  have e: "cw_events empty_com = []" "guids_wf empty_com" by (simp_all add: empty_com_def guids_wf_def empty_registry_def)
  have "create_device True True (Some 3) GUID_NULL False 0x80004005 None [] sample_env empty_com = Some (0x80004005, INull, v)"
    by (simp add: create_device_def v_def)
  from com_run.create_device[OF com_run.finished null_guid_wf this]
  have "com_run X64 (\<lambda>_. None) empty_com v" .
  from intercepted.call[OF intercepted.loaded[OF e] this]
  have v: "intercepted X64 (\<lambda>_. None) h v 0 [] initial_telemetry" .
  define x where "x = hd (cw_events v)"
  have x: "cw_events v \<noteq> []" "ev_type x = DeviceCreated" "ev_hresult x = 0x80004005"
    by (simp_all add: x_def v_def emit_device_def emit_event_def e)
  from sample_intercepted[OF v x(1)] obtain t where
    t: "intercepted X64 (\<lambda>_. None) h v 1 [(0, stamp 1 0 x)] t" "tm_issued t = 1" "sk_wire (tm_sinks t 0) = [h, stamp 1 0 x]"
    unfolding x_def by blast
  have "0 < kSinkCount" "tm_issued t < 2 ^ 64" unfolding t(2) by (simp_all add: kSinkCount_def)
  note main = viewer_shows_what_the_game_did[OF t(1)[unfolded h_def] this t(3)[symmetric], folded h_def]
  have wf: "event_wf h" "event_wf (stamp 1 0 x)" "event_wf empty_event"
    using hello_event_bounded empty_event_bounded intercepted_ok[OF v] hd_in_set[OF x(1)] stamp_bounded[of 1 0 x]
    unfolding event_bounded_def h_def list_all_iff x_def by blast+
  have len: "494 \<le> length (serialize_event e) \<and> length (serialize_event e) \<le> 557" if "event_wf e" for e
    using serialize_event_bounds[OF that] .
  have whole: "sent_whole e (serialize_event e)" if "event_wf e" for e
  proof -
    have "send_loop (\<lambda>k d. Some (length d)) 0 (serialize_event e) 0 = (serialize_event e, True)"
      using len[OF that] by (simp add: send_loop.simps)
    then show ?thesis using len[OF that] unfolding sent_whole_def
      by (intro exI[of _ "\<lambda>k d. Some (length d)"]) (simp add: send_frame_def Let_def kMaxFrameSize_def write_reports_at_most_def)
  qed
  have empty: "serialize_event empty_event \<noteq> []" using len[OF wf(3)] by auto
  let ?wr = "\<lambda>k d. if k = 0 then Some (min 40 (length d)) else None"
  have "send_frame ?wr True empty_event = (take 40 (serialize_event empty_event), False)"
    using len[OF wf(3)] empty by (simp add: send_frame_def Let_def kMaxFrameSize_def send_loop.simps)
  moreover have "list_all2 sent_whole [h, stamp 1 0 x] [serialize_event h, serialize_event (stamp 1 0 x)]"
    using whole wf(1,2) by simp
  moreover have "write_reports_at_most ?wr" by (simp add: write_reports_at_most_def)
  ultimately have "iter_frames (concat [serialize_event h, serialize_event (stamp 1 0 x)] @ take 40 (serialize_event empty_event))
      = (map frame_of_event [h, stamp 1 0 x], None, take 40 (serialize_event empty_event))"
    using main[OF _ _ empty_event_bounded] by blast
  with x(2,3) show ?thesis
    by (intro exI[of _ h] exI[of _ "stamp 1 0 x"]) (simp add: stamp_def h_def[symmetric])
qed

end
