(* ===== verification/Telemetry_Bench.thy ===== *)
theory Telemetry_Bench imports Telemetry_Io begin

text \<open>
  The accessors of \<open>src/telemetry.cpp\<close> that builds with \<open>FFB_TESTING\<close> have: starting the sinks without
  threads, draining them and reading their counters.  \<open>bn_wake\<close> says which sink has an event; the
  result is the engine after the call.
\<close>

record bench =
  bn_engine :: telemetry
  bn_wake :: "nat \<Rightarrow> bool"

definition bench_cleanup :: "nat \<Rightarrow> bench \<Rightarrow> bench" where
  "bench_cleanup i b =
     b\<lparr>bn_engine := on_sink i (sk_running_update (\<lambda>_. False)) (bn_engine b), bn_wake := (bn_wake b)(i := False)\<rparr>"

definition bench_start :: "nat \<Rightarrow> bench \<Rightarrow> bench" where
  "bench_start i b =
     b\<lparr>bn_engine := on_sink i (\<lambda>s. s\<lparr>sk_dropped := 0, sk_running := True\<rparr>) (bn_engine b),
       bn_wake := (bn_wake b)(i := True)\<rparr>"

fun bench_loop :: "(nat \<Rightarrow> bool) \<Rightarrow> nat list \<Rightarrow> bench \<Rightarrow> bool \<times> bench" where
  "bench_loop created [] b = (True, b\<lparr>bn_engine := (bn_engine b)\<lparr>tm_sequence := 0\<rparr>\<rparr>)"
| "bench_loop created (i # js) b =
     (if \<not> created i then (False, fold bench_cleanup [0..<kSinkCount] (b\<lparr>bn_wake := (bn_wake b)(i := False)\<rparr>))
      else bench_loop created js (bench_start i b))"

definition begin_benchmark_for_test :: "(nat \<Rightarrow> bool) \<Rightarrow> bench \<Rightarrow> bool \<times> bench" where
  "begin_benchmark_for_test created b =
     (if any_running (bn_engine b) then (False, b) else bench_loop created [0..<kSinkCount] b)"

definition drain_sink_for_test :: "nat \<Rightarrow> bench \<Rightarrow> nat \<times> bench" where
  "drain_sink_for_test i b =
     (if kSinkCount \<le> i then (0, b)
      else (fst (drain_sink (tm_sinks (bn_engine b) i)),
        b\<lparr>bn_engine := on_sink i (\<lambda>s. snd (drain_sink s)) (bn_engine b)\<rparr>))"

definition drain_for_test :: "bench \<Rightarrow> nat \<times> bench" where
  "drain_for_test b =
     (case drain_sink_for_test 0 b of
        (primary_count, b) \<Rightarrow> (primary_count, fold (\<lambda>i b. snd (drain_sink_for_test i b)) [1..<kSinkCount] b))"

definition dropped_for_sink_for_test :: "nat \<Rightarrow> bench \<Rightarrow> u64" where
  "dropped_for_sink_for_test i b = (if kSinkCount \<le> i then 0 else sk_dropped (tm_sinks (bn_engine b) i))"

definition dropped_for_test :: "bench \<Rightarrow> u64" where "dropped_for_test b = dropped_for_sink_for_test 0 b"

definition bench_stop :: "nat \<Rightarrow> bench \<Rightarrow> bench" where
  "bench_stop i b =
     b\<lparr>bn_engine := on_sink i (\<lambda>s. snd (drain_sink (s\<lparr>sk_running := False\<rparr>))) (bn_engine b),
       bn_wake := (bn_wake b)(i := False)\<rparr>"

definition end_benchmark_for_test :: "bench \<Rightarrow> bench" where
  "end_benchmark_for_test b = fold bench_stop [0..<kSinkCount] b"

section \<open>What the accessors leave\<close>

lemma sinks_upt: "[0..<kSinkCount] = [0, Suc 0]" by (simp add: kSinkCount_def numeral_2_eq_2)

lemmas bench_defs = begin_benchmark_for_test_def bench_start_def bench_cleanup_def bench_stop_def end_benchmark_for_test_def
  on_sink_def any_running_def sink_running_def sinks_upt

text \<open>Either every sink runs, with its event and a fresh count, or no sink runs and no event is left open.\<close>

lemma benchmark_starts_all_or_nothing:
  assumes "\<not> any_running (bn_engine b)" and "begin_benchmark_for_test created b = (ok, b')" and "i < kSinkCount"
  shows "sink_running (bn_engine b') i = ok \<and> bn_wake b' i = ok"
    and "ok \<Longrightarrow> dropped_for_sink_for_test i b' = 0 \<and> tm_sequence (bn_engine b') = 0"
  using assms by (auto simp: bench_defs dropped_for_sink_for_test_def kSinkCount_def less_Suc_eq numeral_2_eq_2 split: if_splits)

lemma drained_empty: "sk_pending (snd (drain_sink s)) = []"
  by (simp add: drain_sink_def slist_flush_def)

text \<open>Afterwards no sink runs, none has an event or anything pending, and no node is lost.\<close>

lemma benchmark_ends_empty:
  assumes "i < kSinkCount"
  shows "\<not> sink_running (bn_engine (end_benchmark_for_test b)) i \<and> \<not> bn_wake (end_benchmark_for_test b) i
    \<and> sk_pending (tm_sinks (bn_engine (end_benchmark_for_test b)) i) = []
    \<and> mset (sk_free (tm_sinks (bn_engine (end_benchmark_for_test b)) i))
      = mset (sk_free (tm_sinks (bn_engine b) i)) + mset (sk_pending (tm_sinks (bn_engine b) i))"
proof -
  have running: "sk_running (snd (drain_sink s)) = sk_running s" for s by (simp add: drain_sink_def slist_flush_def)
  have nodes: "mset (sk_free (snd (drain_sink s))) = mset (sk_free s) + mset (sk_pending s)" for s
    using drain_sink_conserves[of s] drained_empty[of s] by simp
  from assms consider "i = 0" | "i = Suc 0" by (auto simp: kSinkCount_def less_Suc_eq numeral_2_eq_2)
  then show ?thesis by cases (simp_all add: bench_defs drained_empty running nodes)
qed

end
