(* ===== verification/Proxy_Dll.thy ===== *)
theory Proxy_Dll imports Com_Input begin

text \<open>
  The drop-in \<open>dinput8.dll\<close>: \<open>src/proxy.cpp\<close>, \<open>src/proxy.h\<close> and \<open>src/dllmain.cpp\<close>.  The library
  of the system is loaded on the first call of an export, under a one-time initialization; every
  export has an answer of its own for when it, or the function it stands for, is missing.
\<close>

section \<open>The real library\<close>

datatype di8_export =
  DirectInput8Create | DllCanUnloadNow | DllGetClassObject | DllRegisterServer | DllUnregisterServer

record OriginalDI8 =
  hModule :: "nat option"
  o_DirectInput8Create :: "nat option"
  o_DllCanUnloadNow :: "nat option"
  o_DllGetClassObject :: "nat option"
  o_DllRegisterServer :: "nat option"
  o_DllUnregisterServer :: "nat option"

definition no_original :: OriginalDI8 where
  "no_original = \<lparr>hModule = None, o_DirectInput8Create = None, o_DllCanUnloadNow = None,
     o_DllGetClassObject = None, o_DllRegisterServer = None, o_DllUnregisterServer = None\<rparr>"

text \<open>What the loader answers: the module \<open>LoadLibraryExW\<close> gives, and the addresses
  \<open>GetProcAddress\<close> finds in it.\<close>

type_synonym loader = "nat option \<times> (di8_export \<Rightarrow> nat option)"

text \<open>The state of the process: the instance, the \<open>INIT_ONCE\<close> and the \<open>loaded\<close> variables, and the
  number of calls of \<open>LoadLibraryExW\<close> that have been made.\<close>

record proxy =
  px_original :: OriginalDI8
  px_once :: bool
  px_loaded :: bool
  px_library_loads :: nat

definition initial_proxy :: proxy where
  "initial_proxy = \<lparr>px_original = no_original, px_once = False, px_loaded = False, px_library_loads = 0\<rparr>"

definition resolve :: "loader \<Rightarrow> OriginalDI8 \<Rightarrow> OriginalDI8" where
  "resolve l api = (case l of (module, proc) \<Rightarrow>
     let api = api\<lparr>hModule := module\<rparr> in
     if module = None then api
     else api\<lparr>o_DirectInput8Create := proc DirectInput8Create, o_DllCanUnloadNow := proc DllCanUnloadNow,
       o_DllGetClassObject := proc DllGetClassObject, o_DllRegisterServer := proc DllRegisterServer,
       o_DllUnregisterServer := proc DllUnregisterServer\<rparr>)"

definition load_once :: "loader \<Rightarrow> proxy \<Rightarrow> proxy" where
  "load_once l p =
     (let api = resolve l (px_original p) in
      p\<lparr>px_original := api, px_once := True, px_library_loads := Suc (px_library_loads p),
        px_loaded := (if hModule api = None then px_loaded p else o_DirectInput8Create api \<noteq> None)\<rparr>)"

definition proxy_load :: "loader \<Rightarrow> proxy \<Rightarrow> bool \<times> proxy" where
  "proxy_load l p = (let p = (if px_once p then p else load_once l p) in (px_loaded p, p))"

section \<open>The exports\<close>

definition S_FALSE :: i32 where "S_FALSE = 1"
definition CLASS_E_CLASSNOTAVAILABLE :: i32 where "CLASS_E_CLASSNOTAVAILABLE = 0x80040111"

text \<open>An export either answers itself (\<open>Inl\<close>) or returns what the function at an address answers
  (\<open>Inr\<close>).\<close>

definition forward_or :: "i32 \<Rightarrow> (OriginalDI8 \<Rightarrow> nat option) \<Rightarrow> loader \<Rightarrow> proxy \<Rightarrow> (i32 + nat) \<times> proxy" where
  "forward_or fallback member l p =
     (case proxy_load l p of
        (loaded, p) \<Rightarrow>
          (case member (px_original p) of
             None \<Rightarrow> (Inl fallback, p)
           | Some f \<Rightarrow> (if loaded then Inr f else Inl fallback, p)))"

definition dll_can_unload_now :: "loader \<Rightarrow> proxy \<Rightarrow> (i32 + nat) \<times> proxy" where
  "dll_can_unload_now = forward_or S_FALSE o_DllCanUnloadNow"

definition dll_get_class_object :: "loader \<Rightarrow> proxy \<Rightarrow> (i32 + nat) \<times> proxy" where
  "dll_get_class_object = forward_or CLASS_E_CLASSNOTAVAILABLE o_DllGetClassObject"

definition dll_register_server :: "loader \<Rightarrow> proxy \<Rightarrow> (i32 + nat) \<times> proxy" where
  "dll_register_server = forward_or E_FAIL o_DllRegisterServer"

definition dll_unregister_server :: "loader \<Rightarrow> proxy \<Rightarrow> (i32 + nat) \<times> proxy" where
  "dll_unregister_server = forward_or E_FAIL o_DllUnregisterServer"

text \<open>\<open>answer\<close>: what the function at an address returns, and the interface it gives.\<close>

definition direct_input8_create ::
  "(nat \<Rightarrow> i32 \<times> nat option) \<Rightarrow> iid \<Rightarrow> bool \<Rightarrow> bool \<Rightarrow> device_env \<Rightarrow> loader \<Rightarrow> proxy \<Rightarrow> com
    \<Rightarrow> (i32 \<times> iface \<times> com) option \<times> proxy" where
  "direct_input8_create answer riid valid_out outer env l p w =
     (if \<not> valid_out then (Some (E_POINTER, INull, w), p)
      else case proxy_load l p of
        (loaded, p) \<Rightarrow>
          if \<not> loaded \<or> o_DirectInput8Create (px_original p) = None
          then (Some (DIERR_NOTINITIALIZED, INull, w), p)
          else (intercept_direct_input8_create
                  (map_option answer (o_DirectInput8Create (px_original p))) riid valid_out outer env w, p))"

text \<open>One export by its name; of \<open>DirectInput8Create\<close> only the loading is kept here.\<close>

definition export_call :: "di8_export \<Rightarrow> loader \<Rightarrow> proxy \<Rightarrow> (i32 + nat) \<times> proxy" where
  "export_call x l p =
     (case x of
        DirectInput8Create \<Rightarrow> forward_or DIERR_NOTINITIALIZED o_DirectInput8Create l p
      | DllCanUnloadNow \<Rightarrow> dll_can_unload_now l p
      | DllGetClassObject \<Rightarrow> dll_get_class_object l p
      | DllRegisterServer \<Rightarrow> dll_register_server l p
      | DllUnregisterServer \<Rightarrow> dll_unregister_server l p)"

fun export_calls :: "(di8_export \<times> loader) list \<Rightarrow> proxy \<Rightarrow> (i32 + nat) list \<times> proxy" where
  "export_calls [] p = ([], p)"
| "export_calls ((x, l) # cs) p =
     (case export_call x l p of (r, p) \<Rightarrow>
        case export_calls cs p of (rs, p) \<Rightarrow> (r # rs, p))"

section \<open>The library is loaded once\<close>

text \<open>The specification: with the loader's first answer, each export either forwards or falls back.\<close>

definition fallback :: "di8_export \<Rightarrow> i32" where
  "fallback x = (case x of DirectInput8Create \<Rightarrow> DIERR_NOTINITIALIZED | DllCanUnloadNow \<Rightarrow> S_FALSE
     | DllGetClassObject \<Rightarrow> CLASS_E_CLASSNOTAVAILABLE | _ \<Rightarrow> E_FAIL)"

definition expected_answer :: "loader \<Rightarrow> di8_export \<Rightarrow> i32 + nat" where
  "expected_answer l x =
     (if fst l = None \<or> snd l DirectInput8Create = None then Inl (fallback x)
      else case snd l x of None \<Rightarrow> Inl (fallback x) | Some f \<Rightarrow> Inr f)"

lemma proxy_load_again: "px_once p \<Longrightarrow> proxy_load l p = (px_loaded p, p)"
  by (simp add: proxy_load_def)

lemma proxy_load_first: "\<not> px_once p \<Longrightarrow> proxy_load l p = (px_loaded (load_once l p), load_once l p)"
  by (simp add: proxy_load_def Let_def)

lemma load_once_state: "px_once (load_once l p)"
  by (simp add: load_once_def Let_def)

lemma forward_or_loaded:
  "forward_or fb member l p = (case proxy_load l p of (loaded, p) \<Rightarrow>
     (case member (px_original p) of None \<Rightarrow> Inl fb | Some f \<Rightarrow> if loaded then Inr f else Inl fb, p))"
  by (auto simp: forward_or_def split: prod.split option.split)

lemmas export_defs = export_call_def dll_can_unload_now_def dll_get_class_object_def
  dll_register_server_def dll_unregister_server_def fallback_def

lemma loaded_answer:
  "forward_or fb member l (load_once first initial_proxy) =
     (case (if fst first = None then None else member (resolve first no_original)) of
        None \<Rightarrow> Inl fb
      | Some f \<Rightarrow> if snd first DirectInput8Create \<noteq> None then Inr f else Inl fb, load_once first initial_proxy)"
  if "member no_original = None" "member (no_original\<lparr>hModule := None\<rparr>) = None"
  using that by (cases first) (auto simp: forward_or_loaded proxy_load_again load_once_state load_once_def
      initial_proxy_def resolve_def Let_def split: option.splits)

lemma export_after_load:
  "export_call x l (load_once first initial_proxy) = (expected_answer first x, load_once first initial_proxy)"
  by (cases x; cases first)
    (auto simp: export_defs expected_answer_def loaded_answer no_original_def resolve_def Let_def
      split: option.splits)

lemma export_first: "export_call x l initial_proxy = export_call x l (load_once l initial_proxy)"
  by (cases x)
    (simp_all add: export_defs forward_or_def proxy_load_again load_once_state
      proxy_load_first[of initial_proxy] initial_proxy_def[THEN arg_cong[of _ _ px_once]])

lemma exports_after_load:
  "export_calls cs (load_once first initial_proxy)
     = (map (\<lambda>(x, _). expected_answer first x) cs, load_once first initial_proxy)"
  by (induction cs) (auto simp: export_after_load)

section \<open>The properties\<close>

text \<open>The first call of any export loads the library of the system, no later call does, and every
  answer of every export from then on is decided by what the loader answered that first time: the
  forwarded function when the library and \<open>DirectInput8Create\<close> and the function are there, the
  export's own failure code otherwise.\<close>

theorem library_is_loaded_once:
  "export_calls ((x, first) # cs) initial_proxy
     = (expected_answer first x # map (\<lambda>(y, _). expected_answer first y) cs, load_once first initial_proxy)
   \<and> px_library_loads (load_once first initial_proxy) = 1"
  by (simp add: export_first export_after_load exports_after_load)
    (simp add: load_once_def initial_proxy_def Let_def)

text \<open>Creating DirectInput through the drop-in library: a null output is refused before anything
  is loaded, a system without the function gets the not-initialized error with a null output, and
  otherwise the answer is that of the interception with the function found, the same on every call.\<close>

theorem proxy_creates_through_the_interception:
  "direct_input8_create answer riid False outer env l p w = (Some (E_POINTER, INull, w), p)
   \<and> (fst first = None \<or> snd first DirectInput8Create = None \<longrightarrow>
        direct_input8_create answer riid True outer env first initial_proxy w
          = (Some (DIERR_NOTINITIALIZED, INull, w), load_once first initial_proxy))
   \<and> (fst first \<noteq> None \<and> snd first DirectInput8Create = Some f \<longrightarrow>
        direct_input8_create answer riid True outer env first initial_proxy w
          = (intercept_direct_input8_create (Some (answer f)) riid True outer env w, load_once first initial_proxy)
        \<and> direct_input8_create answer riid True outer env l (load_once first initial_proxy) w
          = (intercept_direct_input8_create (Some (answer f)) riid True outer env w, load_once first initial_proxy))"
  by (cases first) (auto simp: direct_input8_create_def proxy_load_def load_once_def resolve_def Let_def
      initial_proxy_def no_original_def)

theorem proxy_creates_through_the_interception_witness:
  "direct_input8_create (\<lambda>_. (0, Some 3)) IID_IUnknown True False sample_env (Some 1, \<lambda>_. Some 9) initial_proxy empty_com
     = (Some (0, IReal 3, empty_com), load_once (Some 1, \<lambda>_. Some 9) initial_proxy)"
  using proxy_creates_through_the_interception[where first = "(Some 1, \<lambda>_. Some 9)" and f = 9
      and answer = "\<lambda>_. (0, Some 3)" and riid = IID_IUnknown and outer = False and env = sample_env and w = empty_com]
  by (simp add: intercept_direct_input8_create_def succeeded_def)

end
