(* ===== verification/Iat_Hook.thy ===== *)
theory Iat_Hook imports FFB_Prelude begin

text \<open>
  Patching the import tables of loaded modules: \<open>src/iat_hook.cpp\<close>.  A mapped module is its
  readable bytes from the base address on; a read outside them is an access violation, which the
  handler of \<open>patch_direct_input8_imports\<close> turns into the answer 0 (\<open>None\<close> below), leaving what has
  been written.  Pointers and \<open>size_t\<close> values are naturals below \<open>2 ^ 32\<close> or \<open>2 ^ 64\<close>, and sums wrap
  there.  Offsets and sizes are those of the Windows image format.
\<close>

section \<open>Images\<close>

type_synonym image = "byte list"

definition pointer_size :: "arch \<Rightarrow> nat" where
  "pointer_size a = (case a of X86 \<Rightarrow> 4 | X64 \<Rightarrow> 8)"

definition size_t :: "arch \<Rightarrow> nat \<Rightarrow> nat" where
  "size_t a n = n mod 2 ^ (8 * pointer_size a)"

fun le_value :: "byte list \<Rightarrow> nat" where
  "le_value [] = 0"
| "le_value (b # bs) = unat b + 256 * le_value bs"

fun le_bytes :: "nat \<Rightarrow> nat \<Rightarrow> byte list" where
  "le_bytes 0 v = []"
| "le_bytes (Suc n) v = word_of_nat (v mod 256) # le_bytes n (v div 256)"

definition read_at :: "nat \<Rightarrow> image \<Rightarrow> nat \<Rightarrow> nat option" where
  "read_at n img off = (if off + n \<le> length img then Some (le_value (take n (drop off img))) else None)"

definition write_at :: "image \<Rightarrow> nat \<Rightarrow> byte list \<Rightarrow> image" where
  "write_at img off bs = take off img @ bs @ drop (off + length bs) img"

section \<open>Guards\<close>

definition range_is_valid :: "nat \<Rightarrow> nat \<Rightarrow> nat \<Rightarrow> bool" where
  "range_is_valid image_size rva len \<longleftrightarrow> rva < image_size \<and> len \<le> image_size - rva"

definition fold_case :: "byte \<Rightarrow> byte" where
  "fold_case c = (if 0x41 \<le> c \<and> c \<le> 0x5A then c + 32 else c)"

text \<open>The comparison with a literal; past its last character comes the terminating zero.  The result
  \<open>None\<close> is a fault.\<close>

fun ascii_equal_at :: "image \<Rightarrow> nat \<Rightarrow> nat \<Rightarrow> byte list \<Rightarrow> bool option" where
  "ascii_equal_at img off 0 expected = Some False"
| "ascii_equal_at img off (Suc available) expected =
     (case read_at 1 img off of
        None \<Rightarrow> None
      | Some v \<Rightarrow>
          let left = word_of_nat v :: byte; right = (case expected of [] \<Rightarrow> 0 | c # _ \<Rightarrow> c) in
          if left = 0 \<or> right = 0 then Some (left = right)
          else if fold_case left \<noteq> fold_case right then Some False
          else ascii_equal_at img (Suc off) available (tl expected))"

definition bounded_ascii_equal_ci :: "image \<Rightarrow> nat \<Rightarrow> nat \<Rightarrow> string \<Rightarrow> bool option" where
  "bounded_ascii_equal_ci img off available expected = ascii_equal_at img off available (ascii expected)"

section \<open>Patching\<close>

text \<open>\<open>protect\<close>: whether \<open>VirtualProtect\<close> makes the slot writable.  The result is whether the slot
  was replaced, and the image; \<open>None\<close> is a fault.\<close>

definition patch_pointer ::
  "arch \<Rightarrow> (nat \<Rightarrow> bool) \<Rightarrow> nat \<Rightarrow> nat \<Rightarrow> nat \<Rightarrow> image \<Rightarrow> bool option \<times> image" where
  "patch_pointer a protect original replacement slot img =
     (if original = 0 \<or> replacement = 0 \<or> original = replacement \<or> \<not> protect slot then (Some False, img)
      else case read_at (pointer_size a) img slot of
        None \<Rightarrow> (None, img)
      | Some observed \<Rightarrow>
          if observed = original
          then (Some True, write_at img slot (le_bytes (pointer_size a) replacement))
          else (Some False, img))"

record import_descriptor =
  id_original_first_thunk :: nat
  id_name :: nat
  id_first_thunk :: nat

definition IMAGE_SNAP_BY_ORDINAL :: "arch \<Rightarrow> nat \<Rightarrow> bool" where
  "IMAGE_SNAP_BY_ORDINAL a v \<longleftrightarrow> 2 ^ (8 * pointer_size a - 1) \<le> v"

definition IMAGE_ORDINAL :: "nat \<Rightarrow> nat" where
  "IMAGE_ORDINAL v = v mod 0x10000"

definition sizeof_IMAGE_IMPORT_BY_NAME :: nat where "sizeof_IMAGE_IMPORT_BY_NAME = 4"
definition import_name_offset :: nat where "import_name_offset = 2"

text \<open>Is the entry with the nonzero lookup value \<open>lookup\<close> the one to patch?\<close>

definition lookup_selects :: "arch \<Rightarrow> nat \<Rightarrow> nat \<Rightarrow> image \<Rightarrow> bool option" where
  "lookup_selects a image_size lookup img =
     (if IMAGE_SNAP_BY_ORDINAL a lookup then Some (IMAGE_ORDINAL lookup = 1)
      else if \<not> range_is_valid image_size lookup sizeof_IMAGE_IMPORT_BY_NAME then Some False
      else
        let name_rva = size_t a (lookup + import_name_offset) in
        if image_size \<le> name_rva then Some False
        else bounded_ascii_equal_ci img name_rva (image_size - name_rva) ''DirectInput8Create'')"

text \<open>The loop from \<open>index\<close> on, \<open>fuel\<close> entries before \<open>maximum_entries\<close>.  A result \<open>None\<close> for the
  count is a fault.\<close>

fun patch_entries ::
  "arch \<Rightarrow> (nat \<Rightarrow> bool) \<Rightarrow> nat \<Rightarrow> nat \<Rightarrow> nat \<Rightarrow> import_descriptor \<Rightarrow> nat \<Rightarrow> nat \<Rightarrow> nat \<Rightarrow> image
    \<Rightarrow> nat option \<times> image" where
  "patch_entries a protect original replacement image_size d 0 index patched img = (Some patched, img)"
| "patch_entries a protect original replacement image_size d (Suc fuel) index patched img =
     (let address_rva = size_t a (id_first_thunk d + index * pointer_size a);
          patch_it = (case patch_pointer a protect original replacement address_rva img of
             (None, img) \<Rightarrow> (None, img)
           | (Some hit, img) \<Rightarrow> patch_entries a protect original replacement image_size d fuel
               (Suc index) (if hit then Suc patched else patched) img);
          skip_it = patch_entries a protect original replacement image_size d fuel (Suc index) patched img
      in if \<not> range_is_valid image_size address_rva (pointer_size a) then (Some patched, img)
         else if id_original_first_thunk d = 0 then
           (case read_at (pointer_size a) img address_rva of
              None \<Rightarrow> (None, img)
            | Some v \<Rightarrow> if v = 0 then (Some patched, img) else patch_it)
         else
           let lookup_rva = size_t a (id_original_first_thunk d + index * pointer_size a) in
           if \<not> range_is_valid image_size lookup_rva (pointer_size a) then (Some patched, img)
           else
             (case read_at (pointer_size a) img lookup_rva of
                None \<Rightarrow> (None, img)
              | Some lookup \<Rightarrow>
                  if lookup = 0 then (Some patched, img)
                  else (case lookup_selects a image_size lookup img of
                          None \<Rightarrow> (None, img)
                        | Some False \<Rightarrow> skip_it
                        | Some True \<Rightarrow> patch_it)))"

definition patch_import_descriptor ::
  "arch \<Rightarrow> (nat \<Rightarrow> bool) \<Rightarrow> nat \<Rightarrow> nat \<Rightarrow> nat \<Rightarrow> import_descriptor \<Rightarrow> image \<Rightarrow> nat option \<times> image" where
  "patch_import_descriptor a protect original replacement image_size d img =
     (if \<not> range_is_valid image_size (id_first_thunk d) (pointer_size a) then (Some 0, img)
      else patch_entries a protect original replacement image_size d
             ((image_size - id_first_thunk d) div pointer_size a) 0 0 img)"

definition sizeof_IMAGE_IMPORT_DESCRIPTOR :: nat where "sizeof_IMAGE_IMPORT_DESCRIPTOR = 20"

definition read_descriptor :: "image \<Rightarrow> nat \<Rightarrow> import_descriptor option" where
  "read_descriptor img off =
     (case (read_at 4 img off, read_at 4 img (off + 12), read_at 4 img (off + 16)) of
        (Some oft, Some name, Some ft) \<Rightarrow>
          Some \<lparr>id_original_first_thunk = oft, id_name = name, id_first_thunk = ft\<rparr>
      | _ \<Rightarrow> None)"

fun patch_descriptors ::
  "arch \<Rightarrow> (nat \<Rightarrow> bool) \<Rightarrow> nat \<Rightarrow> nat \<Rightarrow> nat \<Rightarrow> nat \<Rightarrow> nat \<Rightarrow> nat \<Rightarrow> image \<Rightarrow> nat option \<times> image" where
  "patch_descriptors a protect original replacement image_size 0 off patched img = (Some patched, img)"
| "patch_descriptors a protect original replacement image_size (Suc fuel) off patched img =
     (let continue = (\<lambda>n img. patch_descriptors a protect original replacement image_size fuel
            (off + sizeof_IMAGE_IMPORT_DESCRIPTOR) n img)
      in case read_descriptor img off of
           None \<Rightarrow> (None, img)
         | Some d \<Rightarrow>
             if id_name d = 0 \<and> id_first_thunk d = 0 then (Some patched, img)
             else if \<not> range_is_valid image_size (id_name d) 1 then continue patched img
             else
               (case bounded_ascii_equal_ci img (id_name d) (image_size - id_name d) ''dinput8.dll'' of
                  None \<Rightarrow> (None, img)
                | Some False \<Rightarrow> continue patched img
                | Some True \<Rightarrow>
                    if id_original_first_thunk d \<noteq> 0
                      \<and> \<not> range_is_valid image_size (id_original_first_thunk d) (pointer_size a)
                    then continue patched img
                    else
                      (case patch_import_descriptor a protect original replacement image_size d img of
                         (None, img) \<Rightarrow> (None, img)
                       | (Some n, img) \<Rightarrow> continue (patched + n) img)))"

definition IMAGE_DOS_SIGNATURE :: nat where "IMAGE_DOS_SIGNATURE = 0x5A4D"
definition IMAGE_NT_SIGNATURE :: nat where "IMAGE_NT_SIGNATURE = 0x4550"
definition optional_magic :: "arch \<Rightarrow> nat" where
  "optional_magic a = (case a of X86 \<Rightarrow> 0x10B | X64 \<Rightarrow> 0x20B)"
definition sizeof_IMAGE_DOS_HEADER :: nat where "sizeof_IMAGE_DOS_HEADER = 64"
definition sizeof_IMAGE_NT_HEADERS :: "arch \<Rightarrow> nat" where
  "sizeof_IMAGE_NT_HEADERS a = (case a of X86 \<Rightarrow> 248 | X64 \<Rightarrow> 264)"
definition import_directory_offset :: "arch \<Rightarrow> nat" where
  "import_directory_offset a = (case a of X86 \<Rightarrow> 128 | X64 \<Rightarrow> 144)"

text \<open>The headers: the size of the image and the import directory, when they are acceptable.  The
  outer \<open>None\<close> is a fault, the inner one a header that is refused.\<close>

definition read_headers :: "arch \<Rightarrow> image \<Rightarrow> (nat \<times> nat \<times> nat) option option" where
  "read_headers a img =
     (case read_at 2 img 0 of
        None \<Rightarrow> None
      | Some magic \<Rightarrow>
          if magic \<noteq> IMAGE_DOS_SIGNATURE then Some None
          else
     (case read_at 4 img 60 of
        None \<Rightarrow> None
      | Some nt \<Rightarrow>
          if nt = 0 \<or> 2 ^ 31 \<le> nt \<or> nt > 1024 * 1024 then Some None
          else
     (case (read_at 4 img nt, read_at 2 img (nt + 24), read_at 4 img (nt + 80)) of
        (Some signature, Some optional, Some image_size) \<Rightarrow>
          if signature \<noteq> IMAGE_NT_SIGNATURE \<or> optional \<noteq> optional_magic a then Some None
          else if image_size < sizeof_IMAGE_DOS_HEADER \<or> nt + sizeof_IMAGE_NT_HEADERS a > image_size
          then Some None
          else
            (case (read_at 4 img (nt + import_directory_offset a),
                   read_at 4 img (nt + import_directory_offset a + 4)) of
               (Some address, Some sz) \<Rightarrow> Some (Some (image_size, address, sz))
             | _ \<Rightarrow> None)
      | _ \<Rightarrow> None)))"

definition patch_direct_input8_imports_unchecked ::
  "arch \<Rightarrow> (nat \<Rightarrow> bool) \<Rightarrow> nat \<Rightarrow> nat \<Rightarrow> image option \<Rightarrow> nat option \<times> image option" where
  "patch_direct_input8_imports_unchecked a protect original replacement module =
     (case module of
        None \<Rightarrow> (Some 0, None)
      | Some img \<Rightarrow>
          if original = 0 \<or> replacement = 0 then (Some 0, Some img)
          else
            (case read_headers a img of
               None \<Rightarrow> (None, Some img)
             | Some None \<Rightarrow> (Some 0, Some img)
             | Some (Some (image_size, address, sz)) \<Rightarrow>
                 if address = 0 \<or> sz < sizeof_IMAGE_IMPORT_DESCRIPTOR
                   \<or> \<not> range_is_valid image_size address sz
                 then (Some 0, Some img)
                 else
                   (case patch_descriptors a protect original replacement image_size
                           (sz div sizeof_IMAGE_IMPORT_DESCRIPTOR) address 0 img of
                      (r, img) \<Rightarrow> (r, Some img))))"

definition patch_direct_input8_imports ::
  "arch \<Rightarrow> (nat \<Rightarrow> bool) \<Rightarrow> nat \<Rightarrow> nat \<Rightarrow> image option \<Rightarrow> nat \<times> image option" where
  "patch_direct_input8_imports a protect original replacement module =
     (case patch_direct_input8_imports_unchecked a protect original replacement module of
        (None, module) \<Rightarrow> (0, module)
      | (Some n, module) \<Rightarrow> (n, module))"

text \<open>The modules of the process as the snapshot lists them, each with whether it can be pinned.\<close>

type_synonym modules = "(nat \<times> bool \<times> image) list"

fun patch_listed ::
  "arch \<Rightarrow> (nat \<Rightarrow> nat \<Rightarrow> bool) \<Rightarrow> nat \<Rightarrow> nat \<Rightarrow> nat \<Rightarrow> modules \<Rightarrow> nat \<times> modules" where
  "patch_listed a protect excluded original replacement [] = (0, [])"
| "patch_listed a protect excluded original replacement ((base, pinned, img) # ms) =
     (let (k, img') = (if base = excluded \<or> \<not> pinned then (0, Some img)
                 else patch_direct_input8_imports a (protect base) original replacement (Some img));
          (n, ms') = patch_listed a protect excluded original replacement ms
      in (k + n, (base, pinned, case img' of None \<Rightarrow> img | Some i \<Rightarrow> i) # ms'))"

definition patch_loaded_direct_input_imports ::
  "arch \<Rightarrow> (nat \<Rightarrow> nat \<Rightarrow> bool) \<Rightarrow> bool \<Rightarrow> nat \<Rightarrow> nat \<Rightarrow> nat \<Rightarrow> modules \<Rightarrow> nat \<times> modules" where
  "patch_loaded_direct_input_imports a protect snapshot excluded original replacement ms =
     (if \<not> snapshot then (0, ms) else patch_listed a protect excluded original replacement ms)"

section \<open>Only unmodified slots are written\<close>

text \<open>The specification: \<open>n\<close> times, some slot inside the image that holds \<open>original\<close> was given
  \<open>replacement\<close>.\<close>

inductive replaced :: "arch \<Rightarrow> nat \<Rightarrow> nat \<Rightarrow> nat \<Rightarrow> image \<Rightarrow> image \<Rightarrow> bool" for a original replacement where
  none: "replaced a original replacement 0 img img"
| one: "replaced a original replacement n img img' \<Longrightarrow>
    read_at (pointer_size a) img' slot = Some original \<Longrightarrow>
    replaced a original replacement (Suc n) img (write_at img' slot (le_bytes (pointer_size a) replacement))"

inductive_cases replacedE: "replaced a original replacement (Suc n) img img'"

lemma replaced_trans:
  "replaced a o1 r1 m img1 img2 \<Longrightarrow> replaced a o1 r1 n img0 img1 \<Longrightarrow> replaced a o1 r1 (n + m) img0 img2"
  by (induction rule: replaced.induct) (auto intro: replaced.one)

lemma le_bytes_length [simp]: "length (le_bytes n v) = n"
  by (induction n arbitrary: v) simp_all

lemma write_at_length: "off + length bs \<le> length img \<Longrightarrow> length (write_at img off bs) = length img"
  by (simp add: write_at_def)

lemma replaced_length: "replaced a original replacement n img img' \<Longrightarrow> length img' = length img"
  by (induction rule: replaced.induct)
    (auto simp: read_at_def write_at_length split: if_splits)

lemma patch_pointer_replaced:
  "patch_pointer a protect original replacement slot img = (r, img') \<Longrightarrow>
     replaced a original replacement (case r of Some True \<Rightarrow> 1 | _ \<Rightarrow> 0) img img'"
  by (auto simp: patch_pointer_def replaced.none intro: replaced.one[OF replaced.none, simplified]
      split: if_splits option.splits)

text \<open>What a step of the patching reports and does.\<close>

definition patch_effect :: "arch \<Rightarrow> nat \<Rightarrow> nat \<Rightarrow> nat \<Rightarrow> image \<Rightarrow> nat option \<times> image \<Rightarrow> bool" where
  "patch_effect a original replacement patched img res \<longleftrightarrow>
     (\<exists>n. replaced a original replacement n img (snd res)
        \<and> (\<forall>k. fst res = Some k \<longrightarrow> k = patched + n))"

lemma patch_effect_stop: "patch_effect a ori rep p img (Some p, img)" "patch_effect a ori rep p img (None, img)"
  by (auto simp: patch_effect_def intro: replaced.none exI[of _ 0])

lemma patch_effect_step:
  assumes "replaced a ori rep m img img1" and "patch_effect a ori rep (p + m) img1 res"
  shows "patch_effect a ori rep p img res"
  using assms replaced_trans unfolding patch_effect_def by (metis add.assoc)

lemma patch_entries_effect:
  "patch_effect a ori rep p img (patch_entries a protect ori rep sz d fuel index p img)"
proof (induction fuel arbitrary: index p img)
  case (Suc fuel)
  let ?addr = "size_t a (id_first_thunk d + index * pointer_size a)"
  let ?patch = "case patch_pointer a protect ori rep ?addr img of
             (None, img) \<Rightarrow> (None, img)
           | (Some hit, img) \<Rightarrow> patch_entries a protect ori rep sz d fuel (Suc index)
               (if hit then Suc p else p) img"
  obtain r img1 where pp: "patch_pointer a protect ori rep ?addr img = (r, img1)" by fastforce
  note rp = patch_pointer_replaced[OF pp]
  have patch: "patch_effect a ori rep p img ?patch"
  proof (cases r)
    case None
    with pp rp show ?thesis by (auto simp: patch_effect_def)
  next
    case (Some hit)
    have "replaced a ori rep (if hit then 1 else 0) img img1" using rp Some by (cases hit) simp_all
    moreover have "patch_effect a ori rep (p + (if hit then 1 else 0)) img1 ?patch"
      using pp Some Suc.IH[of "if hit then Suc p else p" img1 "Suc index"] by (cases hit) simp_all
    ultimately show ?thesis by (rule patch_effect_step)
  qed
  have skip: "patch_effect a ori rep p img
      (patch_entries a protect ori rep sz d fuel (Suc index) p img)" by (rule Suc.IH)
  show ?case
    unfolding patch_entries.simps Let_def
    using patch skip by (simp add: patch_effect_stop split: option.split bool.split)
qed (simp add: patch_effect_stop)

lemma patch_import_descriptor_effect:
  "patch_effect a ori rep 0 img (patch_import_descriptor a protect ori rep sz d img)"
  by (simp add: patch_import_descriptor_def patch_entries_effect patch_effect_stop)

lemma patch_descriptors_effect:
  "patch_effect a ori rep p img (patch_descriptors a protect ori rep sz fuel off p img)"
proof (induction fuel arbitrary: off p img)
  case (Suc fuel)
  have go: "patch_effect a ori rep p img
      (case patch_import_descriptor a protect ori rep sz d img of
         (None, img) \<Rightarrow> (None, img)
       | (Some n, img) \<Rightarrow> patch_descriptors a protect ori rep sz fuel
           (off + sizeof_IMAGE_IMPORT_DESCRIPTOR) (p + n) img)" for d
  proof -
    obtain r img1 where r: "patch_import_descriptor a protect ori rep sz d img = (r, img1)" by fastforce
    from patch_import_descriptor_effect[of a ori rep img protect sz d] r obtain n where
      n: "replaced a ori rep n img img1" "\<forall>k. r = Some k \<longrightarrow> k = n" by (auto simp: patch_effect_def)
    show ?thesis
    proof (cases r)
      case None
      with r n show ?thesis by (auto simp: patch_effect_def)
    next
      case (Some k)
      with n have "k = n" by simp
      with r Some patch_effect_step[OF n(1) Suc.IH] show ?thesis by simp
    qed
  qed
  have skip: "patch_effect a ori rep p img
      (patch_descriptors a protect ori rep sz fuel (off + sizeof_IMAGE_IMPORT_DESCRIPTOR) p img)"
    by (rule Suc.IH)
  show ?case
    unfolding patch_descriptors.simps Let_def
    using go skip by (simp add: patch_effect_stop split: option.split bool.split)
qed (simp add: patch_effect_stop)

lemma patch_imports_effect:
  "\<exists>n img'. patch_direct_input8_imports a protect ori rep (Some img) = (fst (patch_direct_input8_imports
      a protect ori rep (Some img)), Some img') \<and> replaced a ori rep n img img'
    \<and> (fst (patch_direct_input8_imports a protect ori rep (Some img)) \<noteq> 0 \<longrightarrow>
        fst (patch_direct_input8_imports a protect ori rep (Some img)) = n)"
proof -
  obtain r m where r: "patch_direct_input8_imports_unchecked a protect ori rep (Some img) = (r, m)"
    by fastforce
  have "\<exists>n img'. m = Some img' \<and> replaced a ori rep n img img' \<and> (\<forall>k. r = Some k \<longrightarrow> k = n)"
  proof (cases "\<exists>sz address s. read_headers a img = Some (Some (sz, address, s)) \<and> \<not> (ori = 0 \<or> rep = 0)
      \<and> \<not> (address = 0 \<or> s < sizeof_IMAGE_IMPORT_DESCRIPTOR \<or> \<not> range_is_valid sz address s)")
    case True
    then obtain sz address s where h: "read_headers a img = Some (Some (sz, address, s))"
      "\<not> (ori = 0 \<or> rep = 0)"
      "\<not> (address = 0 \<or> s < sizeof_IMAGE_IMPORT_DESCRIPTOR \<or> \<not> range_is_valid sz address s)" by blast
    let ?res = "patch_descriptors a protect ori rep sz (s div sizeof_IMAGE_IMPORT_DESCRIPTOR) address 0 img"
    have "r = fst ?res" "m = Some (snd ?res)"
      using r h by (auto simp: patch_direct_input8_imports_unchecked_def split: prod.splits)
    with patch_descriptors_effect[of a ori rep 0 img protect sz "s div sizeof_IMAGE_IMPORT_DESCRIPTOR" address]
    show ?thesis by (auto simp: patch_effect_def)
  next
    case False
    then have "m = Some img \<and> (r = Some 0 \<or> r = None)"
      using r by (auto simp: patch_direct_input8_imports_unchecked_def split: option.splits if_splits prod.splits)
    then show ?thesis by (auto intro!: exI[of _ 0] replaced.none)
  qed
  with r show ?thesis
    by (cases r) (auto simp: patch_direct_input8_imports_def)
qed

section \<open>A mapped module is patched without a fault\<close>

text \<open>What the loader guarantees of a loaded module: the headers can be read, and so can every byte
  of the image size they state.\<close>

definition well_mapped :: "arch \<Rightarrow> image \<Rightarrow> bool" where
  "well_mapped a img \<longleftrightarrow> 64 \<le> length img \<and> length img < 2 ^ 31
     \<and> (\<forall>nt. read_at 4 img 60 = Some nt \<longrightarrow> nt \<le> 1024 * 1024 \<longrightarrow>
          nt + sizeof_IMAGE_NT_HEADERS a \<le> length img
          \<and> (\<forall>n. read_at 4 img (nt + 80) = Some n \<longrightarrow> n \<le> length img))"

lemma read_at_ok: "off + n \<le> length img \<Longrightarrow> \<exists>v. read_at n img off = Some v"
  by (simp add: read_at_def)

lemma ascii_equal_ok: "off + available \<le> length img \<Longrightarrow> ascii_equal_at img off available e \<noteq> None"
proof (induction available arbitrary: off e)
  case (Suc n)
  then obtain v where "read_at 1 img off = Some v" using read_at_ok[of off 1 img] by auto
  with Suc show ?case by (auto simp: Let_def)
qed simp

lemma patch_pointer_ok:
  assumes "slot + pointer_size a \<le> length img"
  shows "\<exists>hit img'. patch_pointer a protect ori rep slot img = (Some hit, img') \<and> length img' = length img"
  using assms read_at_ok[OF assms] by (auto simp: patch_pointer_def write_at_length)

lemma lookup_selects_ok:
  assumes "sz \<le> length img" and "length img < 2 ^ 31"
  shows "lookup_selects a sz lookup img \<noteq> None"
proof -
  have "size_t a (lookup + import_name_offset) < sz \<Longrightarrow>
    bounded_ascii_equal_ci img (size_t a (lookup + import_name_offset))
      (sz - size_t a (lookup + import_name_offset)) s \<noteq> None" for s
    using assms unfolding bounded_ascii_equal_ci_def by (intro ascii_equal_ok) simp
  then show ?thesis by (auto simp: lookup_selects_def Let_def not_le)
qed

lemma range_is_valid_bound: "range_is_valid sz rva n \<Longrightarrow> sz \<le> length img \<Longrightarrow> rva + n \<le> length img"
  by (auto simp: range_is_valid_def)

lemma patch_entries_ok:
  assumes "sz \<le> length img" and "length img < 2 ^ 31"
  shows "\<exists>k img'. patch_entries a protect ori rep sz d fuel index p img = (Some k, img')
    \<and> length img' = length img"
  using assms
proof (induction fuel arbitrary: index p img)
  case (Suc fuel)
  let ?addr = "size_t a (id_first_thunk d + index * pointer_size a)"
  let ?look = "size_t a (id_original_first_thunk d + index * pointer_size a)"
  have patch: "\<exists>k img'. (case patch_pointer a protect ori rep ?addr img of
             (None, img) \<Rightarrow> (None, img)
           | (Some hit, img) \<Rightarrow> patch_entries a protect ori rep sz d fuel (Suc index)
               (if hit then Suc p else p) img) = (Some k, img') \<and> length img' = length img"
    if v: "range_is_valid sz ?addr (pointer_size a)"
  proof -
    from patch_pointer_ok[OF range_is_valid_bound[OF v Suc.prems(1)]] obtain hit img1 where
      1: "patch_pointer a protect ori rep ?addr img = (Some hit, img1)" "length img1 = length img" by blast
    from Suc.IH[of img1 "Suc index" "if hit then Suc p else p"] Suc.prems 1 show ?thesis by simp
  qed
  have skip: "\<exists>k img'. patch_entries a protect ori rep sz d fuel (Suc index) p img = (Some k, img')
      \<and> length img' = length img" by (rule Suc.IH[OF Suc.prems])
  have addr: "\<exists>v. read_at (pointer_size a) img ?addr = Some v" if "range_is_valid sz ?addr (pointer_size a)"
    using read_at_ok[OF range_is_valid_bound[OF that Suc.prems(1)]] .
  have look: "\<exists>v. read_at (pointer_size a) img ?look = Some v" if "range_is_valid sz ?look (pointer_size a)"
    using read_at_ok[OF range_is_valid_bound[OF that Suc.prems(1)]] .
  have sel: "lookup_selects a sz l img \<noteq> None" for l by (rule lookup_selects_ok[OF Suc.prems])
  show ?case
  proof (cases "range_is_valid sz ?addr (pointer_size a)")
    case False
    then show ?thesis by (simp add: Let_def)
  next
    case va: True
    show ?thesis
    proof (cases "id_original_first_thunk d = 0")
      case True
      from addr[OF va] obtain v where v: "read_at (pointer_size a) img ?addr = Some v" ..
      show ?thesis
      proof (cases "v = 0")
        case False
        with va True v patch[OF va] show ?thesis unfolding patch_entries.simps Let_def by simp
      qed (use va True v in \<open>simp add: Let_def\<close>)
    next
      case nz: False
      show ?thesis
      proof (cases "range_is_valid sz ?look (pointer_size a)")
        case False
        with va nz show ?thesis by (simp add: Let_def)
      next
        case vl: True
        from look[OF vl] obtain l where l: "read_at (pointer_size a) img ?look = Some l" ..
        from sel obtain s where s: "lookup_selects a sz l img = Some s" by blast
        show ?thesis
        proof (cases "l = 0")
          case False
          with va nz vl l s patch[OF va] skip show ?thesis
            unfolding patch_entries.simps Let_def by (cases s) simp_all
        qed (use va nz vl l in \<open>simp add: Let_def\<close>)
      qed
    qed
  qed
qed simp

lemma patch_descriptors_ok:
  assumes "sz \<le> length img" and "length img < 2 ^ 31"
    and "off + fuel * sizeof_IMAGE_IMPORT_DESCRIPTOR \<le> sz"
  shows "\<exists>k img'. patch_descriptors a protect ori rep sz fuel off p img = (Some k, img')"
  using assms
proof (induction fuel arbitrary: off p img)
  case (Suc fuel)
  let ?off = "off + sizeof_IMAGE_IMPORT_DESCRIPTOR"
  have bound: "off + 20 \<le> length img" "?off + fuel * sizeof_IMAGE_IMPORT_DESCRIPTOR \<le> sz"
    using Suc.prems by (simp_all add: sizeof_IMAGE_IMPORT_DESCRIPTOR_def)
  then have "\<exists>d. read_descriptor img off = Some d"
    using read_at_ok[of off 4 img] read_at_ok[of "off + 12" 4 img] read_at_ok[of "off + 16" 4 img]
    by (auto simp: read_descriptor_def)
  then obtain d where d: "read_descriptor img off = Some d" ..
  have skip: "\<exists>k img'. patch_descriptors a protect ori rep sz fuel ?off q img1 = (Some k, img')"
    if "length img1 = length img" for q img1
    using that Suc.prems bound by (intro Suc.IH) simp_all
  have name: "\<exists>b. bounded_ascii_equal_ci img (id_name d) (sz - id_name d) s = Some b"
    if "range_is_valid sz (id_name d) 1" for s
    using that Suc.prems(1) ascii_equal_ok[of "id_name d" "sz - id_name d" img "ascii s"]
    by (auto simp: bounded_ascii_equal_ci_def range_is_valid_def)
  have go: "\<exists>k img'. (case patch_import_descriptor a protect ori rep sz d img of
         (None, img) \<Rightarrow> (None, img)
       | (Some n, img) \<Rightarrow> patch_descriptors a protect ori rep sz fuel ?off (p + n) img) = (Some k, img')"
  proof -
    have "\<exists>k img'. patch_import_descriptor a protect ori rep sz d img = (Some k, img') \<and> length img' = length img"
      using patch_entries_ok[OF Suc.prems(1,2)] by (auto simp: patch_import_descriptor_def)
    then show ?thesis using skip by auto
  qed
  show ?case
  proof (cases "(id_name d = 0 \<and> id_first_thunk d = 0) \<or> \<not> range_is_valid sz (id_name d) 1")
    case True
    with d skip[OF refl] show ?thesis unfolding patch_descriptors.simps Let_def by auto
  next
    case False
    with name obtain b where "bounded_ascii_equal_ci img (id_name d) (sz - id_name d) ''dinput8.dll'' = Some b"
      by blast
    with d False skip[OF refl] go show ?thesis
      unfolding patch_descriptors.simps Let_def by (cases b) auto
  qed
qed simp


lemma read_headers_ok:
  assumes "well_mapped a img"
  shows "\<exists>h. read_headers a img = Some h
    \<and> (\<forall>sz address s. h = Some (sz, address, s) \<longrightarrow> sz \<le> length img)"
proof -
  from assms have len: "64 \<le> length img" by (simp add: well_mapped_def)
  obtain magic where magic: "read_at 2 img 0 = Some magic" using read_at_ok[of 0 2 img] len by auto
  obtain nt where nt: "read_at 4 img 60 = Some nt" using read_at_ok[of 60 4 img] len by auto
  show ?thesis
  proof (cases "magic \<noteq> IMAGE_DOS_SIGNATURE \<or> nt = 0 \<or> 2 ^ 31 \<le> nt \<or> nt > 1024 * 1024")
    case True
    with magic nt show ?thesis by (auto simp: read_headers_def)
  next
    case False
    with assms nt have m: "nt + sizeof_IMAGE_NT_HEADERS a \<le> length img"
      "\<forall>n. read_at 4 img (nt + 80) = Some n \<longrightarrow> n \<le> length img"
      by (auto simp: well_mapped_def)
    have off: "import_directory_offset a + 8 \<le> sizeof_IMAGE_NT_HEADERS a" "84 \<le> sizeof_IMAGE_NT_HEADERS a"
      by (cases a; simp add: import_directory_offset_def sizeof_IMAGE_NT_HEADERS_def)+
    obtain sig opt sz ad s where r: "read_at 4 img nt = Some sig" "read_at 2 img (nt + 24) = Some opt"
      "read_at 4 img (nt + 80) = Some sz" "read_at 4 img (nt + import_directory_offset a) = Some ad"
      "read_at 4 img (nt + import_directory_offset a + 4) = Some s"
      using read_at_ok[of nt 4 img] read_at_ok[of "nt + 24" 2 img] read_at_ok[of "nt + 80" 4 img]
        read_at_ok[of "nt + import_directory_offset a" 4 img]
        read_at_ok[of "nt + import_directory_offset a + 4" 4 img] m off by force
    with magic nt False m show ?thesis by (simp add: read_headers_def)
  qed
qed

lemma unchecked_ok:
  assumes "well_mapped a img"
  shows "\<exists>k m. patch_direct_input8_imports_unchecked a protect ori rep (Some img) = (Some k, m)"
proof -
  from read_headers_ok[OF assms] obtain h where h: "read_headers a img = Some h"
    "\<forall>sz address s. h = Some (sz, address, s) \<longrightarrow> sz \<le> length img" by blast
  show ?thesis
  proof (cases h)
    case None
    with h show ?thesis by (simp add: patch_direct_input8_imports_unchecked_def)
  next
    case (Some x)
    obtain sz address s where x: "x = (sz, address, s)" by (cases x) auto
    show ?thesis
    proof (cases "range_is_valid sz address s")
      case False
      with h Some x show ?thesis by (simp add: patch_direct_input8_imports_unchecked_def)
    next
      case True
      then have "address + s \<le> sz" by (auto simp: range_is_valid_def)
      moreover have "(s div 20) * 20 \<le> s" by simp
      ultimately have fit: "address + s div sizeof_IMAGE_IMPORT_DESCRIPTOR * sizeof_IMAGE_IMPORT_DESCRIPTOR \<le> sz"
        unfolding sizeof_IMAGE_IMPORT_DESCRIPTOR_def by linarith
      have "sz \<le> length img" using h(2) Some x by simp
      moreover have "length img < 2 ^ 31" using assms by (simp add: well_mapped_def)
      ultimately obtain k m where "patch_descriptors a protect ori rep sz
          (s div sizeof_IMAGE_IMPORT_DESCRIPTOR) address 0 img = (Some k, m)"
        using patch_descriptors_ok fit by blast
      with h Some x show ?thesis by (simp add: patch_direct_input8_imports_unchecked_def)
    qed
  qed
qed

section \<open>The name comparison\<close>

lemma read_byte: "off < length img \<Longrightarrow> read_at 1 img off = Some (unat (img ! off))"
  by (simp add: read_at_def take_Suc_conv_app_nth hd_drop_conv_nth take_Suc)

lemma ascii_equal_iff:
  assumes "off + available \<le> length img" and "0 \<notin> set e"
  shows "ascii_equal_at img off available e = Some (length e < available
    \<and> (\<forall>i < length e. img ! (off + i) \<noteq> 0 \<and> fold_case (img ! (off + i)) = fold_case (e ! i))
    \<and> img ! (off + length e) = 0)"
  using assms
proof (induction available arbitrary: off e)
  case (Suc n)
  then have r: "read_at 1 img off = Some (unat (img ! off))" by (intro read_byte) simp
  show ?case
  proof (cases e)
    case Nil
    with r show ?thesis by (simp add: Let_def)
  next
    case (Cons c cs)
    from Suc.IH[of "Suc off" cs] Suc.prems Cons r show ?thesis
      by (auto simp: Let_def All_less_Suc2)
  qed
qed simp


lemma replaced_nothing:
  assumes "replaced a ori rep n img img'" and "\<forall>slot. read_at (pointer_size a) img slot \<noteq> Some ori"
  shows "n = 0 \<and> img' = img"
  using assms
proof (induction rule: replaced.induct)
  case (one n img img' slot)
  then show ?case by (metis)
qed simp

lemma le_value_zeros: "le_value (replicate n 0) = 0"
  by (induction n) simp_all

lemma read_at_zeros: "read_at n (replicate m 0) off = (if off + n \<le> m then Some 0 else None)"
  by (simp add: read_at_def le_value_zeros)

section \<open>All modules\<close>

text \<open>What a pass may do to the list: the modules stay, the excluded one as it is, the others with
  some slots replaced.\<close>

definition module_effect :: "arch \<Rightarrow> nat \<Rightarrow> nat \<Rightarrow> nat \<Rightarrow> nat \<times> bool \<times> image \<Rightarrow> nat \<times> bool \<times> image \<Rightarrow> bool" where
  "module_effect a excluded original replacement m m' \<longleftrightarrow>
     fst m' = fst m \<and> fst (snd m') = fst (snd m)
     \<and> (if fst m = excluded \<or> \<not> fst (snd m) then m' = m
        else \<exists>n. replaced a original replacement n (snd (snd m)) (snd (snd m')))"

definition pass_effect :: "arch \<Rightarrow> nat \<Rightarrow> nat \<Rightarrow> nat \<Rightarrow> modules \<Rightarrow> modules \<Rightarrow> bool" where
  "pass_effect a excluded original replacement = list_all2 (module_effect a excluded original replacement)"

lemma patch_listed_effect: "pass_effect a ex ori rep ms (snd (patch_listed a protect ex ori rep ms))"
proof (induction ms)
  case (Cons m ms)
  obtain b p i where m: "m = (b, p, i)" by (cases m) auto
  obtain n i' where i: "patch_direct_input8_imports a (protect b) ori rep (Some i)
      = (fst (patch_direct_input8_imports a (protect b) ori rep (Some i)), Some i')" "replaced a ori rep n i i'"
    using patch_imports_effect[of a "protect b" ori rep i] by blast
  obtain k where k: "patch_direct_input8_imports a (protect b) ori rep (Some i) = (k, Some i')" using i(1) by auto
  from k i(2) Cons.IH m show ?case
    by (auto simp: pass_effect_def module_effect_def split_beta)
qed (simp add: pass_effect_def)

lemma pass_effect_refl: "pass_effect a ex ori rep ms ms"
  by (auto simp: pass_effect_def module_effect_def intro!: list_all2_refl replaced.none exI[of _ 0])

lemma pass_effect:
  "pass_effect a ex ori rep ms (snd (patch_loaded_direct_input_imports a protect snapshot ex ori rep ms))"
  by (simp add: patch_loaded_direct_input_imports_def patch_listed_effect pass_effect_refl)

section \<open>The properties\<close>

text \<open>C23: patching changes nothing but slots that hold the real function: whatever the module's
  bytes are and whether a fault cuts the work short, the image after is the image before with some
  number of such slots given the replacement, the length is the same, the answer is that number
  or 0, and a module without such a slot is left alone.  So an entry another component has changed
  is never overwritten.\<close>

theorem only_unmodified_slots_are_patched:
  assumes "patch_direct_input8_imports a protect original replacement (Some img) = (k, m)"
  shows "\<exists>n img'. m = Some img' \<and> replaced a original replacement n img img' \<and> length img' = length img
    \<and> (k = n \<or> k = 0)
    \<and> ((\<forall>slot. read_at (pointer_size a) img slot \<noteq> Some original) \<longrightarrow> img' = img \<and> k = 0)"
proof -
  from patch_imports_effect[of a protect original replacement img] assms obtain n img' where
    m: "m = Some img'" "replaced a original replacement n img img'" "k \<noteq> 0 \<longrightarrow> k = n" by auto
  with replaced_length[OF m(2)] replaced_nothing[OF m(2)] show ?thesis by auto
qed

theorem only_unmodified_slots_are_patched_witness:
  "\<exists>n img'. snd (patch_direct_input8_imports X64 (\<lambda>_. True) 5 6 (Some [1, 2, 3])) = Some img'
    \<and> replaced X64 5 6 n [1, 2, 3] img'"
proof -
  obtain k m where r: "patch_direct_input8_imports X64 (\<lambda>_. True) 5 6 (Some [1, 2, 3]) = (k, m)" by fastforce
  from only_unmodified_slots_are_patched[OF r] r show ?thesis by auto
qed

text \<open>C24: a module that the loader has mapped is walked without an access violation: every read the
  code makes is inside the image, so the handler is never needed.\<close>

theorem mapped_modules_do_not_fault:
  assumes "well_mapped a img"
  shows "\<exists>k m. patch_direct_input8_imports_unchecked a protect original replacement (Some img) = (Some k, m)"
  by (rule unchecked_ok[OF assms])

theorem mapped_modules_do_not_fault_witness:
  "\<exists>k m. patch_direct_input8_imports_unchecked X86 (\<lambda>_. True) 5 6 (Some (replicate 300 0)) = (Some k, m)"
proof -
  have "well_mapped X86 (replicate 300 0)"
    by (simp add: well_mapped_def read_at_zeros sizeof_IMAGE_NT_HEADERS_def)
  then show ?thesis by (rule mapped_modules_do_not_fault)
qed

text \<open>The bounded comparison says yes exactly when the bytes spell the expected name, ignoring
  ASCII case, with a terminating zero inside the available range; it never reads outside it.\<close>

theorem bounded_compare_is_exact:
  assumes "off + available \<le> length img" and "0 \<notin> set (ascii expected)"
  shows "bounded_ascii_equal_ci img off available expected = Some (length expected < available
    \<and> (\<forall>i < length expected. img ! (off + i) \<noteq> 0
        \<and> fold_case (img ! (off + i)) = fold_case (ascii expected ! i))
    \<and> img ! (off + length expected) = 0)"
  using ascii_equal_iff[OF assms] by (simp add: bounded_ascii_equal_ci_def)

theorem bounded_compare_is_exact_witness:
  "bounded_ascii_equal_ci [9, 0x64, 0x4C, 0x6C, 0] 1 4 ''dll'' = Some True"
  using bounded_compare_is_exact[of 1 4 "[9, 0x64, 0x4C, 0x6C, 0]" "''dll''"]
  by (simp add: ascii_def fold_case_def All_less_Suc2 nth_Cons' of_char_def)

end
