(* ===== verification/Hook_Dll.thy ===== *)
theory Hook_Dll imports Iat_Hook Com_Input begin

text \<open>
  The injected library: \<open>src/hook_dll.cpp\<close>.  \<open>FFBHookInitialize\<close> can be entered by any number of
  threads; each of them is at one of the points between its accesses to shared state, and a step of
  the process moves one thread, the module monitor or the list of loaded modules.
\<close>

section \<open>State\<close>

text \<open>Where a thread is in \<open>FFBHookInitialize\<close>; \<open>Answered c\<close>: it returned \<open>c\<close> the last time.\<close>

datatype hook_pc = Outside | Entered | HaveLibrary | NoExport | Stored | Patched | Spawned | Answered nat

text \<open>\<open>hk_libraries\<close> counts the references on the real library this code holds, \<open>hk_monitors\<close> has the
  cycles each monitor thread has done, \<open>hk_passes\<close> counts the passes over the modules that had a
  function to replace.\<close>

record hook =
  hk_state :: nat
  hk_original :: "nat option"
  hk_threads :: "nat \<Rightarrow> hook_pc"
  hk_libraries :: nat
  hk_monitors :: "nat list"
  hk_modules :: modules
  hk_passes :: nat

definition initial_hook :: "modules \<Rightarrow> hook" where
  "initial_hook ms = \<lparr>hk_state = 0, hk_original = None, hk_threads = (\<lambda>_. Outside), hk_libraries = 0,
     hk_monitors = [], hk_modules = ms, hk_passes = 0\<rparr>"

text \<open>What Windows answers during a step, and the constants of the process: its architecture, the
  base address of the library itself and the address of the replacement.\<close>

record hook_env =
  he_arch :: arch
  he_self :: nat
  he_hook :: nat
  he_library :: bool
  he_proc :: "nat option"
  he_thread :: bool
  he_snapshot :: bool
  he_protect :: "nat \<Rightarrow> nat \<Rightarrow> bool"

section \<open>Operations\<close>

definition hook_patch_loaded_modules :: "hook_env \<Rightarrow> hook \<Rightarrow> hook" where
  "hook_patch_loaded_modules e s =
     (case hk_original s of
        None \<Rightarrow> s
      | Some f \<Rightarrow> s\<lparr>hk_modules := snd (patch_loaded_direct_input_imports (he_arch e) (he_protect e)
            (he_snapshot e) (he_self e) f (he_hook e) (hk_modules s)), hk_passes := Suc (hk_passes s)\<rparr>)"

definition monitor_sleep :: "nat \<Rightarrow> nat" where
  "monitor_sleep cycle = (if cycle < 120 then 250 else 1000)"

definition monitor_cycles :: nat where "monitor_cycles = 720"

text \<open>One cycle of the monitor with the number \<open>i\<close>.\<close>

definition module_monitor_cycle :: "hook_env \<Rightarrow> nat \<Rightarrow> hook \<Rightarrow> hook" where
  "module_monitor_cycle e i s =
     (if i < length (hk_monitors s) \<and> hk_monitors s ! i < monitor_cycles
      then (hook_patch_loaded_modules e s)\<lparr>hk_monitors := (hk_monitors s)[i := Suc (hk_monitors s ! i)]\<rparr>
      else s)"

definition at :: "nat \<Rightarrow> hook_pc \<Rightarrow> hook \<Rightarrow> hook" where
  "at t pc s = s\<lparr>hk_threads := (hk_threads s)(t := pc)\<rparr>"

definition FFBHookInitialize_step :: "hook_env \<Rightarrow> nat \<Rightarrow> hook \<Rightarrow> hook" where
  "FFBHookInitialize_step e t s =
     (case hk_threads s t of
        Entered \<Rightarrow>
          if he_library e then at t HaveLibrary (s\<lparr>hk_libraries := Suc (hk_libraries s)\<rparr>)
          else at t (Answered 10) (s\<lparr>hk_state := 0\<rparr>)
      | HaveLibrary \<Rightarrow>
          (case he_proc e of
             None \<Rightarrow> at t NoExport (s\<lparr>hk_libraries := hk_libraries s - 1\<rparr>)
           | Some f \<Rightarrow> at t Stored (s\<lparr>hk_original := Some f\<rparr>))
      | NoExport \<Rightarrow> at t (Answered 11) (s\<lparr>hk_state := 0\<rparr>)
      | Stored \<Rightarrow> at t Patched (hook_patch_loaded_modules e s)
      | Patched \<Rightarrow> at t Spawned (s\<lparr>hk_monitors := hk_monitors s @ (if he_thread e then [0] else [])\<rparr>)
      | Spawned \<Rightarrow> at t (Answered 1) (s\<lparr>hk_state := 2\<rparr>)
      | _ \<Rightarrow>
          if hk_state s = 2 then at t (Answered 1) s
          else if hk_state s \<noteq> 0 then at t (Answered 12) s
          else at t Entered (s\<lparr>hk_state := 1\<rparr>))"

text \<open>What the game calls through a patched slot.\<close>

definition hooked_direct_input8_create ::
  "(nat \<Rightarrow> i32 \<times> nat option) \<Rightarrow> hook \<Rightarrow> iid \<Rightarrow> bool \<Rightarrow> bool \<Rightarrow> device_env \<Rightarrow> com \<Rightarrow> (i32 \<times> iface \<times> com) option" where
  "hooked_direct_input8_create answer s riid valid_out outer env w =
     intercept_direct_input8_create (map_option answer (hk_original s)) riid valid_out outer env w"

section \<open>Runs\<close>

text \<open>\<open>same_process\<close>: the constants do not change between steps.  Modules come and go, but the library
  itself stays.\<close>

inductive hstep :: "arch \<Rightarrow> nat \<Rightarrow> nat \<Rightarrow> hook \<Rightarrow> hook \<Rightarrow> bool" for a self hook where
  thread: "he_arch e = a \<Longrightarrow> he_self e = self \<Longrightarrow> he_hook e = hook \<Longrightarrow>
    hstep a self hook s (FFBHookInitialize_step e t s)"
| monitor: "he_arch e = a \<Longrightarrow> he_self e = self \<Longrightarrow> he_hook e = hook \<Longrightarrow>
    hstep a self hook s (module_monitor_cycle e i s)"
| loaded: "fst m \<noteq> self \<Longrightarrow> hstep a self hook s (s\<lparr>hk_modules := hk_modules s @ [m]\<rparr>)"
| unloaded: "fst m \<noteq> self \<Longrightarrow> hstep a self hook s (s\<lparr>hk_modules := remove1 m (hk_modules s)\<rparr>)"

inductive hook_reachable :: "arch \<Rightarrow> nat \<Rightarrow> nat \<Rightarrow> modules \<Rightarrow> hook \<Rightarrow> bool" for a self hook ms where
  start: "hook_reachable a self hook ms (initial_hook ms)"
| run: "hook_reachable a self hook ms s \<Longrightarrow> hstep a self hook s s' \<Longrightarrow> hook_reachable a self hook ms s'"

inductive_cases hstepE: "hstep a self hook s s'"

section \<open>Invariants\<close>

definition inside :: "hook_pc \<Rightarrow> bool" where
  "inside pc \<longleftrightarrow> pc \<in> {Entered, HaveLibrary, NoExport, Stored, Patched, Spawned}"

text \<open>What the shared state is when the thread inside is at a point; \<open>Outside\<close> stands for nobody
  inside.\<close>

definition shared_at :: "hook_pc \<Rightarrow> hook \<Rightarrow> bool" where
  "shared_at pc s \<longleftrightarrow>
     (if inside pc then hk_state s = 1 else hk_state s = 0 \<or> hk_state s = 2)
   \<and> hk_libraries s = (if pc \<in> {HaveLibrary, Stored, Patched, Spawned} \<or> hk_state s = 2 then 1 else 0)
   \<and> (hk_original s \<noteq> None) = (pc \<in> {Stored, Patched, Spawned} \<or> hk_state s = 2)
   \<and> (hk_passes s = 0) = (\<not> (pc \<in> {Patched, Spawned} \<or> hk_state s = 2))
   \<and> length (hk_monitors s) \<le> (if pc = Spawned \<or> hk_state s = 2 then 1 else 0)
   \<and> hk_passes s \<le> 1 + sum_list (hk_monitors s)
   \<and> (\<forall>n \<in> set (hk_monitors s). n \<le> monitor_cycles)"

definition hook_inv :: "hook \<Rightarrow> bool" where
  "hook_inv s \<longleftrightarrow>
     (\<exists>pc. shared_at pc s \<and>
        (if inside pc then \<exists>t. hk_threads s t = pc \<and> (\<forall>u. u \<noteq> t \<longrightarrow> \<not> inside (hk_threads s u))
         else \<forall>u. \<not> inside (hk_threads s u)))
   \<and> (\<forall>u. hk_threads s u = Answered 1 \<longrightarrow> hk_state s = 2)"


lemma hook_inv_move:
  assumes "\<forall>u. u \<noteq> t \<longrightarrow> \<not> inside (hk_threads s u)"
    and "hk_threads s' = (hk_threads s)(t := pc)" and "shared_at pc s'"
    and "\<forall>u. u \<noteq> t \<longrightarrow> hk_threads s u = Answered 1 \<longrightarrow> hk_state s' = 2"
    and "pc = Answered 1 \<longrightarrow> hk_state s' = 2"
  shows "hook_inv s'"
  unfolding hook_inv_def using assms by (intro conjI exI[of _ pc]) auto

lemma hook_inv_initial: "hook_inv (initial_hook ms)"
  by (auto simp: hook_inv_def initial_hook_def shared_at_def inside_def intro!: exI[of _ Outside])

lemma at_fields [simp]:
  "hk_threads (at t pc s) = (hk_threads s)(t := pc)" "hk_state (at t pc s) = hk_state s"
  "hk_original (at t pc s) = hk_original s" "hk_libraries (at t pc s) = hk_libraries s"
  "hk_monitors (at t pc s) = hk_monitors s" "hk_passes (at t pc s) = hk_passes s"
  "hk_modules (at t pc s) = hk_modules s"
  by (simp_all add: at_def)

lemma patch_fields [simp]:
  "hk_threads (hook_patch_loaded_modules e s) = hk_threads s"
  "hk_state (hook_patch_loaded_modules e s) = hk_state s"
  "hk_original (hook_patch_loaded_modules e s) = hk_original s"
  "hk_libraries (hook_patch_loaded_modules e s) = hk_libraries s"
  "hk_monitors (hook_patch_loaded_modules e s) = hk_monitors s"
  "hk_passes (hook_patch_loaded_modules e s) = (if hk_original s = None then hk_passes s else Suc (hk_passes s))"
  by (simp_all add: hook_patch_loaded_modules_def split: option.split)

lemma hook_inv_thread_inside:
  assumes "hook_inv s" and i: "inside (hk_threads s t)"
  shows "hook_inv (FFBHookInitialize_step e t s)"
proof -
  from assms obtain sh: "shared_at (hk_threads s t) s"
    and others: "\<forall>u. u \<noteq> t \<longrightarrow> \<not> inside (hk_threads s u)"
    and answered: "\<forall>u. hk_threads s u = Answered 1 \<longrightarrow> hk_state s = 2"
    unfolding hook_inv_def by (metis (full_types))
  have st: "hk_state s = 1" using sh i by (simp add: shared_at_def)
  have none: "hk_threads s u \<noteq> Answered 1" for u using answered st by auto
  show ?thesis
    by (cases "hk_threads s t"; cases "he_proc e";
        rule hook_inv_move[where s = s and t = t and pc = "hk_threads (FFBHookInitialize_step e t s) t", OF others])
      (use sh i st none in \<open>auto simp: FFBHookInitialize_step_def shared_at_def inside_def\<close>)
qed

lemma shared_at_outside: "\<not> inside pc \<Longrightarrow> \<not> inside pc' \<Longrightarrow> shared_at pc s \<Longrightarrow> shared_at pc' s"
  by (auto simp: shared_at_def inside_def)

lemma shared_at_at [simp]: "shared_at pc (at t pc' s) = shared_at pc s"
  by (simp add: shared_at_def)

lemma step_outside:
  "\<not> inside (hk_threads s t) \<Longrightarrow> FFBHookInitialize_step e t s =
     (if hk_state s = 2 then at t (Answered 1) s else if hk_state s \<noteq> 0 then at t (Answered 12) s
      else at t Entered (s\<lparr>hk_state := 1\<rparr>))"
  by (cases "hk_threads s t") (simp_all add: FFBHookInitialize_step_def inside_def)

lemma hook_inv_thread_outside:
  assumes inv: "hook_inv s" and i: "\<not> inside (hk_threads s t)"
  shows "hook_inv (FFBHookInitialize_step e t s)"
proof -
  from inv obtain pc where pc: "shared_at pc s"
    and who: "if inside pc then \<exists>t. hk_threads s t = pc \<and> (\<forall>u. u \<noteq> t \<longrightarrow> \<not> inside (hk_threads s u))
         else \<forall>u. \<not> inside (hk_threads s u)"
    and answered: "\<forall>u. hk_threads s u = Answered 1 \<longrightarrow> hk_state s = 2" by (auto simp: hook_inv_def)
  show ?thesis
  proof (cases "inside pc")
    case True
    then have st: "hk_state s = 1" using pc by (simp add: shared_at_def)
    from True who obtain t' where t': "hk_threads s t' = pc" "\<forall>u. u \<noteq> t' \<longrightarrow> \<not> inside (hk_threads s u)" by auto
    with True i have "t' \<noteq> t" by auto
    with t' True pc answered st have "hook_inv (at t (Answered 12) s)"
      unfolding hook_inv_def by (intro conjI exI[of _ pc]) (auto simp: inside_def)
    with st i show ?thesis by (simp add: step_outside)
  next
    case False
    then consider "hk_state s = 2" | "hk_state s = 0" using pc by (auto simp: shared_at_def)
    then show ?thesis
    proof cases
      case 1
      have "hook_inv (at t (Answered 1) s)"
        by (rule hook_inv_move[where s = s and t = t and pc = "Answered 1"])
          (use False who 1 shared_at_outside[OF False _ pc, of "Answered 1"] in \<open>auto simp: inside_def\<close>)
      with 1 i show ?thesis by (simp add: step_outside)
    next
      case 2
      have "hook_inv (at t Entered (s\<lparr>hk_state := 1\<rparr>))"
        by (rule hook_inv_move[where s = s and t = t and pc = Entered])
          (use False who 2 pc answered in \<open>auto simp: shared_at_def inside_def\<close>)
      with 2 i show ?thesis by (simp add: step_outside)
    qed
  qed
qed

lemma hook_inv_cong:
  assumes "hook_inv s" and "hk_threads s' = hk_threads s" and "hk_state s' = hk_state s"
    and "\<And>pc. shared_at pc s \<Longrightarrow> shared_at pc s'"
  shows "hook_inv s'"
  using assms unfolding hook_inv_def by metis

lemma shared_at_monitor:
  assumes "shared_at pc s" shows "shared_at pc (module_monitor_cycle e i s)"
proof (cases "i < length (hk_monitors s) \<and> hk_monitors s ! i < monitor_cycles")
  case True
  then have "hk_monitors s ! i \<le> sum_list (hk_monitors s)" by (simp add: elem_le_sum_list)
  moreover have "hk_original s \<noteq> None" using True assms by (auto simp: shared_at_def split: if_splits)
  moreover have "pc = Spawned \<or> hk_state s = 2" using True assms by (auto simp: shared_at_def split: if_splits)
  ultimately show ?thesis using True assms
    by (auto simp: module_monitor_cycle_def shared_at_def sum_list_update dest: set_update_subset_insert[THEN subsetD])
qed (use assms in \<open>auto simp: module_monitor_cycle_def\<close>)

lemma hook_inv_step: "hstep a self hook s s' \<Longrightarrow> hook_inv s \<Longrightarrow> hook_inv s'"
proof (induction rule: hstep.induct)
  case (thread e s t)
  then show ?case by (cases "inside (hk_threads s t)") (auto intro: hook_inv_thread_inside hook_inv_thread_outside)
next
  case (monitor e s i)
  show ?case by (rule hook_inv_cong[OF monitor.prems])
    (auto simp: shared_at_monitor, auto simp: module_monitor_cycle_def)
next
  case (loaded m s)
  show ?case by (rule hook_inv_cong[OF loaded.prems]) (auto simp: shared_at_def)
next
  case (unloaded m s)
  show ?case by (rule hook_inv_cong[OF unloaded.prems]) (auto simp: shared_at_def)
qed

lemma hook_reachable_inv: "hook_reachable a self hook ms s \<Longrightarrow> hook_inv s"
  by (induction rule: hook_reachable.induct) (auto simp: hook_inv_initial intro: hook_inv_step)

section \<open>The library itself is never patched\<close>

definition own_modules :: "nat \<Rightarrow> hook \<Rightarrow> modules" where
  "own_modules self s = filter (\<lambda>m. fst m = self) (hk_modules s)"

lemma pass_effect_own:
  "pass_effect a self ori rep ms ms' \<Longrightarrow> filter (\<lambda>m. fst m = self) ms' = filter (\<lambda>m. fst m = self) ms"
  unfolding pass_effect_def
  by (induction rule: list_all2_induct) (auto simp: module_effect_def split: if_splits)

lemma own_patch: "he_self e = self \<Longrightarrow> own_modules self (hook_patch_loaded_modules e s) = own_modules self s"
  by (auto simp: own_modules_def hook_patch_loaded_modules_def pass_effect_own[OF pass_effect] split: option.split)

lemma own_at [simp]: "own_modules self (at t pc s) = own_modules self s"
  by (simp add: own_modules_def)

lemma own_update [simp]:
  "own_modules self (s\<lparr>hk_state := x1\<rparr>) = own_modules self s"
  "own_modules self (s\<lparr>hk_original := x2\<rparr>) = own_modules self s"
  "own_modules self (s\<lparr>hk_libraries := x3\<rparr>) = own_modules self s"
  "own_modules self (s\<lparr>hk_monitors := x4\<rparr>) = own_modules self s"
  by (simp_all add: own_modules_def)

lemma filter_remove1_other: "\<not> P m \<Longrightarrow> filter P (remove1 m xs) = filter P xs"
  by (induction xs) auto

lemma own_step: "hstep a self hook s s' \<Longrightarrow> own_modules self s' = own_modules self s"
proof (induction rule: hstep.induct)
  case (thread e s t)
  then show ?case
    by (auto simp: FFBHookInitialize_step_def own_patch split: hook_pc.split option.split)
next
  case (monitor e s i)
  then show ?case by (auto simp: module_monitor_cycle_def own_patch)
qed (auto simp: own_modules_def filter_remove1_other)

lemma own_reachable: "hook_reachable a self hook ms s \<Longrightarrow> own_modules self s = filter (\<lambda>m. fst m = self) ms"
  by (induction rule: hook_reachable.induct) (auto simp: own_step, simp add: own_modules_def initial_hook_def)

section \<open>A call on its own\<close>

fun hook_steps :: "hook_env \<Rightarrow> nat \<Rightarrow> nat \<Rightarrow> hook \<Rightarrow> hook" where
  "hook_steps e t 0 s = s"
| "hook_steps e t (Suc n) s = hook_steps e t n (FFBHookInitialize_step e t s)"

lemma at_update:
  "at t pc (at t pc' s) = at t pc s"
  "(at t pc s)\<lparr>hk_state := x1\<rparr> = at t pc (s\<lparr>hk_state := x1\<rparr>)"
  "(at t pc s)\<lparr>hk_original := x2\<rparr> = at t pc (s\<lparr>hk_original := x2\<rparr>)"
  "(at t pc s)\<lparr>hk_libraries := x3\<rparr> = at t pc (s\<lparr>hk_libraries := x3\<rparr>)"
  "(at t pc s)\<lparr>hk_monitors := x4\<rparr> = at t pc (s\<lparr>hk_monitors := x4\<rparr>)"
  "hook_patch_loaded_modules e (at t pc s) = at t pc (hook_patch_loaded_modules e s)"
  by (simp_all add: at_def hook_patch_loaded_modules_def split: option.split)

text \<open>One step from each point inside.\<close>

lemma step_at:
  "FFBHookInitialize_step e t (at t Entered s) =
     (if he_library e then at t HaveLibrary (s\<lparr>hk_libraries := Suc (hk_libraries s)\<rparr>)
      else at t (Answered 10) (s\<lparr>hk_state := 0\<rparr>))"
  "FFBHookInitialize_step e t (at t HaveLibrary s) =
     (case he_proc e of
        None \<Rightarrow> at t NoExport (s\<lparr>hk_libraries := hk_libraries s - 1\<rparr>)
      | Some f \<Rightarrow> at t Stored (s\<lparr>hk_original := Some f\<rparr>))"
  "FFBHookInitialize_step e t (at t NoExport s) = at t (Answered 11) (s\<lparr>hk_state := 0\<rparr>)"
  "FFBHookInitialize_step e t (at t Stored s) = at t Patched (hook_patch_loaded_modules e s)"
  "FFBHookInitialize_step e t (at t Patched s) =
     at t Spawned (s\<lparr>hk_monitors := hk_monitors s @ (if he_thread e then [0] else [])\<rparr>)"
  "FFBHookInitialize_step e t (at t Spawned s) = at t (Answered 1) (s\<lparr>hk_state := 2\<rparr>)"
  by (simp_all add: FFBHookInitialize_step_def at_update split: option.split)

lemma hook_steps_enter:
  "\<not> inside (hk_threads s t) \<Longrightarrow> hk_state s = 0 \<Longrightarrow>
    hook_steps e t (Suc n) s = hook_steps e t n (at t Entered (s\<lparr>hk_state := 1\<rparr>))"
  by (simp add: step_outside)

section \<open>The properties\<close>

text \<open>C25: however many threads call it, initialization is exclusive and happens once: at most one
  thread is between entering and returning; at most one reference on the real library and at most
  one monitor exist; a caller is told success only when the hook is complete, that is the real
  function is known and a pass has been made over the modules; and after a failed attempt nothing is
  held, so that it can be tried again.\<close>

theorem initialization_is_exclusive:
  assumes "hook_reachable a self hook ms s"
  shows "(inside (hk_threads s t) \<longrightarrow> inside (hk_threads s u) \<longrightarrow> t = u)
    \<and> hk_libraries s \<le> 1 \<and> length (hk_monitors s) \<le> 1
    \<and> (hk_threads s t = Answered 1 \<longrightarrow> hk_state s = 2)
    \<and> (hk_state s = 2 \<longrightarrow> hk_original s \<noteq> None \<and> hk_libraries s = 1 \<and> 1 \<le> hk_passes s)
    \<and> (hk_state s = 0 \<longrightarrow> hk_libraries s = 0 \<and> hk_original s = None \<and> hk_passes s = 0 \<and> hk_monitors s = []
        \<and> \<not> inside (hk_threads s t))"
proof -
  from hook_reachable_inv[OF assms] obtain pc where pc: "shared_at pc s"
    and who: "if inside pc then \<exists>t. hk_threads s t = pc \<and> (\<forall>u. u \<noteq> t \<longrightarrow> \<not> inside (hk_threads s u))
         else \<forall>u. \<not> inside (hk_threads s u)"
    and answered: "\<forall>u. hk_threads s u = Answered 1 \<longrightarrow> hk_state s = 2" by (auto simp: hook_inv_def)
  have "inside (hk_threads s t) \<longrightarrow> inside (hk_threads s u) \<longrightarrow> t = u"
  proof (cases "inside pc")
    case True
    with who obtain v where v: "\<forall>u. u \<noteq> v \<longrightarrow> \<not> inside (hk_threads s u)" by auto
    show ?thesis using v[rule_format, of t] v[rule_format, of u] by blast
  qed (use who in auto)
  moreover have out: "\<not> inside pc" if "hk_state s = 2 \<or> hk_state s = 0"
    using pc that by (auto simp: shared_at_def)
  moreover have "hk_libraries s \<le> 1" "length (hk_monitors s) \<le> 1"
    using pc by (auto simp: shared_at_def split: if_splits)
  moreover have "hk_original s \<noteq> None" "hk_libraries s = 1" "1 \<le> hk_passes s" if "hk_state s = 2"
    using pc that by (simp_all add: shared_at_def Suc_le_eq)
  moreover have "hk_libraries s = 0" "hk_original s = None" "hk_passes s = 0" "hk_monitors s = []"
    if "hk_state s = 0"
    using pc that out by (auto simp: shared_at_def inside_def)
  moreover have "\<not> inside (hk_threads s t)" if "hk_state s = 0" using who out that by simp
  ultimately show ?thesis using answered by blast
qed

theorem initialization_is_exclusive_witness:
  "let e = \<lparr>he_arch = X64, he_self = 7, he_hook = 8, he_library = True, he_proc = Some 9, he_thread = True,
         he_snapshot = True, he_protect = \<lambda>_ _. True\<rparr>;
       s = FFBHookInitialize_step e 1 (initial_hook [])
   in hk_threads s 1 = Entered \<and> hk_libraries s \<le> 1"
proof -
  let ?e = "\<lparr>he_arch = X64, he_self = 7, he_hook = 8, he_library = True, he_proc = Some 9, he_thread = True,
         he_snapshot = True, he_protect = \<lambda>_ _. True\<rparr>"
  let ?s = "FFBHookInitialize_step ?e 1 (initial_hook [])"
  have "hstep X64 7 8 (initial_hook []) ?s" by (rule hstep.thread) simp_all
  then have "hook_reachable X64 7 8 [] ?s" by (blast intro: hook_reachable.intros)
  from initialization_is_exclusive[OF this, of 1 1]
  show ?thesis by (simp add: Let_def) (simp add: FFBHookInitialize_step_def initial_hook_def)
qed

text \<open>Whatever the threads, the monitor and the loader do, the import table of the library itself is
  never patched: its module is listed with the bytes it had.  So the replacement cannot come to call
  itself through its own imports.\<close>

theorem own_imports_stay:
  assumes "hook_reachable a self hook ms s"
  shows "filter (\<lambda>m. fst m = self) (hk_modules s) = filter (\<lambda>m. fst m = self) ms"
  using own_reachable[OF assms] by (simp add: own_modules_def)

theorem own_imports_stay_witness:
  "let e = \<lparr>he_arch = X64, he_self = 7, he_hook = 8, he_library = True, he_proc = Some 9, he_thread = True,
         he_snapshot = True, he_protect = \<lambda>_ _. True\<rparr>
   in filter (\<lambda>m. fst m = 7) (hk_modules (FFBHookInitialize_step e 1 (initial_hook [(7, True, [1]), (6, True, [2])])))
      = [(7, True, [1])]"
proof -
  let ?e = "\<lparr>he_arch = X64, he_self = 7, he_hook = 8, he_library = True, he_proc = Some 9, he_thread = True,
         he_snapshot = True, he_protect = \<lambda>_ _. True\<rparr>"
  let ?ms = "[(7, True, [1]), (6, True, [2])] :: modules"
  let ?s = "FFBHookInitialize_step ?e 1 (initial_hook ?ms)"
  have "hstep X64 7 8 (initial_hook ?ms) ?s" by (rule hstep.thread) simp_all
  then have "hook_reachable X64 7 8 ?ms ?s" by (blast intro: hook_reachable.intros)
  from own_imports_stay[OF this] show ?thesis by (simp add: Let_def)
qed

text \<open>The monitor is bounded: in any run the modules are gone over at most 721 times, no monitor
  does more than its 720 cycles, and those sleep for ten and a half minutes together.\<close>

theorem monitoring_is_bounded:
  assumes "hook_reachable a self hook ms s"
  shows "hk_passes s \<le> 721 \<and> (\<forall>n \<in> set (hk_monitors s). n \<le> 720)
    \<and> sum_list (map monitor_sleep [0..<monitor_cycles]) = 630000"
proof -
  from hook_reachable_inv[OF assms] obtain pc where "shared_at pc s" by (auto simp: hook_inv_def)
  then have len: "length (hk_monitors s) \<le> 1" and all: "\<forall>n \<in> set (hk_monitors s). n \<le> monitor_cycles"
    and passes: "hk_passes s \<le> 1 + sum_list (hk_monitors s)" by (auto simp: shared_at_def split: if_splits)
  have "sum_list (hk_monitors s) \<le> 720"
    using len all by (cases "hk_monitors s") (auto simp: monitor_cycles_def)
  moreover have "map monitor_sleep [0..<720] = replicate 120 250 @ replicate 600 1000"
    by (rule nth_equalityI) (auto simp: monitor_sleep_def nth_append)
  ultimately show ?thesis using passes all by (simp add: monitor_cycles_def sum_list_replicate)
qed

theorem monitoring_is_bounded_witness:
  "hk_passes (initial_hook []) \<le> 721"
  using monitoring_is_bounded[OF hook_reachable.start[of X64 7 8 "[]"]] by simp

text \<open>A call that is not disturbed, on a process that is not hooked yet: without the library it
  answers 10, without the function 11, and the process is as before but for that answer; with both
  it answers 1 after one pass over the modules, the state is final, the function is kept and the
  monitor runs when its thread could be made.\<close>

theorem initialization_outcomes:
  assumes "hk_state s = 0" and "\<not> inside (hk_threads s t)" and "hk_libraries s = 0"
  shows "(\<not> he_library e \<longrightarrow> hook_steps e t 2 s = at t (Answered 10) s)
    \<and> (he_library e \<and> he_proc e = None \<longrightarrow> hook_steps e t 4 s = at t (Answered 11) s)
    \<and> (he_library e \<and> he_proc e = Some f \<longrightarrow>
        hook_steps e t 6 s = at t (Answered 1) (s\<lparr>hk_state := 2, hk_libraries := 1, hk_original := Some f,
          hk_modules := snd (patch_loaded_direct_input_imports (he_arch e) (he_protect e) (he_snapshot e)
             (he_self e) f (he_hook e) (hk_modules s)),
          hk_passes := Suc (hk_passes s),
          hk_monitors := hk_monitors s @ (if he_thread e then [0] else [])\<rparr>))"
proof -
  have n: "(2::nat) = Suc (Suc 0)" "(4::nat) = Suc (Suc (Suc (Suc 0)))"
    "(6::nat) = Suc (Suc (Suc (Suc (Suc (Suc 0)))))" by simp_all
  note enter = hook_steps_enter[OF assms(2,1)]
  have same: "s\<lparr>hk_state := 0\<rparr> = s" "s\<lparr>hk_libraries := 0, hk_state := 0\<rparr> = s"
    using assms by simp_all
  have "hook_steps e t (Suc (Suc 0)) s = at t (Answered 10) s" if "\<not> he_library e"
    unfolding enter using that by (simp add: step_at same)
  moreover have "hook_steps e t (Suc (Suc (Suc (Suc 0)))) s = at t (Answered 11) s"
    if "he_library e" "he_proc e = None"
    unfolding enter using that assms(3) by (simp add: step_at same)
  moreover have "hook_steps e t (Suc (Suc (Suc (Suc (Suc (Suc 0)))))) s =
      at t (Answered 1) (s\<lparr>hk_state := 2, hk_libraries := 1, hk_original := Some f,
          hk_modules := snd (patch_loaded_direct_input_imports (he_arch e) (he_protect e) (he_snapshot e)
             (he_self e) f (he_hook e) (hk_modules s)),
          hk_passes := Suc (hk_passes s),
          hk_monitors := hk_monitors s @ (if he_thread e then [0] else [])\<rparr>)"
    if "he_library e" "he_proc e = Some f"
    unfolding enter using that assms(3) by (simp add: step_at hook_patch_loaded_modules_def)
  ultimately show ?thesis unfolding n by blast
qed

theorem initialization_outcomes_witness:
  "let e = \<lparr>he_arch = X64, he_self = 7, he_hook = 8, he_library = False, he_proc = None, he_thread = True,
         he_snapshot = True, he_protect = \<lambda>_ _. True\<rparr>
   in hk_threads (hook_steps e 1 2 (initial_hook [])) 1 = Answered 10"
  using initialization_outcomes[where s = "initial_hook []" and t = 1 and e = "\<lparr>he_arch = X64, he_self = 7, he_hook = 8,
      he_library = False, he_proc = None, he_thread = True, he_snapshot = True, he_protect = \<lambda>_ _. True\<rparr>"]
  by (simp add: initial_hook_def inside_def Let_def)

end
