(* ===== verification/Command_Line.thy ===== *)
theory Command_Line imports FFB_Prelude begin

text \<open>
  Command lines: \<open>quote_argument\<close> and \<open>build_command_line\<close> of \<open>src/launcher/injector.cpp\<close>, their
  counterparts in \<open>src/launcher/manager_model.cpp\<close> and \<open>src/launcher/manager_main.cpp\<close>, and the
  arguments of \<open>wmain\<close> in \<open>src/launcher/launcher_main.cpp\<close>.  The quoting is proved against the rules
  by which the Microsoft C runtime and \<open>CommandLineToArgvW\<close> split a command line, so that what the
  user typed arrives at the game through two processes.
\<close>

section \<open>Characters\<close>

definition backslash :: wchar where "backslash = 0x5C"
definition dquote :: wchar where "dquote = 0x22"

definition blank :: "wchar \<Rightarrow> bool" where
  "blank c \<longleftrightarrow> c = 0x20 \<or> c = 0x09"

lemma char_facts [simp]:
  "backslash \<noteq> dquote" "dquote \<noteq> backslash" "\<not> blank backslash" "\<not> blank dquote" "blank 0x20"
  by (simp_all add: backslash_def dquote_def blank_def)

lemma blank_not_special: "blank c \<Longrightarrow> c \<noteq> backslash \<and> c \<noteq> dquote"
  by (auto simp: blank_def backslash_def dquote_def)

section \<open>Quoting\<close>

text \<open>The loop of \<open>quote_argument\<close> keeps the text so far and the backslashes not yet written.\<close>

definition quote_step :: "wstring \<times> nat \<Rightarrow> wchar \<Rightarrow> wstring \<times> nat" where
  "quote_step = (\<lambda>(quoted, backslashes) c.
     if c = backslash then (quoted, Suc backslashes)
     else if c = dquote then (quoted @ replicate (backslashes * 2 + 1) backslash @ [dquote], 0)
     else (quoted @ replicate backslashes backslash @ [c], 0))"

definition needs_quotes :: "wstring \<Rightarrow> bool" where
  "needs_quotes a \<longleftrightarrow> list_ex (\<lambda>c. blank c \<or> c = dquote) a"

definition quote_argument :: "wstring \<Rightarrow> wstring" where
  "quote_argument a =
     (if a = [] then [dquote, dquote]
      else if \<not> needs_quotes a then a
      else case foldl quote_step ([dquote], 0) a of
        (quoted, backslashes) \<Rightarrow> quoted @ replicate (backslashes * 2) backslash @ [dquote])"

text \<open>The manager's own copy of the same text.\<close>

definition quote_command_argument :: "wstring \<Rightarrow> wstring" where
  "quote_command_argument a =
     (if a = [] then [dquote, dquote]
      else if \<not> needs_quotes a then a
      else case foldl quote_step ([dquote], 0) a of
        (quoted, backslashes) \<Rightarrow> quoted @ replicate (backslashes * 2) backslash @ [dquote])"

record LaunchRequest =
  lr_game_path :: wstring
  lr_game_arguments :: "wstring list"

definition build_command_line :: "LaunchRequest \<Rightarrow> wstring" where
  "build_command_line r =
     foldl (\<lambda>command a. command @ [0x20] @ quote_argument a)
       (quote_argument (lr_game_path r)) (lr_game_arguments r)"

text \<open>\<open>run_process\<close> and \<open>run_sanitized_system_power_shell\<close> of the manager build their command in the
  same way, and refuse one that reaches the limit of Windows; \<open>build_parameter_text\<close> checks it after
  every argument.\<close>

definition manager_command :: "wstring \<Rightarrow> wstring list \<Rightarrow> wstring option" where
  "manager_command executable arguments =
     (let command = foldl (\<lambda>command a. command @ [0x20] @ quote_command_argument a)
            (quote_command_argument executable) arguments
      in if 32767 \<le> length command then None else Some command)"

fun parameter_text :: "wstring \<Rightarrow> wstring list \<Rightarrow> wstring option" where
  "parameter_text parameters [] = Some parameters"
| "parameter_text parameters (a # arguments) =
     (let parameters = (if parameters = [] then [] else parameters @ [0x20]) @ quote_command_argument a in
      if 32767 \<le> length parameters then None else parameter_text parameters arguments)"

definition build_parameter_text :: "wstring list \<Rightarrow> wstring option" where
  "build_parameter_text arguments = parameter_text [] arguments"

section \<open>The arguments of the launcher\<close>

datatype wmain_scan = Help | Unsupported | MissingGame | Scanned bool LaunchRequest

fun scan_arguments :: "bool \<Rightarrow> LaunchRequest \<Rightarrow> wstring list \<Rightarrow> wmain_scan" where
  "scan_arguments offline r [] = Scanned offline r"
| "scan_arguments offline r (a # as) =
     (if a = wide ''--help'' \<or> a = wide ''-h'' then Help
      else if a = wide ''--offline-only'' then scan_arguments True r as
      else if a = wide ''--game'' then
        (case as of
           [] \<Rightarrow> MissingGame
         | path # as \<Rightarrow> scan_arguments offline (r\<lparr>lr_game_path := path\<rparr>) as)
      else if a = wide ''--'' then Scanned offline (r\<lparr>lr_game_arguments := lr_game_arguments r @ as\<rparr>)
      else Unsupported)"

text \<open>\<open>wmain\<close>: its exit code, and the request it launches.  \<open>launch\<close> is whether the launch succeeds.\<close>

definition wmain :: "(LaunchRequest \<Rightarrow> bool) \<Rightarrow> wstring list \<Rightarrow> nat \<times> LaunchRequest option" where
  "wmain launch arguments =
     (case scan_arguments False \<lparr>lr_game_path = [], lr_game_arguments = []\<rparr> arguments of
        Help \<Rightarrow> (0, None)
      | Unsupported \<Rightarrow> (2, None)
      | MissingGame \<Rightarrow> (2, None)
      | Scanned offline r \<Rightarrow>
          if \<not> offline then (2, None)
          else if lr_game_path r = [] then (2, None)
          else if launch r then (0, Some r) else (1, Some r))"

section \<open>The game arguments the user typed\<close>

text \<open>\<open>split_game_arguments\<close>; \<open>to_argv\<close> is \<open>CommandLineToArgvW\<close>.\<close>

definition split_game_arguments ::
  "(wstring \<Rightarrow> wstring list option) \<Rightarrow> wstring \<Rightarrow> wstring list option" where
  "split_game_arguments to_argv text =
     (if text = [] then Some []
      else if 32768 < length text then None
      else case to_argv (wide ''ffb-placeholder.exe '' @ text) of
        None \<Rightarrow> None
      | Some [] \<Rightarrow> None
      | Some (_ # arguments) \<Rightarrow> Some arguments)"

definition launcher_arguments :: "wstring \<Rightarrow> wstring list \<Rightarrow> wstring list" where
  "launcher_arguments game_path game_arguments =
     [wide ''--offline-only'', wide ''--game'', game_path, wide ''--''] @ game_arguments"

section \<open>The rules for splitting a command line\<close>

text \<open>The program name extends to the first blank outside quotes; quotes are dropped, and backslashes
  stand for themselves.\<close>

fun program_name :: "bool \<Rightarrow> wstring \<Rightarrow> wstring \<times> wstring" where
  "program_name q [] = ([], [])"
| "program_name q (c # cs) =
     (if c = dquote then program_name (\<not> q) cs
      else if blank c \<and> \<not> q then ([], c # cs)
      else case program_name q cs of (a, rest) \<Rightarrow> (c # a, rest))"

text \<open>One argument, \<open>n\<close> backslashes having been read: an even number before a quote is halved and the
  quote is a delimiter (two of them inside quotes stand for one), an odd number is halved and the
  quote is literal, and before anything else backslashes stand for themselves.\<close>

fun next_argument :: "bool \<Rightarrow> nat \<Rightarrow> wstring \<Rightarrow> wstring \<times> wstring" where
  "next_argument q n [] = (replicate n backslash, [])"
| "next_argument q n (c # cs) =
     (if c = backslash then next_argument q (Suc n) cs
      else if c = dquote then
        if odd n then
          (case next_argument q 0 cs of (a, rest) \<Rightarrow> (replicate (n div 2) backslash @ dquote # a, rest))
        else if q \<and> cs \<noteq> [] \<and> hd cs = dquote then
          (case next_argument q 0 (tl cs) of (a, rest) \<Rightarrow> (replicate (n div 2) backslash @ dquote # a, rest))
        else (case next_argument (\<not> q) 0 cs of (a, rest) \<Rightarrow> (replicate (n div 2) backslash @ a, rest))
      else if blank c \<and> \<not> q then (replicate n backslash, c # cs)
      else (case next_argument q 0 cs of (a, rest) \<Rightarrow> (replicate n backslash @ c # a, rest)))"

lemma next_argument_shrinks: "length (snd (next_argument q n s)) \<le> length s"
  by (induction q n s rule: next_argument.induct) (auto split: prod.splits)

lemma next_argument_progress:
  "\<not> blank c \<Longrightarrow> length (snd (next_argument False n (c # cs))) \<le> length cs"
  using next_argument_shrinks[of False "Suc n" cs] next_argument_shrinks[of False 0 cs]
    next_argument_shrinks[of True 0 cs]
  by (auto split: prod.splits)

function argument_list :: "wstring \<Rightarrow> wstring list" where
  "argument_list s =
     (case dropWhile blank s of
        [] \<Rightarrow> []
      | c # cs \<Rightarrow> (case next_argument False 0 (c # cs) of (a, rest) \<Rightarrow> a # argument_list rest))"
  by auto
termination
proof (relation "measure length")
  fix s c cs a rest
  assume s: "dropWhile blank s = c # cs" and n: "(a, rest) = next_argument False 0 (c # cs)"
  have "\<not> blank c" using hd_dropWhile[of blank s] s by auto
  then have "length rest \<le> length cs" using next_argument_progress[of c 0 cs] n by (metis snd_conv)
  moreover have "Suc (length cs) \<le> length s" using length_dropWhile_le[of blank s] s by simp
  ultimately show "(rest, s) \<in> measure length" by simp
qed simp

declare argument_list.simps [simp del]

definition split_command_line :: "wstring \<Rightarrow> wstring list" where
  "split_command_line s = (case program_name False s of (p, rest) \<Rightarrow> p # argument_list rest)"

section \<open>Quoting is undone by the rules\<close>

text \<open>What the loop writes after the opening quote, as a recursion over the argument.\<close>

fun quote_rest :: "nat \<Rightarrow> wstring \<Rightarrow> wstring" where
  "quote_rest n [] = replicate (n * 2) backslash @ [dquote]"
| "quote_rest n (c # cs) =
     (if c = backslash then quote_rest (Suc n) cs
      else if c = dquote then replicate (n * 2 + 1) backslash @ dquote # quote_rest 0 cs
      else replicate n backslash @ c # quote_rest 0 cs)"

lemma quote_loop:
  "(case foldl quote_step (quoted, n) a of
      (quoted, backslashes) \<Rightarrow> quoted @ replicate (backslashes * 2) backslash @ [dquote]) = quoted @ quote_rest n a"
  by (induction a arbitrary: quoted n) (simp_all add: quote_step_def)

lemma quote_argument_eq:
  "quote_argument a =
     (if a = [] then [dquote, dquote] else if needs_quotes a then dquote # quote_rest 0 a else a)"
  using quote_loop[of "[dquote]" 0 a] by (simp add: quote_argument_def)

text \<open>The end of an argument: nothing, or a blank.\<close>

definition at_end :: "wstring \<Rightarrow> bool" where
  "at_end rest \<longleftrightarrow> rest = [] \<or> blank (hd rest)"

lemma at_end_simps [simp]: "at_end []" "at_end (c # cs) = blank c"
  by (simp_all add: at_end_def)

lemma next_argument_at_end: "at_end rest \<Longrightarrow> next_argument False n rest = (replicate n backslash, rest)"
  by (cases rest) (auto dest: blank_not_special simp: at_end_def)

lemma next_argument_backslashes:
  "next_argument q n (replicate k backslash @ s) = next_argument q (n + k) s"
  by (induction k arbitrary: n) simp_all

lemma next_argument_quote_rest:
  "at_end rest \<Longrightarrow> next_argument True 0 (quote_rest n a @ rest) = (replicate n backslash @ a, rest)"
proof (induction n a rule: quote_rest.induct)
  case (1 n)
  then have "\<not> (rest \<noteq> [] \<and> hd rest = dquote)" by (auto simp: at_end_def)
  with 1 show ?case by (auto simp: next_argument_backslashes next_argument_at_end)
next
  case (2 n c cs)
  consider (slash) "c = backslash" | (quote) "c = dquote" | (plain) "c \<noteq> backslash" "c \<noteq> dquote" by blast
  then show ?case
  proof cases
    case slash
    with 2 show ?thesis by (simp add: replicate_app_Cons_same)
  next
    case quote
    with 2 show ?thesis by (simp add: next_argument_backslashes del: replicate.simps)
  next
    case plain
    with 2 show ?thesis by (simp add: next_argument_backslashes)
  qed
qed

lemma next_argument_plain:
  "at_end rest \<Longrightarrow> \<not> needs_quotes a \<Longrightarrow> next_argument False n (a @ rest) = (replicate n backslash @ a, rest)"
  by (induction a arbitrary: n)
    (auto simp: needs_quotes_def next_argument_at_end replicate_app_Cons_same)

lemma next_argument_quoted:
  "at_end rest \<Longrightarrow> next_argument False 0 (quote_argument a @ rest) = (a, rest)"
  using next_argument_quote_rest[of rest 0 a] next_argument_plain[of rest a 0] next_argument_at_end[of rest 0]
  by (auto simp: quote_argument_eq at_end_def)

lemma quote_argument_start: "\<exists>c cs. quote_argument a = c # cs \<and> \<not> blank c"
  by (cases a) (auto simp: quote_argument_eq needs_quotes_def)

text \<open>The arguments as \<open>build_command_line\<close> appends them.\<close>

definition quoted_tail :: "wstring list \<Rightarrow> wstring" where
  "quoted_tail as = concat (map (\<lambda>a. 0x20 # quote_argument a) as)"

lemma quoted_tail_simps [simp]:
  "quoted_tail [] = []" "quoted_tail (a # as) = 0x20 # quote_argument a @ quoted_tail as"
  by (simp_all add: quoted_tail_def)

lemma at_end_tail [simp]: "at_end (quoted_tail as)"
  by (cases as) simp_all

lemma argument_list_tail: "argument_list (quoted_tail as) = as"
proof (induction as)
  case Nil
  then show ?case by (simp add: argument_list.simps)
next
  case (Cons a as)
  obtain c cs where q: "quote_argument a = c # cs" "\<not> blank c" using quote_argument_start by blast
  have "next_argument False 0 (c # cs @ quoted_tail as) = (a, quoted_tail as)"
    using next_argument_quoted[of "quoted_tail as" a] q by simp
  with q Cons show ?case by (subst argument_list.simps) simp
qed

lemma command_fold:
  "foldl (\<lambda>command a. command @ [0x20] @ quote_argument a) start as = start @ quoted_tail as"
  by (induction as arbitrary: start) simp_all

lemma quote_command_argument_same: "quote_command_argument = quote_argument"
  by (simp add: quote_command_argument_def quote_argument_def fun_eq_iff)

text \<open>A path that names a file: not empty, without quotes, not ending in a backslash.\<close>

definition file_path :: "wstring \<Rightarrow> bool" where
  "file_path p \<longleftrightarrow> p \<noteq> [] \<and> dquote \<notin> set p \<and> last p \<noteq> backslash"

lemma quote_rest_path:
  "dquote \<notin> set p \<Longrightarrow> (p \<noteq> [] \<longrightarrow> last p \<noteq> backslash) \<Longrightarrow> (p = [] \<longrightarrow> n = 0) \<Longrightarrow>
    quote_rest n p = replicate n backslash @ p @ [dquote]"
  by (induction n p rule: quote_rest.induct) (auto simp: replicate_app_Cons_same split: if_splits)

lemma program_name_quoted:
  "dquote \<notin> set p \<Longrightarrow> program_name True (p @ dquote # rest) = (p @ fst (program_name False rest), snd (program_name False rest))"
  by (induction p) (auto split: prod.split)

lemma program_name_plain:
  "\<not> needs_quotes p \<Longrightarrow> at_end rest \<Longrightarrow> program_name False (p @ rest) = (p, rest)"
proof (induction p)
  case Nil
  then show ?case by (cases rest) (auto dest: blank_not_special)
qed (auto simp: needs_quotes_def)

lemma program_name_of_path:
  assumes "file_path p" and "at_end rest"
  shows "program_name False (quote_argument p @ rest) = (p, rest)"
proof (cases "needs_quotes p")
  case True
  then have "quote_argument p = dquote # p @ [dquote]"
    using assms(1) quote_rest_path[of p 0] by (auto simp: quote_argument_eq file_path_def)
  with assms program_name_plain[of "[]" rest] show ?thesis
    by (simp add: program_name_quoted file_path_def needs_quotes_def)
next
  case False
  with assms program_name_plain show ?thesis by (auto simp: quote_argument_eq file_path_def)
qed

lemma split_quoted:
  "file_path p \<Longrightarrow> split_command_line (quote_argument p @ quoted_tail as) = p # as"
  by (simp add: split_command_line_def program_name_of_path argument_list_tail)

lemma build_command_line_eq:
  "build_command_line r = quote_argument (lr_game_path r) @ quoted_tail (lr_game_arguments r)"
  using command_fold[of "quote_argument (lr_game_path r)"] by (simp add: build_command_line_def)

lemma manager_command_eq:
  "manager_command e as = Some c \<Longrightarrow> c = quote_argument e @ quoted_tail as"
  using command_fold[of "quote_argument e" as]
  by (simp add: manager_command_def quote_command_argument_same Let_def split: if_splits)

text \<open>\<open>build_parameter_text\<close> writes the same arguments without a program name.\<close>

lemma parameter_text_eq:
  "parameter_text p as = Some t \<Longrightarrow> p \<noteq> [] \<Longrightarrow> t = p @ quoted_tail as"
proof (induction as arbitrary: p)
  case (Cons a as)
  then show ?case using Cons.IH[of "p @ 0x20 # quote_argument a"]
    by (auto simp: Let_def quote_command_argument_same split: if_splits)
qed simp

lemma parameter_text_first:
  assumes "build_parameter_text (a # as) = Some t" shows "t = quote_argument a @ quoted_tail as"
proof -
  have "quote_argument a \<noteq> []" using quote_argument_start[of a] by auto
  with assms parameter_text_eq[of "quote_argument a" as t] show ?thesis
    by (auto simp: build_parameter_text_def Let_def quote_command_argument_same split: if_splits)
qed

lemma argument_list_blank: "blank c \<Longrightarrow> argument_list (c # s) = argument_list s"
  by (simp add: argument_list.simps[of "c # s"] argument_list.simps[of s])

lemma length_quote_rest: "length (quote_rest n a) \<le> 2 * n + 2 * length a + 1"
  by (induction n a rule: quote_rest.induct) auto

lemma needs_no_quotes_wide:
  "needs_quotes (wide s) \<longleftrightarrow> list_ex (\<lambda>c. (of_char c :: wchar) \<in> {0x20, 0x09, 0x22}) s"
  by (induction s) (auto simp: needs_quotes_def wide_def blank_def dquote_def)

lemma placeholder_name:
  "program_name False (wide ''ffb-placeholder.exe '' @ text) = (wide ''ffb-placeholder.exe'', 0x20 # text)"
proof -
  have "wide ''ffb-placeholder.exe '' @ text = wide ''ffb-placeholder.exe'' @ 0x20 # text"
    by (simp add: wide_def)
  moreover have "\<not> needs_quotes (wide ''ffb-placeholder.exe'')" by (simp add: needs_no_quotes_wide)
  ultimately show ?thesis using program_name_plain[of "wide ''ffb-placeholder.exe''" "0x20 # text"] by simp
qed

lemma split_game_arguments_eq:
  "split_game_arguments (\<lambda>s. Some (split_command_line s)) text
     = (if 32768 < length text then None else Some (argument_list text))"
  by (simp add: split_game_arguments_def split_command_line_def placeholder_name argument_list_blank
      argument_list.simps[of "[]"])

lemma scan_launcher_arguments:
  "scan_arguments False \<lparr>lr_game_path = [], lr_game_arguments = []\<rparr> (launcher_arguments path args)
     = Scanned True \<lparr>lr_game_path = path, lr_game_arguments = args\<rparr>"
  by (simp add: launcher_arguments_def wide_def)

section \<open>The properties\<close>

text \<open>C15: the command line built for a game, split by the rules of Windows, is the path of the game and
  exactly the arguments asked for, whatever characters they contain; quoting at most doubles an
  argument and adds two quotes.\<close>

theorem command_line_round_trip:
  assumes "file_path (lr_game_path r)"
  shows "split_command_line (build_command_line r) = lr_game_path r # lr_game_arguments r
    \<and> (\<forall>a. length (quote_argument a) \<le> 2 * length a + 2)"
proof (intro conjI allI)
  show "split_command_line (build_command_line r) = lr_game_path r # lr_game_arguments r"
    using assms by (simp add: build_command_line_eq split_quoted)
  show "length (quote_argument a) \<le> 2 * length a + 2" for a
    using length_quote_rest[of 0 a] by (auto simp: quote_argument_eq)
qed

theorem command_line_round_trip_witness:
  "split_command_line (build_command_line
     \<lparr>lr_game_path = [0x43, 0x3A, 0x20, 0x65], lr_game_arguments = [[], [0x5C, 0x22], [0x20, 0x5C]]\<rparr>)
     = [[0x43, 0x3A, 0x20, 0x65], [], [0x5C, 0x22], [0x20, 0x5C]]"
  using command_line_round_trip[of "\<lparr>lr_game_path = [0x43, 0x3A, 0x20, 0x65],
      lr_game_arguments = [[], [0x5C, 0x22], [0x20, 0x5C]]\<rparr>"]
  by (simp add: file_path_def dquote_def backslash_def)

text \<open>C16: the arguments the user typed arrive at the game.  The manager splits the text by the rules of
  Windows, quotes the parts into the command line of the launcher, the launcher scans what the
  rules make of that, and quotes it into the command line of the game: the game gets its path and
  the very arguments the typed text stands for.\<close>

theorem typed_arguments_reach_the_game:
  assumes "file_path launcher" and "file_path game"
    and "split_game_arguments (\<lambda>s. Some (split_command_line s)) text = Some args"
    and "manager_command launcher (launcher_arguments game args) = Some command"
  shows "args = argument_list text
    \<and> (\<exists>r. wmain (\<lambda>_. True) (tl (split_command_line command)) = (0, Some r)
        \<and> split_command_line (build_command_line r) = game # args)"
proof -
  have args: "args = argument_list text" using assms(3) by (simp add: split_game_arguments_eq split: if_splits)
  have "split_command_line command = launcher # launcher_arguments game args"
    using manager_command_eq[OF assms(4)] split_quoted[OF assms(1)] by simp
  moreover have "game \<noteq> []" using assms(2) by (simp add: file_path_def)
  ultimately have "wmain (\<lambda>_. True) (tl (split_command_line command))
      = (0, Some \<lparr>lr_game_path = game, lr_game_arguments = args\<rparr>)"
    by (simp add: wmain_def scan_launcher_arguments)
  with args assms(2) show ?thesis by (auto simp: build_command_line_eq split_quoted)
qed

theorem typed_arguments_reach_the_game_witness:
  "\<exists>command r. manager_command [0x6C] (launcher_arguments [0x67] (argument_list [0x61, 0x20, 0x62])) = Some command
     \<and> wmain (\<lambda>_. True) (tl (split_command_line command)) = (0, Some r)"
proof -
  let ?args = "argument_list [0x61, 0x20, 0x62]"
  have args: "?args = [[0x61], [0x62]]"
    by (simp add: argument_list.simps blank_def backslash_def dquote_def)
  have p: "file_path [0x6C]" "file_path [0x67]" by (simp_all add: file_path_def dquote_def backslash_def)
  have s: "split_game_arguments (\<lambda>s. Some (split_command_line s)) [0x61, 0x20, 0x62] = Some ?args"
    by (simp add: split_game_arguments_eq)
  obtain command where c: "manager_command [0x6C] (launcher_arguments [0x67] ?args) = Some command"
    by (simp add: args manager_command_def launcher_arguments_def quote_command_argument_def needs_quotes_def
        wide_def blank_def dquote_def)
  from typed_arguments_reach_the_game[OF p s c] c show ?thesis by blast
qed

end
