(* ===== verification/Pe_Arch.thy ===== *)
theory Pe_Arch imports Iat_Hook begin

text \<open>
  The architecture of an executable file: \<open>src/launcher/pe_arch.cpp\<close>.  A file is its bytes; a read
  that does not get all it asked for fails.  Texts of errors are constructors.
\<close>

datatype PeArchitecture = pe_unknown | pe_x86 | pe_x64

datatype pe_error = CannotReadFile | NotAnExecutable | UnsupportedMachine

definition read_exact_at :: "byte list \<Rightarrow> int \<Rightarrow> nat \<Rightarrow> byte list option" where
  "read_exact_at img offset sz =
     (if offset < 0 then None
      else let bs = take sz (drop (nat offset) img) in
        if length bs = sz then Some bs else None)"

text \<open>A \<open>LONG\<close> member, sign included.\<close>

definition long_at :: "byte list \<Rightarrow> nat \<Rightarrow> i32" where
  "long_at bs off = word_of_nat (le_value (take 4 (drop off bs)))"

definition sizeof_IMAGE_FILE_HEADER :: nat where "sizeof_IMAGE_FILE_HEADER = 20"
definition IMAGE_FILE_MACHINE_I386 :: nat where "IMAGE_FILE_MACHINE_I386 = 0x14C"
definition IMAGE_FILE_MACHINE_AMD64 :: nat where "IMAGE_FILE_MACHINE_AMD64 = 0x8664"

text \<open>The signature and the machine, when the headers can be read.\<close>

definition read_file_header :: "byte list \<Rightarrow> (nat \<times> nat) option" where
  "read_file_header img =
     (case read_exact_at img 0 sizeof_IMAGE_DOS_HEADER of
        None \<Rightarrow> None
      | Some dos \<Rightarrow>
          let e_lfanew = long_at dos 60 in
          if le_value (take 2 dos) = IMAGE_DOS_SIGNATURE
            \<and> int sizeof_IMAGE_DOS_HEADER \<le> sint e_lfanew
            \<and> sint e_lfanew + int (4 + sizeof_IMAGE_FILE_HEADER) \<le> int (length img)
          then
            (case read_exact_at img (sint e_lfanew) 4 of
               None \<Rightarrow> None
             | Some signature \<Rightarrow>
                 (case read_exact_at img (sint (e_lfanew + 4)) sizeof_IMAGE_FILE_HEADER of
                    None \<Rightarrow> None
                  | Some header \<Rightarrow> Some (le_value signature, le_value (take 2 header))))
          else None)"

definition read_pe_architecture :: "byte list option \<Rightarrow> PeArchitecture \<times> pe_error option" where
  "read_pe_architecture img =
     (case img of
        None \<Rightarrow> (pe_unknown, Some CannotReadFile)
      | Some bs \<Rightarrow>
          (case read_file_header bs of
             None \<Rightarrow> (pe_unknown, Some NotAnExecutable)
           | Some (signature, machine) \<Rightarrow>
               if signature \<noteq> IMAGE_NT_SIGNATURE then (pe_unknown, Some NotAnExecutable)
               else if machine = IMAGE_FILE_MACHINE_I386 then (pe_x86, None)
               else if machine = IMAGE_FILE_MACHINE_AMD64 then (pe_x64, None)
               else (pe_unknown, Some UnsupportedMachine)))"

definition current_architecture :: "arch \<Rightarrow> PeArchitecture" where
  "current_architecture a = (case a of X64 \<Rightarrow> pe_x64 | X86 \<Rightarrow> pe_x86)"

definition architecture_name :: "PeArchitecture \<Rightarrow> string" where
  "architecture_name p = (case p of pe_x86 \<Rightarrow> ''x86'' | pe_x64 \<Rightarrow> ''x64'' | pe_unknown \<Rightarrow> ''unknown'')"

section \<open>Files that are recognised\<close>

text \<open>The layout of a file for a machine: the old header with its pointer, then, after anything, the
  signature, the machine and the rest of the file header.\<close>

definition pe_file :: "nat \<Rightarrow> byte list \<Rightarrow> bool" where
  "pe_file machine img \<longleftrightarrow>
     (\<exists>off. 64 \<le> off \<and> off + 24 < 2 ^ 31 \<and> off + 24 \<le> length img
        \<and> take 2 img = le_bytes 2 IMAGE_DOS_SIGNATURE
        \<and> take 4 (drop 60 img) = le_bytes 4 off
        \<and> take 4 (drop off img) = le_bytes 4 IMAGE_NT_SIGNATURE
        \<and> take 2 (drop (off + 4) img) = le_bytes 2 machine)"

lemma le_value_le_bytes: "v < 256 ^ n \<Longrightarrow> le_value (le_bytes n v) = v"
proof (induction n arbitrary: v)
  case (Suc n)
  then have "v div 256 < 256 ^ n" by (simp add: less_mult_imp_div_less mult.commute)
  with Suc.IH show ?case by (simp add: unat_of_nat)
qed simp

lemma read_exact_at_ok:
  "off + n \<le> length img \<Longrightarrow> read_exact_at img (int off) n = Some (take n (drop off img))"
  by (simp add: read_exact_at_def)

lemma sint_small: "n < 2 ^ 31 \<Longrightarrow> sint (word_of_nat n :: i32) = int n"
  by (simp add: signed_of_nat signed_take_bit_int_eq_self)

lemma read_file_header_pe:
  assumes "pe_file machine img" and "machine < 2 ^ 16"
  shows "read_file_header img = Some (IMAGE_NT_SIGNATURE, machine)"
proof -
  from assms(1) obtain off where off: "64 \<le> off" "off + 24 < 2 ^ 31" "off + 24 \<le> length img"
    and dos: "take 2 img = le_bytes 2 IMAGE_DOS_SIGNATURE" and ptr: "take 4 (drop 60 img) = le_bytes 4 off"
    and sig: "take 4 (drop off img) = le_bytes 4 IMAGE_NT_SIGNATURE"
    and mac: "take 2 (drop (off + 4) img) = le_bytes 2 machine" by (auto simp: pe_file_def)
  have d: "read_exact_at img 0 sizeof_IMAGE_DOS_HEADER = Some (take 64 img)"
    using read_exact_at_ok[of 0 64 img] off by (simp add: sizeof_IMAGE_DOS_HEADER_def)
  have l: "long_at (take 64 img) 60 = word_of_nat off"
    using ptr off by (simp add: long_at_def le_value_le_bytes drop_take min_def)
  have "word_of_nat off + 4 = (word_of_nat (off + 4) :: i32)" by simp
  then have s: "sint (word_of_nat off :: i32) = int off" "sint (word_of_nat off + 4 :: i32) = int (off + 4)"
    using off sint_small[of off] sint_small[of "off + 4"] by (simp_all only:)
  have m: "le_value (take 2 (take 64 img)) = IMAGE_DOS_SIGNATURE"
    using dos by (simp add: le_value_le_bytes IMAGE_DOS_SIGNATURE_def min_def)
  have r: "read_exact_at img (int off) 4 = Some (le_bytes 4 IMAGE_NT_SIGNATURE)"
    "read_exact_at img (int (off + 4)) 20 = Some (take 20 (drop (off + 4) img))"
    using read_exact_at_ok[of off 4 img] read_exact_at_ok[of "off + 4" 20 img] off sig by simp_all
  have "le_value (take 2 (take 20 (drop (off + 4) img))) = machine"
    using mac assms(2) by (simp add: le_value_le_bytes min_def)
  then show ?thesis unfolding read_file_header_def d option.case Let_def l s m
    using r off by (simp add: le_value_le_bytes IMAGE_NT_SIGNATURE_def
        sizeof_IMAGE_FILE_HEADER_def sizeof_IMAGE_DOS_HEADER_def)
qed

text \<open>Executables of the two machines are recognised, and no error comes with an architecture.\<close>

theorem architectures_are_recognised:
  "(pe_file IMAGE_FILE_MACHINE_I386 img \<longrightarrow> read_pe_architecture (Some img) = (pe_x86, None))
   \<and> (pe_file IMAGE_FILE_MACHINE_AMD64 img \<longrightarrow> read_pe_architecture (Some img) = (pe_x64, None))
   \<and> ((snd (read_pe_architecture f) = None) = (fst (read_pe_architecture f) \<noteq> pe_unknown))"
  using read_file_header_pe[of IMAGE_FILE_MACHINE_I386 img] read_file_header_pe[of IMAGE_FILE_MACHINE_AMD64 img]
  by (auto simp: read_pe_architecture_def IMAGE_FILE_MACHINE_I386_def IMAGE_FILE_MACHINE_AMD64_def
      split: option.split)

end
