(* ===== verification/Win_Text.thy ===== *)
theory Win_Text imports FFB_Prelude begin

text \<open>
  Windows paths as the launcher and the manager handle them: the path functions of
  \<open>src/launcher/injector.cpp\<close>, \<open>src/launcher/manager_model.cpp\<close> and
  \<open>src/launcher/manager_main.cpp\<close>.  \<open>_wcsicmp\<close>, \<open>_wcsnicmp\<close> and \<open>towlower\<close> are those of the
  \<open>"C"\<close> locale, in which the programs run: only the ASCII letters have two cases.
\<close>

section \<open>Comparison without case\<close>

definition wlower :: "wchar \<Rightarrow> wchar" where
  "wlower c = (if 0x41 \<le> c \<and> c \<le> 0x5A then c + 32 else c)"

definition wupper :: "wchar \<Rightarrow> wchar" where
  "wupper c = (if 0x61 \<le> c \<and> c \<le> 0x7A then c - 32 else c)"

definition c_str :: "wstring \<Rightarrow> wstring" where
  "c_str s = takeWhile (\<lambda>c. c \<noteq> 0) s"

definition lower_copy :: "wstring \<Rightarrow> wstring" where
  "lower_copy s = map wlower s"

definition wcsicmp_eq :: "wstring \<Rightarrow> wstring \<Rightarrow> bool" where
  "wcsicmp_eq a b \<longleftrightarrow> lower_copy (c_str a) = lower_copy (c_str b)"

definition wcsnicmp_eq :: "nat \<Rightarrow> wstring \<Rightarrow> wstring \<Rightarrow> bool" where
  "wcsnicmp_eq n a b \<longleftrightarrow> lower_copy (c_str (take n a)) = lower_copy (c_str (take n b))"

section \<open>Positions\<close>

definition separator :: "wchar \<Rightarrow> bool" where
  "separator c \<longleftrightarrow> c = 0x5C \<or> c = 0x2F"

definition dot :: wchar where "dot = 0x2E"

fun find_last_of :: "(wchar \<Rightarrow> bool) \<Rightarrow> wstring \<Rightarrow> nat option" where
  "find_last_of P [] = None"
| "find_last_of P (c # cs) =
     (case find_last_of P cs of Some i \<Rightarrow> Some (Suc i) | None \<Rightarrow> if P c then Some 0 else None)"

definition starts_with :: "wstring \<Rightarrow> wstring \<Rightarrow> bool" where
  "starts_with p s \<longleftrightarrow> take (length p) s = p"

section \<open>The paths of the launcher\<close>

definition strip_extended_prefix :: "wstring \<Rightarrow> wstring" where
  "strip_extended_prefix path =
     (if starts_with (wide [CHR 0x5C, CHR 0x5C, CHR ''?'', CHR 0x5C, CHR ''U'', CHR ''N'', CHR ''C'', CHR 0x5C]) path
      then [0x5C, 0x5C] @ drop 8 path
      else if starts_with (wide [CHR 0x5C, CHR 0x5C, CHR ''?'', CHR 0x5C]) path then drop 4 path
      else path)"

definition is_unc_path :: "wstring \<Rightarrow> bool" where
  "is_unc_path path \<longleftrightarrow> 2 \<le> length path \<and> path ! 0 = 0x5C \<and> path ! 1 = 0x5C"

definition has_exe_extension :: "wstring \<Rightarrow> bool" where
  "has_exe_extension path =
     (case find_last_of (\<lambda>c. c = dot) path of
        None \<Rightarrow> False
      | Some d \<Rightarrow>
          (case find_last_of separator path of
             None \<Rightarrow> wcsicmp_eq (drop d path) (wide ''.exe'')
           | Some slash \<Rightarrow> if d < slash then False else wcsicmp_eq (drop d path) (wide ''.exe'')))"

definition without_trailing_separators :: "wstring \<Rightarrow> wstring" where
  "without_trailing_separators s = rev (dropWhile separator (rev s))"

definition path_is_within :: "wstring \<Rightarrow> wstring \<Rightarrow> bool" where
  "path_is_within path directory =
     (let prefix = without_trailing_separators directory in
      if length path \<le> length prefix \<or> \<not> wcsnicmp_eq (length prefix) path prefix then False
      else separator (path ! length prefix))"

definition parent_directory :: "wstring \<Rightarrow> wstring" where
  "parent_directory path = (case find_last_of separator path of None \<Rightarrow> [] | Some slash \<Rightarrow> take slash path)"

definition file_name :: "wstring \<Rightarrow> wstring" where
  "file_name path = (case find_last_of separator path of None \<Rightarrow> path | Some slash \<Rightarrow> drop (Suc slash) path)"

section \<open>The paths of the manager\<close>

definition join_path :: "wstring \<Rightarrow> wstring \<Rightarrow> wstring" where
  "join_path left right =
     (if left = [] then right
      else if right = [] then left
      else if separator (last left) then left @ right
      else left @ [0x5C] @ right)"

fun drop_ending_separators :: "wstring \<Rightarrow> wstring" where
  "drop_ending_separators path =
     (if 3 < length path \<and> separator (last path) then drop_ending_separators (butlast path) else path)"

declare drop_ending_separators.simps [simp del]

definition parent_path :: "wstring \<Rightarrow> wstring" where
  "parent_path p =
     (let path = drop_ending_separators p in
      case find_last_of separator path of
        None \<Rightarrow> []
      | Some slash \<Rightarrow>
          if slash = 2 \<and> 3 \<le> length path \<and> path ! 1 = 0x3A then take 3 path else take slash path)"

definition starts_with_case_insensitive :: "wstring \<Rightarrow> wstring \<Rightarrow> bool" where
  "starts_with_case_insensitive value prefix \<longleftrightarrow>
     length prefix \<le> length value \<and> wcsnicmp_eq (length prefix) value prefix"

definition path_within_or_equal :: "wstring \<Rightarrow> wstring \<Rightarrow> bool" where
  "path_within_or_equal path directory =
     (if wcsicmp_eq path directory then True
      else starts_with_case_insensitive path (without_trailing_separators directory @ [0x5C]))"

text \<open>\<open>drive\<close> is \<open>GetDriveTypeW\<close> of a drive letter: 2 removable, 3 fixed, 4 remote, 5 optical,
  6 in memory.\<close>

definition path_is_absolute_local :: "(wchar \<Rightarrow> nat) \<Rightarrow> wstring \<Rightarrow> bool" where
  "path_is_absolute_local drive path =
     (if length path < 3
        \<or> \<not> (0x41 \<le> path ! 0 \<and> path ! 0 \<le> 0x5A \<or> 0x61 \<le> path ! 0 \<and> path ! 0 \<le> 0x7A)
        \<or> path ! 1 \<noteq> 0x3A \<or> path ! 2 \<noteq> 0x5C \<and> path ! 2 \<noteq> 0x2F
      then False
      else drive (path ! 0) \<in> {3, 2, 5, 6})"

section \<open>Lemmas\<close>

lemma find_last_of_none: "find_last_of P s = None \<longleftrightarrow> (\<forall>c \<in> set s. \<not> P c)"
  by (induction s) (auto split: option.splits)

lemma find_last_of_some:
  "find_last_of P s = Some i \<longleftrightarrow> i < length s \<and> P (s ! i) \<and> (\<forall>c \<in> set (drop (Suc i) s). \<not> P c)"
proof (induction s arbitrary: i)
  case (Cons c cs)
  show ?case
  proof (cases "find_last_of P cs")
    case None
    then have "\<forall>c \<in> set cs. \<not> P c" by (simp add: find_last_of_none)
    with None show ?thesis by (cases i) (auto dest: nth_mem)
  next
    case (Some j)
    with Cons[of j] have "j < length cs" "P (cs ! j)" by auto
    then have "P (cs ! j) \<and> cs ! j \<in> set cs" by simp
    show ?thesis
    proof (cases i)
      case 0
      with Some \<open>P (cs ! j) \<and> cs ! j \<in> set cs\<close> show ?thesis by auto
    next
      case (Suc k)
      with Some Cons[of k] show ?thesis by simp
    qed
  qed
qed simp

lemma find_last_of_append:
  "find_last_of P (xs @ ys) =
     (case find_last_of P ys of
        Some i \<Rightarrow> Some (length xs + i)
      | None \<Rightarrow> find_last_of P xs)"
  by (induction xs) (auto split: option.splits)

lemma parent_file_name: "find_last_of separator p = Some i \<Longrightarrow> p = parent_directory p @ p ! i # file_name p"
  using find_last_of_some[THEN iffD1, of separator p i]
  by (simp add: parent_directory_def file_name_def id_take_nth_drop[symmetric])

lemma file_name_plain: "\<forall>c \<in> set (file_name p). \<not> separator c"
  by (auto simp: file_name_def find_last_of_some find_last_of_none split: option.split)

lemma file_name_join:
  assumes "n \<noteq> []" and "\<forall>c \<in> set n. \<not> separator c"
  shows "file_name (join_path d n) = n"
proof -
  have none: "find_last_of separator n = None" using assms(2) by (simp add: find_last_of_none)
  have sep: "separator 0x5C" by (simp add: separator_def)
  show ?thesis
  proof (cases "d = []")
    case True
    then show ?thesis using none by (simp add: join_path_def file_name_def)
  next
    case False
    then obtain d' c where d: "d = d' @ [c]" by (metis rev_exhaust)
    then show ?thesis using assms(1) none sep
      by (auto simp: join_path_def file_name_def find_last_of_append)
  qed
qed

lemma lower_copy_append [simp]: "lower_copy (a @ b) = lower_copy a @ lower_copy b"
  by (simp add: lower_copy_def)

lemma length_lower_copy [simp]: "length (lower_copy a) = length a"
  by (simp add: lower_copy_def)

lemma wcsicmp_eq_refl [simp]: "wcsicmp_eq a a"
  by (simp add: wcsicmp_eq_def)

lemma wcsicmp_eq_sym: "wcsicmp_eq a b \<Longrightarrow> wcsicmp_eq b a"
  by (simp add: wcsicmp_eq_def)

lemma wcsicmp_eq_trans: "wcsicmp_eq a b \<Longrightarrow> wcsicmp_eq b c \<Longrightarrow> wcsicmp_eq a c"
  by (simp add: wcsicmp_eq_def)

lemma c_str_id: "0 \<notin> set s \<Longrightarrow> c_str s = s"
  by (auto simp: c_str_def takeWhile_eq_all_conv)

lemma wcsicmp_eq_lower:
  "0 \<notin> set a \<Longrightarrow> 0 \<notin> set b \<Longrightarrow> wcsicmp_eq a b \<longleftrightarrow> lower_copy a = lower_copy b"
  by (simp add: wcsicmp_eq_def c_str_id)

lemma wlower_idem [simp]: "wlower (wlower c) = wlower c"
proof (cases "0x41 \<le> c \<and> c \<le> 0x5A")
  case True
  then have "\<not> (c + 32 \<le> 0x5A)" by (simp add: word_le_nat_alt unat_word_ariths)
  with True show ?thesis by (simp add: wlower_def)
qed (simp add: wlower_def)

lemma lower_copy_idem [simp]: "lower_copy (lower_copy s) = lower_copy s"
  by (simp add: lower_copy_def)

text \<open>A path within a directory continues it, up to case, with a separator.\<close>

lemma path_is_within_iff:
  assumes "0 \<notin> set path" and "0 \<notin> set d"
  shows "path_is_within path d \<longleftrightarrow>
    (\<exists>p c rest. path = p @ c # rest \<and> separator c \<and> lower_copy p = lower_copy (without_trailing_separators d))"
proof -
  let ?d = "without_trailing_separators d"
  have z: "0 \<notin> set ?d" "0 \<notin> set (take (length ?d) path)"
    using assms by (auto simp: without_trailing_separators_def dest: set_dropWhileD in_set_takeD)
  show ?thesis
  proof
    assume w: "path_is_within path d"
    then have "length ?d < length path" "lower_copy (take (length ?d) path) = lower_copy ?d"
      "separator (path ! length ?d)"
      using z by (auto simp: path_is_within_def wcsnicmp_eq_def c_str_id Let_def split: if_splits)
    then show "\<exists>p c rest. path = p @ c # rest \<and> separator c \<and> lower_copy p = lower_copy ?d"
      using id_take_nth_drop by blast
  next
    assume "\<exists>p c rest. path = p @ c # rest \<and> separator c \<and> lower_copy p = lower_copy ?d"
    then obtain p c rest where p: "path = p @ c # rest" "separator c" "lower_copy p = lower_copy ?d" by blast
    then have "length p = length ?d" by (metis length_lower_copy)
    with p z show "path_is_within path d"
      by (simp add: path_is_within_def wcsnicmp_eq_def c_str_id Let_def nth_append)
  qed
qed

end
