(* ===== verification/Debug_Session.thy ===== *)
theory Debug_Session imports Iat_Hook Win_Text begin

text \<open>
  The launcher as a debugger of the new process: the debug events, the breakpoint at the entry of the
  game and the remote threads of \<open>src/launcher/injector.cpp\<close>.  A loop over \<open>WaitForDebugEvent\<close> is a
  recursion over what Windows answers in each round; the result \<open>None\<close> means that the rounds given
  were not enough, and it is proved that a round at the deadline always ends a loop.
\<close>

section \<open>Errors\<close>

text \<open>One constructor per message.\<close>

datatype launch_error =
    ElevationUnknown | Elevated
  | FileNotFound | NotRegularFile | FinalPathUnknown | PathTooLong
  | GameOnNetwork | NotExe | WindowsDirectoryUnknown | InWindowsDirectory
  | OwnPathUnknown | HookMissing | HookOnNetwork | BadExecutable | ArchitectureMismatch
  | ProcessNotCreated | StartupTimeout | WaitFailed | ExitedDuringLoad | ContinueFailed
  | NoImageBase | BadHeader | HeaderOverflow | BadEntryPoint | EntryOverflow
  | EntryUnreadable | EntryUnprotectable | EntryUnwritable | ContextUnreadable | ContextUnwritable | SuspendFailed
  | AllocationFailed | PathNotWritten | LoaderModuleUnknown | LoaderPathUnknown | LoaderAddressInvalid | LoadLibraryUnknown
  | ModuleConflict | ModuleMissing
  | ThreadNotCreated | ThreadWaitFailed | ExitCodeUnknown | InitializationTimeout | ExitedDuringInitialization
  | HookUnverifiable | InitializerMissing | InitializationFailed u32 | DetachFailed | ResumeFailed

section \<open>Modules of the debugged process\<close>

record debug_module =
  dm_name :: wstring
  dm_path :: wstring
  dm_base :: nat

record debug_session =
  ds_modules :: "debug_module list"
  ds_image_base :: nat

definition new_session :: debug_session where
  "new_session = \<lparr>ds_modules = [], ds_image_base = 0\<rparr>"

fun set_module :: "nat \<Rightarrow> wstring \<Rightarrow> debug_module list \<Rightarrow> debug_module list option" where
  "set_module base path [] = None"
| "set_module base path (m # ms) =
     (if dm_base m = base then Some (m\<lparr>dm_path := path, dm_name := file_name path\<rparr> # ms)
      else map_option ((#) m) (set_module base path ms))"

text \<open>\<open>path\<close> is what \<open>path_from_debug_file\<close> gives, empty when the file has none.\<close>

definition record_debug_module :: "nat \<Rightarrow> wstring \<Rightarrow> debug_session \<Rightarrow> debug_session" where
  "record_debug_module base path s =
     (if base = 0 then s
      else if path = [] then s
      else case set_module base path (ds_modules s) of
        Some ms \<Rightarrow> s\<lparr>ds_modules := ms\<rparr>
      | None \<Rightarrow>
          if 4096 \<le> length (ds_modules s) then s
          else s\<lparr>ds_modules := ds_modules s @ [\<lparr>dm_name = file_name path, dm_path = path, dm_base = base\<rparr>]\<rparr>)"

datatype event_kind =
    CreateProcess nat wstring
  | LoadDll nat wstring
  | UnloadDll nat
  | ExceptionAt u32 nat
  | ExitThread u32
  | ExitProcess
  | OtherEvent

record debug_event =
  de_kind :: event_kind
  de_thread :: u32

definition observe_debug_event :: "debug_event \<Rightarrow> debug_session \<Rightarrow> debug_session" where
  "observe_debug_event event s =
     (case de_kind event of
        CreateProcess base path \<Rightarrow> record_debug_module base path (s\<lparr>ds_image_base := base\<rparr>)
      | LoadDll base path \<Rightarrow> record_debug_module base path s
      | UnloadDll base \<Rightarrow> s\<lparr>ds_modules := filter (\<lambda>m. dm_base m \<noteq> base) (ds_modules s)\<rparr>
      | _ \<Rightarrow> s)"

text \<open>The search goes on past modules of the name that come from elsewhere.\<close>

fun find_module :: "wstring \<Rightarrow> wstring option \<Rightarrow> bool \<Rightarrow> debug_module list \<Rightarrow> launch_error + nat" where
  "find_module name path conflict [] = Inl (if conflict then ModuleConflict else ModuleMissing)"
| "find_module name path conflict (m # ms) =
     (if \<not> wcsicmp_eq (dm_name m) name then find_module name path conflict ms
      else case path of
        None \<Rightarrow> Inr (dm_base m)
      | Some p \<Rightarrow> if wcsicmp_eq (dm_path m) p then Inr (dm_base m) else find_module name path True ms)"

definition find_debug_module :: "debug_session \<Rightarrow> wstring \<Rightarrow> wstring option \<Rightarrow> launch_error + nat" where
  "find_debug_module s name path = find_module name path False (ds_modules s)"

text \<open>\<open>owner\<close> and \<open>owner_path\<close> describe the module that holds the local function.\<close>

definition remote_function_address ::
  "arch \<Rightarrow> debug_session \<Rightarrow> nat \<Rightarrow> nat option \<Rightarrow> wstring option \<Rightarrow> launch_error + nat" where
  "remote_function_address a s local_function owner owner_path =
     and_then (or_fail owner LoaderModuleUnknown) (\<lambda>local_base.
     and_then (or_fail owner_path LoaderPathUnknown) (\<lambda>module_path.
     and_then (require (local_base \<le> local_function) LoaderAddressInvalid) (\<lambda>_.
     and_then (find_debug_module s (file_name module_path) None) (\<lambda>remote_base.
     Inr (size_t a (remote_base + (local_function - local_base)))))))"

section \<open>The entry point\<close>

text \<open>The memory of the process, as far as it can be read.\<close>

type_synonym memory = "nat \<Rightarrow> byte option"

definition read_remote :: "memory \<Rightarrow> nat \<Rightarrow> nat \<Rightarrow> byte list option" where
  "read_remote mem address n =
     (if list_all (\<lambda>i. mem (address + i) \<noteq> None) [0..<n]
      then Some (map (\<lambda>i. the (mem (address + i))) [0..<n]) else None)"

definition uintptr_max :: "arch \<Rightarrow> nat" where
  "uintptr_max a = 2 ^ (8 * pointer_size a) - 1"

definition read_remote_entry_point :: "arch \<Rightarrow> memory \<Rightarrow> nat \<Rightarrow> launch_error + nat" where
  "read_remote_entry_point a mem image_base =
     and_then (require (image_base \<noteq> 0) NoImageBase) (\<lambda>_.
     and_then (or_fail (read_remote mem image_base sizeof_IMAGE_DOS_HEADER) BadHeader) (\<lambda>dos.
     let e_lfanew = le_value (take 4 (drop 60 dos)) in
     and_then (require (le_value (take 2 dos) = IMAGE_DOS_SIGNATURE
       \<and> 0 < e_lfanew \<and> e_lfanew < 2 ^ 31 \<and> e_lfanew \<le> 1024 * 1024) BadHeader) (\<lambda>_.
     and_then (require (image_base \<le> uintptr_max a - e_lfanew) HeaderOverflow) (\<lambda>_.
     and_then (or_fail (read_remote mem (image_base + e_lfanew) (sizeof_IMAGE_NT_HEADERS a)) BadEntryPoint) (\<lambda>nt.
     let entry = le_value (take 4 (drop 40 nt)); image_size = le_value (take 4 (drop 80 nt)) in
     and_then (require (le_value (take 4 nt) = IMAGE_NT_SIGNATURE
       \<and> le_value (take 2 (drop 24 nt)) = optional_magic a \<and> entry \<noteq> 0 \<and> entry < image_size) BadEntryPoint) (\<lambda>_.
     and_then (require (image_base \<le> uintptr_max a - entry) EntryOverflow) (\<lambda>_.
     Inr (image_base + entry))))))))"

text \<open>The answers of Windows while one code byte is written.\<close>

record write_env =
  we_protect :: bool
  we_write :: bool
  we_flush :: bool
  we_restore :: bool

definition write_remote_code_byte :: "write_env \<Rightarrow> nat \<Rightarrow> byte \<Rightarrow> memory \<Rightarrow> launch_error option \<times> memory" where
  "write_remote_code_byte e address v mem =
     (if \<not> we_protect e then (Some EntryUnprotectable, mem)
      else
        let mem' = (if we_write e then mem(address \<mapsto> v) else mem) in
        if \<not> we_write e \<or> \<not> we_flush e \<or> \<not> we_restore e then (Some EntryUnwritable, mem')
        else (None, mem'))"

definition int3 :: byte where "int3 = 0xCC"

definition arm_entry_breakpoint :: "write_env \<Rightarrow> nat \<Rightarrow> memory \<Rightarrow> (launch_error + byte) \<times> memory" where
  "arm_entry_breakpoint e entry mem =
     (case mem entry of
        None \<Rightarrow> (Inl EntryUnreadable, mem)
      | Some original \<Rightarrow>
          (case write_remote_code_byte e entry int3 mem of
             (Some err, mem) \<Rightarrow> (Inl err, mem)
           | (None, mem) \<Rightarrow> (Inr original, mem)))"

section \<open>Waiting for the loader\<close>

text \<open>The process: its memory, where its main thread stands and how often that is suspended.\<close>

record target =
  tg_mem :: memory
  tg_ip :: nat
  tg_suspended :: nat

text \<open>A round: the clock, the event (\<open>None\<close> when waiting failed), the outcomes of the calls, and what
  the process does when it is continued.\<close>

record pause_tick =
  pt_now :: nat
  pt_event :: "debug_event option"
  pt_write :: write_env
  pt_get_context :: bool
  pt_set_context :: bool
  pt_suspend :: bool
  pt_continue :: bool
  pt_run :: "target \<Rightarrow> target"

definition EXCEPTION_BREAKPOINT :: u32 where "EXCEPTION_BREAKPOINT = 0x80000003"

definition rewind_thread_to_entry :: "pause_tick \<Rightarrow> nat \<Rightarrow> target \<Rightarrow> launch_error + target" where
  "rewind_thread_to_entry k entry t =
     and_then (require (pt_get_context k) ContextUnreadable) (\<lambda>_.
     and_then (require (pt_set_context k) ContextUnwritable) (\<lambda>_.
     Inr (t\<lparr>tg_ip := entry\<rparr>)))"

text \<open>What is done at the breakpoint of the entry.\<close>

definition stop_at_entry :: "pause_tick \<Rightarrow> nat \<times> byte \<Rightarrow> target \<Rightarrow> launch_error option \<times> target" where
  "stop_at_entry k = (\<lambda>(entry, original) t.
     case write_remote_code_byte (pt_write k) entry original (tg_mem t) of
       (Some err, mem) \<Rightarrow> (Some err, t\<lparr>tg_mem := mem\<rparr>)
     | (None, mem) \<Rightarrow>
         (case rewind_thread_to_entry k entry (t\<lparr>tg_mem := mem\<rparr>) of
            Inl err \<Rightarrow> (Some err, t\<lparr>tg_mem := mem\<rparr>)
          | Inr t \<Rightarrow>
              if \<not> pt_suspend k then (Some SuspendFailed, t)
              else if \<not> pt_continue k then (Some ContinueFailed, t\<lparr>tg_suspended := Suc (tg_suspended t)\<rparr>)
              else (None, t\<lparr>tg_suspended := Suc (tg_suspended t)\<rparr>)))"

text \<open>\<open>armed\<close> is \<open>initial_breakpoint_seen\<close> with the entry point and its byte.\<close>

fun pause_loop ::
  "arch \<Rightarrow> u32 \<Rightarrow> nat \<Rightarrow> (nat \<times> byte) option \<Rightarrow> debug_session \<Rightarrow> target \<Rightarrow> pause_tick list
    \<Rightarrow> (launch_error + debug_session) option \<times> target" where
  "pause_loop a main deadline armed s t [] = (None, t)"
| "pause_loop a main deadline armed s t (k # ks) =
     (if deadline \<le> pt_now k then (Some (Inl StartupTimeout), t)
      else case pt_event k of
        None \<Rightarrow> (Some (Inl WaitFailed), t)
      | Some event \<Rightarrow>
          let s = observe_debug_event event s;
              go_on = (\<lambda>armed t. if pt_continue k then pause_loop a main deadline armed s (pt_run k t) ks
                 else (Some (Inl ContinueFailed), t))
          in case de_kind event of
               ExitProcess \<Rightarrow> (Some (Inl ExitedDuringLoad), t)
             | ExceptionAt code address \<Rightarrow>
                 (case armed of
                    None \<Rightarrow>
                      if code = EXCEPTION_BREAKPOINT then
                        (case read_remote_entry_point a (tg_mem t) (ds_image_base s) of
                           Inl e \<Rightarrow> (Some (Inl e), t)
                         | Inr entry \<Rightarrow>
                             (case arm_entry_breakpoint (pt_write k) entry (tg_mem t) of
                                (Inl e, mem) \<Rightarrow> (Some (Inl e), t\<lparr>tg_mem := mem\<rparr>)
                              | (Inr original, mem) \<Rightarrow> go_on (Some (entry, original)) (t\<lparr>tg_mem := mem\<rparr>)))
                      else go_on armed t
                  | Some (entry, original) \<Rightarrow>
                      if code = EXCEPTION_BREAKPOINT \<and> address = entry \<and> de_thread event = main then
                        (case stop_at_entry k (entry, original) t of
                           (Some e, t) \<Rightarrow> (Some (Inl e), t)
                         | (None, t) \<Rightarrow> (Some (Inr s), t))
                      else go_on armed t)
             | _ \<Rightarrow> go_on armed t)"

definition kStartupTimeoutMs :: nat where "kStartupTimeoutMs = 15000"
definition kRemoteCallTimeoutMs :: nat where "kRemoteCallTimeoutMs = 15000"

definition pause_after_loader_initialization ::
  "arch \<Rightarrow> u32 \<Rightarrow> nat \<Rightarrow> debug_session \<Rightarrow> target \<Rightarrow> pause_tick list
    \<Rightarrow> (launch_error + debug_session) option \<times> target" where
  "pause_after_loader_initialization a main now s t ks =
     pause_loop a main (now + kStartupTimeoutMs) None s t ks"

section \<open>Remote threads\<close>

datatype thread_wait = WaitBroken | Ended "u32 option" | NotYet

record thread_tick =
  tt_wait :: thread_wait
  tt_now :: nat
  tt_event :: "debug_event option"
  tt_continue :: bool

fun thread_loop ::
  "u32 \<Rightarrow> nat \<Rightarrow> debug_session \<Rightarrow> thread_tick list \<Rightarrow> (launch_error + u32 \<times> debug_session) option" where
  "thread_loop thread deadline s [] = None"
| "thread_loop thread deadline s (k # ks) =
     (case tt_wait k of
        WaitBroken \<Rightarrow> Some (Inl ThreadWaitFailed)
      | Ended code \<Rightarrow> Some (and_then (or_fail code ExitCodeUnknown) (\<lambda>c. Inr (c, s)))
      | NotYet \<Rightarrow>
          if deadline \<le> tt_now k then Some (Inl InitializationTimeout)
          else case tt_event k of
            None \<Rightarrow> Some (Inl WaitFailed)
          | Some event \<Rightarrow>
              let s = observe_debug_event event s in
              if \<not> tt_continue k then Some (Inl ContinueFailed)
              else case de_kind event of
                ExitProcess \<Rightarrow> Some (Inl ExitedDuringInitialization)
              | ExitThread code \<Rightarrow>
                  if de_thread event = thread then Some (Inr (code, s))
                  else thread_loop thread deadline s ks
              | _ \<Rightarrow> thread_loop thread deadline s ks)"

text \<open>\<open>thread\<close> is the id of the thread, \<open>None\<close> when it could not be created.\<close>

definition run_remote_thread ::
  "u32 option \<Rightarrow> nat \<Rightarrow> debug_session \<Rightarrow> thread_tick list \<Rightarrow> (launch_error + u32 \<times> debug_session) option" where
  "run_remote_thread thread now s ks =
     (case thread of
        None \<Rightarrow> Some (Inl ThreadNotCreated)
      | Some i \<Rightarrow> thread_loop i (now + kRemoteCallTimeoutMs) s ks)"

section \<open>The game is stopped at its entry, unchanged\<close>

lemma write_success:
  "write_remote_code_byte e address v mem = (None, mem') \<Longrightarrow> mem' = mem(address \<mapsto> v)"
  by (simp add: write_remote_code_byte_def Let_def split: if_splits)

lemma stop_success:
  "stop_at_entry k (entry, original) t = (None, t') \<Longrightarrow>
     tg_mem t' = (tg_mem t)(entry \<mapsto> original) \<and> tg_ip t' = entry \<and> tg_suspended t' = Suc (tg_suspended t)"
  by (auto simp: stop_at_entry_def rewind_thread_to_entry_def require_def dest: write_success
      split: prod.splits option.splits sum.splits if_splits)

lemma arm_success:
  "arm_entry_breakpoint e entry mem = (Inr original, mem') \<Longrightarrow>
     mem entry = Some original \<and> mem' = mem(entry \<mapsto> int3)"
  by (auto simp: arm_entry_breakpoint_def dest: write_success split: prod.splits option.splits)

text \<open>The process leaves the byte at an address alone.\<close>

definition leaves :: "pause_tick list \<Rightarrow> nat \<Rightarrow> bool" where
  "leaves ks address \<longleftrightarrow> (\<forall>k \<in> set ks. \<forall>t. tg_mem (pt_run k t) address = tg_mem t address)"

lemma leaves_Cons: "leaves (k # ks) x \<longleftrightarrow> (\<forall>t. tg_mem (pt_run k t) x = tg_mem t x) \<and> leaves ks x"
  by (simp add: leaves_def)

text \<open>What the memory at an address is seen from before the breakpoint.\<close>

definition plain_mem :: "(nat \<times> byte) option \<Rightarrow> target \<Rightarrow> memory" where
  "plain_mem armed t = (case armed of None \<Rightarrow> tg_mem t | Some (entry, original) \<Rightarrow> (tg_mem t)(entry \<mapsto> original))"

definition stopped_at_entry :: "(nat \<times> byte) option \<Rightarrow> target \<Rightarrow> target \<Rightarrow> pause_tick list \<Rightarrow> bool" where
  "stopped_at_entry armed t t' ks \<longleftrightarrow>
     0 < tg_suspended t' \<and> (\<exists>original. tg_mem t' (tg_ip t') = Some original \<and> (\<forall>p. armed = Some p \<longrightarrow> p = (tg_ip t', original)))
     \<and> (\<forall>x. leaves ks x \<longrightarrow> tg_mem t' x = plain_mem armed t x)"

lemma stopped_step:
  assumes "stopped_at_entry armed (pt_run k t) t' ks"
  shows "stopped_at_entry armed t t' (k # ks)"
  using assms by (auto simp: stopped_at_entry_def leaves_Cons plain_mem_def split: option.splits)

lemma stopped_arm:
  assumes "stopped_at_entry (Some (entry, original)) (t\<lparr>tg_mem := (tg_mem t)(entry \<mapsto> int3)\<rparr>) t' ks"
    and "tg_mem t entry = Some original"
  shows "stopped_at_entry None t t' ks"
  using assms by (auto simp: stopped_at_entry_def plain_mem_def fun_upd_def split: if_splits)

lemma pause_loop_stops:
  "pause_loop a main deadline armed s t ks = (Some (Inr s'), t') \<Longrightarrow> stopped_at_entry armed t t' ks"
proof (induction ks arbitrary: armed s t)
  case (Cons k ks)
  have go: "stopped_at_entry b u t' (k # ks)"
    if "(if pt_continue k then pause_loop a main deadline b v (pt_run k u) ks else (Some (Inl ContinueFailed), u))
      = (Some (Inr s'), t')" for b v u
    using that Cons.IH stopped_step by (metis Inl_Inr_False option.inject prod.inject)
  from Cons.prems obtain event where ev: "\<not> deadline \<le> pt_now k" "pt_event k = Some event"
    by (auto split: if_splits option.splits)
  let ?s = "observe_debug_event event s"
  consider (bp_first) code address where "de_kind event = ExceptionAt code address" "armed = None"
      "code = EXCEPTION_BREAKPOINT"
    | (bp_entry) code entry original where "de_kind event = ExceptionAt code entry" "armed = Some (entry, original)"
      "code = EXCEPTION_BREAKPOINT" "de_thread event = main"
    | (gone) "de_kind event = ExitProcess"
    | (other) "(if pt_continue k then pause_loop a main deadline armed ?s (pt_run k t) ks
        else (Some (Inl ContinueFailed), t)) = (Some (Inr s'), t')"
    using Cons.prems ev by (cases "de_kind event"; cases armed; simp add: Let_def split: if_splits prod.splits)
  then show ?case
  proof cases
    case bp_first
    with Cons.prems ev obtain entry original mem where
      arm: "arm_entry_breakpoint (pt_write k) entry (tg_mem t) = (Inr original, mem)"
      and r: "(if pt_continue k then pause_loop a main deadline (Some (entry, original)) ?s (pt_run k (t\<lparr>tg_mem := mem\<rparr>)) ks
         else (Some (Inl ContinueFailed), t\<lparr>tg_mem := mem\<rparr>)) = (Some (Inr s'), t')"
      by (auto simp: Let_def split: sum.splits prod.splits)
    from go[OF r] arm_success[OF arm] bp_first stopped_arm show ?thesis by blast
  next
    case bp_entry
    with Cons.prems ev have "stop_at_entry k (entry, original) t = (None, t')"
      by (auto simp: Let_def split: prod.splits option.splits)
    from stop_success[OF this] bp_entry show ?thesis
      by (auto simp: stopped_at_entry_def plain_mem_def)
  next
    case gone
    with Cons.prems ev show ?thesis by (simp add: Let_def)
  next
    case other
    from go[OF other] show ?thesis .
  qed
qed simp

section \<open>The loops end\<close>

lemma pause_loop_ends:
  "\<exists>k \<in> set ks. deadline \<le> pt_now k \<Longrightarrow> fst (pause_loop a main deadline armed s t ks) \<noteq> None"
proof (induction ks arbitrary: armed s t)
  case (Cons k ks)
  show ?case
  proof (cases "deadline \<le> pt_now k")
    case False
    with Cons.prems have "\<exists>k \<in> set ks. deadline \<le> pt_now k" by auto
    from Cons.IH[OF this] False show ?thesis
      by (cases "pt_event k"; simp add: Let_def split: event_kind.split option.split prod.split sum.split)
  qed simp
qed simp

lemma thread_loop_ends:
  "\<exists>k \<in> set ks. deadline \<le> tt_now k \<Longrightarrow> thread_loop thread deadline s ks \<noteq> None"
proof (induction ks arbitrary: s)
  case (Cons k ks)
  show ?case
  proof (cases "deadline \<le> tt_now k")
    case False
    with Cons.prems have "\<exists>k \<in> set ks. deadline \<le> tt_now k" by auto
    from Cons.IH[OF this] False show ?thesis
      by (cases "tt_event k"; simp add: Let_def split: event_kind.split thread_wait.split)
  qed (simp split: thread_wait.split)
qed simp

section \<open>The list of modules\<close>

definition session_ok :: "debug_session \<Rightarrow> bool" where
  "session_ok s \<longleftrightarrow> distinct (map dm_base (ds_modules s)) \<and> length (ds_modules s) \<le> 4096
     \<and> (\<forall>m \<in> set (ds_modules s). dm_base m \<noteq> 0 \<and> dm_name m = file_name (dm_path m))"

lemma set_module_some:
  "set_module base path ms = Some ms' \<Longrightarrow>
     map dm_base ms' = map dm_base ms \<and> length ms' = length ms
     \<and> (\<forall>m \<in> set ms'. m \<in> set ms \<or> dm_base m = base \<and> dm_path m = path \<and> dm_name m = file_name path \<and> base \<in> dm_base ` set ms)"
  by (induction ms arbitrary: ms') (auto split: if_splits)

lemma set_module_none: "set_module base path ms = None \<longleftrightarrow> base \<notin> dm_base ` set ms"
  by (induction ms) auto

lemma session_ok_record: "session_ok s \<Longrightarrow> session_ok (record_debug_module base path s)"
  by (auto simp: record_debug_module_def session_ok_def set_module_none dest: set_module_some split: option.split)

lemma session_ok_observe: "session_ok s \<Longrightarrow> session_ok (observe_debug_event e s)"
proof -
  assume s: "session_ok s"
  have "session_ok (s\<lparr>ds_image_base := b\<rparr>)" for b using s by (simp add: session_ok_def)
  moreover have "session_ok (s\<lparr>ds_modules := filter P (ds_modules s)\<rparr>)" for P
    using s by (auto simp: session_ok_def distinct_map_filter intro: le_trans[OF length_filter_le])
  ultimately show ?thesis using s
    by (auto simp: observe_debug_event_def session_ok_record split: event_kind.split)
qed

lemma find_module_some:
  "find_module name path c ms = Inr base \<Longrightarrow>
    \<exists>m \<in> set ms. dm_base m = base \<and> wcsicmp_eq (dm_name m) name \<and> (\<forall>p. path = Some p \<longrightarrow> wcsicmp_eq (dm_path m) p)"
  by (induction name path c ms rule: find_module.induct) (auto split: if_splits option.splits)


text \<open>The entry point is the one that the headers of the image give when the breakpoint is set.\<close>

definition announced_bases :: "pause_tick list \<Rightarrow> nat set" where
  "announced_bases ks = {b. \<exists>k \<in> set ks. \<exists>event path. pt_event k = Some event \<and> de_kind event = CreateProcess b path}"

lemma announced_bases_Cons: "announced_bases ks \<subseteq> announced_bases (k # ks)"
  by (auto simp: announced_bases_def)

lemma observed_base:
  assumes "pt_event k = Some event"
  shows "ds_image_base (observe_debug_event event s) \<in> insert (ds_image_base s) (announced_bases (k # ks))"
proof -
  have "ds_image_base (record_debug_module b p s) = ds_image_base s" for b p s
    by (simp add: record_debug_module_def split: option.split)
  with assms show ?thesis
    by (auto simp: observe_debug_event_def announced_bases_def split: event_kind.split)
qed

definition entry_of_image :: "arch \<Rightarrow> nat set \<Rightarrow> target \<Rightarrow> pause_tick list \<Rightarrow> nat \<Rightarrow> bool" where
  "entry_of_image a bases t ks entry \<longleftrightarrow>
     (\<exists>b \<in> bases. \<exists>mem. read_remote_entry_point a mem b = Inr entry \<and> (\<forall>x. leaves ks x \<longrightarrow> mem x = tg_mem t x))"

lemma entry_of_image_step:
  assumes "entry_of_image a bases (pt_run k t) ks entry" and "bases \<subseteq> bases'"
  shows "entry_of_image a bases' t (k # ks) entry"
proof -
  from assms(1) obtain b mem where "b \<in> bases" and r: "read_remote_entry_point a mem b = Inr entry"
    and m: "\<forall>x. leaves ks x \<longrightarrow> mem x = tg_mem (pt_run k t) x" by (auto simp: entry_of_image_def)
  with assms(2) have "b \<in> bases'" by blast
  moreover have "\<forall>x. leaves (k # ks) x \<longrightarrow> mem x = tg_mem t x" using m by (simp add: leaves_Cons)
  ultimately show ?thesis unfolding entry_of_image_def using r by blast
qed

lemma pause_loop_entry:
  "pause_loop a main deadline None s t ks = (Some (Inr s'), t') \<Longrightarrow>
     entry_of_image a (insert (ds_image_base s) (announced_bases ks)) t ks (tg_ip t')"
proof (induction ks arbitrary: s t)
  case (Cons k ks)
  from Cons.prems obtain event where ev: "\<not> deadline \<le> pt_now k" "pt_event k = Some event"
    by (auto split: if_splits option.splits)
  let ?s = "observe_debug_event event s" and ?bases = "insert (ds_image_base s) (announced_bases (k # ks))"
  have base: "ds_image_base ?s \<in> ?bases" by (rule observed_base[OF ev(2)])
  consider (bp) code address where "de_kind event = ExceptionAt code address" "code = EXCEPTION_BREAKPOINT"
    | (gone) "de_kind event = ExitProcess"
    | (other) "(if pt_continue k then pause_loop a main deadline None ?s (pt_run k t) ks
        else (Some (Inl ContinueFailed), t)) = (Some (Inr s'), t')"
    using Cons.prems ev by (cases "de_kind event"; simp add: Let_def split: if_splits)
  then show ?case
  proof cases
    case bp
    with Cons.prems ev obtain entry original mem where
      e: "read_remote_entry_point a (tg_mem t) (ds_image_base ?s) = Inr entry"
      and r: "(if pt_continue k then pause_loop a main deadline (Some (entry, original)) ?s (pt_run k (t\<lparr>tg_mem := mem\<rparr>)) ks
         else (Some (Inl ContinueFailed), t\<lparr>tg_mem := mem\<rparr>)) = (Some (Inr s'), t')"
      by (auto simp: Let_def split: sum.splits prod.splits)
    from r have "pause_loop a main deadline (Some (entry, original)) ?s (pt_run k (t\<lparr>tg_mem := mem\<rparr>)) ks = (Some (Inr s'), t')"
      by (simp split: if_splits)
    from pause_loop_stops[OF this] have "tg_ip t' = entry" by (auto simp: stopped_at_entry_def)
    with e base show ?thesis by (auto simp: entry_of_image_def)
  next
    case gone
    with Cons.prems ev show ?thesis by (simp add: Let_def)
  next
    case other
    then have "pause_loop a main deadline None ?s (pt_run k t) ks = (Some (Inr s'), t')" by (simp split: if_splits)
    from entry_of_image_step[OF Cons.IH[OF this]] base announced_bases_Cons[of ks k] show ?thesis by blast
  qed
qed simp

text \<open>C13: When the launcher reports that the game has been stopped, its main thread is suspended and stands
  at the entry point that the headers of its image give, the breakpoint is gone again, and every byte
  that the process itself leaves alone is what it was when the process was created.\<close>

theorem game_is_stopped_unchanged:
  assumes "pause_after_loader_initialization a main now s t ks = (Some (Inr s'), t')"
  shows "0 < tg_suspended t'
    \<and> entry_of_image a (insert (ds_image_base s) (announced_bases ks)) t ks (tg_ip t')
    \<and> (\<exists>original. tg_mem t' (tg_ip t') = Some original)
    \<and> (\<forall>x. leaves ks x \<longrightarrow> tg_mem t' x = tg_mem t x)"
proof -
  have r: "pause_loop a main (now + kStartupTimeoutMs) None s t ks = (Some (Inr s'), t')"
    using assms by (simp add: pause_after_loader_initialization_def)
  from pause_loop_stops[OF r] pause_loop_entry[OF r] show ?thesis
    by (auto simp: stopped_at_entry_def plain_mem_def)
qed

text \<open>A small image, mapped at address 65536, and a run to its entry.\<close>

definition mapped_at :: "nat \<Rightarrow> byte list \<Rightarrow> memory" where
  "mapped_at base img = (\<lambda>x. if base \<le> x \<and> x < base + length img then Some (img ! (x - base)) else None)"

lemma read_remote_mapped:
  "off + n \<le> length img \<Longrightarrow> read_remote (mapped_at base img) (base + off) n = Some (take n (drop off img))"
  by (auto simp: read_remote_def mapped_at_def list_all_iff intro!: nth_equalityI)

definition sample_image :: "byte list" where
  "sample_image = [0x4D, 0x5A] @ replicate 58 0 @ [0x40, 0, 0, 0]
     @ [0x50, 0x45, 0, 0] @ replicate 20 0 @ [0x0B, 0x02] @ replicate 14 0 @ [0x4F, 1, 0, 0]
     @ replicate 36 0 @ [0x50, 1, 0, 0] @ replicate 188 0x90"

definition sample_target :: target where
  "sample_target = \<lparr>tg_mem = mapped_at 65536 sample_image, tg_ip = 0, tg_suspended = 0\<rparr>"

definition sample_tick :: "debug_event \<Rightarrow> pause_tick" where
  "sample_tick event = \<lparr>pt_now = 1, pt_event = Some event,
     pt_write = \<lparr>we_protect = True, we_write = True, we_flush = True, we_restore = True\<rparr>,
     pt_get_context = True, pt_set_context = True, pt_suspend = True, pt_continue = True, pt_run = (\<lambda>t. t)\<rparr>"

definition sample_ticks :: "pause_tick list" where
  "sample_ticks = map sample_tick
     [\<lparr>de_kind = CreateProcess 65536 (wide ''game.exe''), de_thread = 4\<rparr>,
      \<lparr>de_kind = ExceptionAt EXCEPTION_BREAKPOINT 9, de_thread = 4\<rparr>,
      \<lparr>de_kind = ExceptionAt EXCEPTION_BREAKPOINT 65871, de_thread = 4\<rparr>]"

lemma sample_entry: "read_remote_entry_point X64 (tg_mem sample_target) 65536 = Inr 65871"
proof -
  have l: "length sample_image = 336" by (simp add: sample_image_def)
  define dos nt where "dos = take 64 sample_image" and "nt = take 264 (drop 64 sample_image)"
  have d: "read_remote (mapped_at 65536 sample_image) 65536 64 = Some dos"
    using read_remote_mapped[of 0 64 sample_image 65536] l by (simp add: dos_def)
  have n: "read_remote (mapped_at 65536 sample_image) 65600 264 = Some nt"
    using read_remote_mapped[of 64 264 sample_image 65536] l by (simp add: nt_def)
  have v: "le_value (take 4 (drop 60 dos)) = 64" "le_value (take 2 dos) = 23117"
    by (simp_all add: dos_def sample_image_def min_def)
  have w: "le_value (take 4 nt) = 17744" "le_value (take 2 (drop 24 nt)) = 523"
    "le_value (take 4 (drop 40 nt)) = 335" "le_value (take 4 (drop 80 nt)) = 336"
    by (simp_all add: nt_def sample_image_def min_def)
  show ?thesis
    by (simp add: read_remote_entry_point_def sample_target_def sizeof_IMAGE_DOS_HEADER_def
        sizeof_IMAGE_NT_HEADERS_def optional_magic_def IMAGE_DOS_SIGNATURE_def IMAGE_NT_SIGNATURE_def
        d n v w uintptr_max_def pointer_size_def require_def or_fail_def Let_def)
qed

lemma sample_byte: "tg_mem sample_target 65871 = Some 0x90"
proof -
  have "sample_image ! 335 = 0x90" by (simp add: sample_image_def nth_append)
  then show ?thesis by (simp add: sample_target_def mapped_at_def sample_image_def)
qed

theorem game_is_stopped_unchanged_witness:
  "\<exists>s' t'. pause_after_loader_initialization X64 4 0 new_session sample_target sample_ticks = (Some (Inr s'), t')
     \<and> 0 < tg_suspended t' \<and> tg_mem t' 65871 = Some 0x90"
proof -
  have r: "\<exists>s' t'. pause_after_loader_initialization X64 4 0 new_session sample_target sample_ticks = (Some (Inr s'), t')
      \<and> tg_mem t' 65871 = Some 0x90"
    using sample_entry sample_byte
    by (simp add: pause_after_loader_initialization_def kStartupTimeoutMs_def sample_ticks_def sample_tick_def
        observe_debug_event_def record_debug_module_def new_session_def wide_def Let_def
        arm_entry_breakpoint_def write_remote_code_byte_def stop_at_entry_def rewind_thread_to_entry_def require_def)
  then show ?thesis using game_is_stopped_unchanged by blast
qed

end
