(* ===== verification/Launch.thy ===== *)
theory Launch imports Command_Line Pe_Arch Debug_Session begin

text \<open>
  The launch of a game: \<open>launch_offline_game\<close> of \<open>src/launcher/injector.cpp\<close>.  The answers of Windows
  are the fields of an environment; the steps are those of the function, in its order, from the
  checks of the files to the release of the running game.
\<close>

section \<open>The environment\<close>

text \<open>An opened file: whether it is a directory, when that can be told, and what the two calls of
  \<open>GetFinalPathNameByHandleW\<close> give, the length asked for and the name.\<close>

record file_answer =
  fa_directory :: "bool option"
  fa_required :: nat
  fa_final :: wstring

text \<open>A call of \<open>CreateRemoteThread\<close> with its start address and parameter, and the rounds that follow.\<close>

record remote_call =
  rc_create :: "nat \<Rightarrow> nat \<Rightarrow> u32 option"
  rc_now :: nat
  rc_ticks :: "thread_tick list"

record launch_env =
  le_arch :: arch
  le_elevation :: "bool option"
  le_files :: "wstring \<Rightarrow> file_answer option"
  le_windows :: "wstring option"
  le_own_path :: wstring
  le_content :: "wstring \<Rightarrow> byte list option"
  le_create :: "wstring \<Rightarrow> wstring \<Rightarrow> wstring \<Rightarrow> (u32 \<times> u32 \<times> target) option"
  le_now :: nat
  le_pause :: "pause_tick list"
  le_alloc :: "nat \<Rightarrow> nat option"
  le_write_path :: bool
  le_load_library :: "nat option"
  le_owner :: "nat \<Rightarrow> nat option"
  le_owner_path :: "nat \<Rightarrow> wstring option"
  le_load_call :: remote_call
  le_local_hook :: "wstring \<Rightarrow> (nat \<times> (string \<Rightarrow> nat option)) option"
  le_init_call :: remote_call
  le_detach :: bool
  le_resume :: bool

definition kHookFileName :: wstring where "kHookFileName = wide ''FFBInterceptor.Hook.dll''"

text \<open>\<open>MAX_PATH\<close>.\<close>

definition kMaxPath :: nat where "kMaxPath = 260"

section \<open>Before the process exists\<close>

definition resolve_existing_file :: "(wstring \<Rightarrow> file_answer option) \<Rightarrow> wstring \<Rightarrow> launch_error + wstring" where
  "resolve_existing_file files input =
     and_then (or_fail (files (c_str input)) FileNotFound) (\<lambda>f.
     and_then (require (fa_directory f = Some False) NotRegularFile) (\<lambda>_.
     and_then (require (fa_required f \<noteq> 0) FinalPathUnknown) (\<lambda>_.
     and_then (require (fa_final f \<noteq> [] \<and> length (fa_final f) < fa_required f + 1) FinalPathUnknown) (\<lambda>_.
     let resolved = strip_extended_prefix (fa_final f) in
     and_then (require (length resolved < kMaxPath) PathTooLong) (\<lambda>_.
     Inr resolved)))))"

text \<open>The buffer for the name of a module is doubled until the name fits.\<close>

function executable_path_in :: "wstring \<Rightarrow> nat \<Rightarrow> wstring" where
  "executable_path_in own size_b =
     (let written = min size_b (length own) in
      if written = 0 then []
      else if written < size_b - 1 then take written own
      else executable_path_in own (size_b * 2))"
  by auto
termination by (relation "measure (\<lambda>(own, n). length own + 2 - n)") auto

declare executable_path_in.simps [simp del]

definition executable_path :: "wstring \<Rightarrow> wstring" where
  "executable_path own = executable_path_in own kMaxPath"

definition find_hook_initializer :: "arch \<Rightarrow> (string \<Rightarrow> nat option) \<Rightarrow> nat option" where
  "find_hook_initializer a exports =
     (case exports ''FFBHookInitialize'' of
        Some f \<Rightarrow> Some f
      | None \<Rightarrow> if a = X86 then exports ''_FFBHookInitialize@4'' else None)"

text \<open>Every check, up to the command line: the game, the hook library and the command.\<close>

definition prepare_launch :: "launch_env \<Rightarrow> LaunchRequest \<Rightarrow> launch_error + wstring \<times> wstring \<times> wstring" where
  "prepare_launch e request =
     and_then (or_fail (le_elevation e) ElevationUnknown) (\<lambda>elevated.
     and_then (require (\<not> elevated) Elevated) (\<lambda>_.
     and_then (resolve_existing_file (le_files e) (lr_game_path request)) (\<lambda>game_path.
     and_then (require (\<not> is_unc_path game_path) GameOnNetwork) (\<lambda>_.
     and_then (require (has_exe_extension game_path) NotExe) (\<lambda>_.
     and_then (or_fail (le_windows e) WindowsDirectoryUnknown) (\<lambda>windows_directory.
     and_then (require (\<not> path_is_within game_path windows_directory) InWindowsDirectory) (\<lambda>_.
     let own_path = executable_path (le_own_path e) in
     and_then (require (own_path \<noteq> []) OwnPathUnknown) (\<lambda>_.
     let hook_candidate = parent_directory own_path @ [0x5C] @ kHookFileName in
     and_then (case resolve_existing_file (le_files e) hook_candidate of
                 Inl _ \<Rightarrow> Inl HookMissing | Inr hook_path \<Rightarrow> Inr hook_path) (\<lambda>hook_path.
     and_then (require (\<not> is_unc_path hook_path) HookOnNetwork) (\<lambda>_.
     let game_architecture = fst (read_pe_architecture (le_content e game_path));
         hook_architecture = fst (read_pe_architecture (le_content e hook_path));
         launcher_architecture = current_architecture (le_arch e) in
     and_then (require (game_architecture \<noteq> pe_unknown \<and> hook_architecture \<noteq> pe_unknown) BadExecutable) (\<lambda>_.
     and_then (require (game_architecture = launcher_architecture
       \<and> hook_architecture = launcher_architecture) ArchitectureMismatch) (\<lambda>_.
     Inr (game_path, hook_path, build_command_line (request\<lparr>lr_game_path := game_path\<rparr>))))))))))))))"

section \<open>With the process\<close>

text \<open>\<open>None\<close> stands for a loop that needs more rounds.\<close>

definition await :: "('e + 'a) option \<Rightarrow> ('a \<Rightarrow> ('e + 'b) option) \<Rightarrow> ('e + 'b) option" where
  "await r f = (case r of None \<Rightarrow> None | Some (Inl e) \<Rightarrow> Some (Inl e) | Some (Inr x) \<Rightarrow> f x)"

definition call_remote :: "remote_call \<Rightarrow> nat \<Rightarrow> nat \<Rightarrow> debug_session \<Rightarrow> (launch_error + u32 \<times> debug_session) option" where
  "call_remote c start_address parameter s =
     run_remote_thread (rc_create c start_address parameter) (rc_now c) s (rc_ticks c)"

text \<open>The hook library is brought into the stopped process.\<close>

definition load_hook :: "launch_env \<Rightarrow> wstring \<Rightarrow> debug_session \<Rightarrow> (launch_error + debug_session) option" where
  "load_hook e hook_path s =
     await (Some (or_fail (le_alloc e ((length hook_path + 1) * 2)) AllocationFailed)) (\<lambda>remote_path.
     await (Some (require (le_write_path e) PathNotWritten)) (\<lambda>_.
     await (Some (or_fail (le_load_library e) LoadLibraryUnknown)) (\<lambda>load_library.
     await (Some (remote_function_address (le_arch e) s load_library (le_owner e load_library)
              (le_owner_path e load_library))) (\<lambda>remote_load_library.
     await (call_remote (le_load_call e) remote_load_library remote_path s) (\<lambda>(_, s).
     Some (Inr s))))))"

text \<open>The library is found again by its path, and its initializer is run.\<close>

definition initialize_hook :: "launch_env \<Rightarrow> wstring \<Rightarrow> debug_session \<Rightarrow> (launch_error + unit) option" where
  "initialize_hook e hook_path s =
     await (Some (find_debug_module s kHookFileName (Some hook_path))) (\<lambda>remote_hook_base.
     await (Some (or_fail (le_local_hook e hook_path) HookUnverifiable)) (\<lambda>(local_base, exports).
     await (Some (and_then (or_fail (find_hook_initializer (le_arch e) exports) InitializerMissing)
              (\<lambda>f. and_then (require (local_base \<le> f) InitializerMissing) (\<lambda>_. Inr f)))) (\<lambda>local_initializer.
     let initializer_rva = local_initializer - local_base in
     await (call_remote (le_init_call e) (size_t (le_arch e) (remote_hook_base + initializer_rva)) 0 s) (\<lambda>(result, _).
     Some (require (result = 1) (InitializationFailed result))))))"

definition release_game :: "launch_env \<Rightarrow> launch_error + unit" where
  "release_game e =
     and_then (require (le_detach e) DetachFailed) (\<lambda>_. require (le_resume e) ResumeFailed)"

text \<open>What becomes of the process: the destructor of \<open>SuspendedChild\<close> terminates one that was not
  released.\<close>

datatype child_fate = NotCreated | Debugged | Terminated | Running

definition fate_of_child :: "(launch_error + 'a) option \<Rightarrow> child_fate" where
  "fate_of_child r = (case r of None \<Rightarrow> Debugged | Some (Inl _) \<Rightarrow> Terminated | Some (Inr _) \<Rightarrow> Running)"

definition launch_offline_game :: "launch_env \<Rightarrow> LaunchRequest \<Rightarrow> (launch_error + u32) option \<times> child_fate" where
  "launch_offline_game e request =
     (case prepare_launch e request of
        Inl err \<Rightarrow> (Some (Inl err), NotCreated)
      | Inr (game_path, hook_path, command_line) \<Rightarrow>
          (case le_create e game_path command_line (parent_directory game_path) of
             None \<Rightarrow> (Some (Inl ProcessNotCreated), NotCreated)
           | Some (process_id, thread_id, t) \<Rightarrow>
               let r =
                 await (fst (pause_after_loader_initialization (le_arch e) thread_id (le_now e) new_session t (le_pause e))) (\<lambda>s.
                 await (load_hook e hook_path s) (\<lambda>s.
                 await (initialize_hook e hook_path s) (\<lambda>_.
                 await (Some (release_game e)) (\<lambda>_.
                 Some (Inr process_id)))))
               in (r, fate_of_child r)))"

section \<open>Lemmas\<close>

lemma executable_path_in_full: "0 < n \<Longrightarrow> executable_path_in own n = own"
proof (induction own n rule: executable_path_in.induct)
  case (1 own n)
  then show ?case by (subst executable_path_in.simps) (auto simp: Let_def min_def split: if_splits)
qed

lemma executable_path_full [simp]: "executable_path own = own"
  by (simp add: executable_path_def executable_path_in_full kMaxPath_def)

lemma await_simps [simp]:
  "await None f = None" "await (Some (Inl err)) f = Some (Inl err)" "await (Some (Inr x)) f = f x"
  by (simp_all add: await_def)

lemma await_Inr [result]: "await r f = Some (Inr y) \<longleftrightarrow> (\<exists>x. r = Some (Inr x) \<and> f x = Some (Inr y))"
  by (auto simp: await_def split: option.splits sum.splits)

lemma await_None: "await r f = None \<longleftrightarrow> r = None \<or> (\<exists>x. r = Some (Inr x) \<and> f x = None)"
  by (auto simp: await_def split: option.splits sum.splits)

text \<open>What it means that a launch was prepared.\<close>

definition checked_target :: "launch_env \<Rightarrow> LaunchRequest \<Rightarrow> wstring \<Rightarrow> wstring \<Rightarrow> bool" where
  "checked_target e request game hook \<longleftrightarrow>
     le_elevation e = Some False
     \<and> resolve_existing_file (le_files e) (lr_game_path request) = Inr game
     \<and> \<not> is_unc_path game \<and> has_exe_extension game
     \<and> (\<exists>w. le_windows e = Some w \<and> \<not> path_is_within game w)
     \<and> resolve_existing_file (le_files e) (parent_directory (le_own_path e) @ [0x5C] @ kHookFileName) = Inr hook
     \<and> \<not> is_unc_path hook
     \<and> fst (read_pe_architecture (le_content e game)) = current_architecture (le_arch e)
     \<and> fst (read_pe_architecture (le_content e hook)) = current_architecture (le_arch e)"

lemma prepare_launch_Inr:
  "prepare_launch e request = Inr (game, hook, command) \<Longrightarrow>
     checked_target e request game hook \<and> command = build_command_line (request\<lparr>lr_game_path := game\<rparr>)"
  by (auto simp: prepare_launch_def checked_target_def result Let_def split: sum.splits)

text \<open>The process runs a checked hook: a module loaded from the path of the hook was found in it, and
  the thread started at the initializer of that module answered 1.\<close>

definition hooked :: "launch_env \<Rightarrow> wstring \<Rightarrow> bool" where
  "hooked e hook \<longleftrightarrow>
     (\<exists>s m local_base exports f s'. m \<in> set (ds_modules s) \<and> wcsicmp_eq (dm_path m) hook
        \<and> le_local_hook e hook = Some (local_base, exports)
        \<and> find_hook_initializer (le_arch e) exports = Some f \<and> local_base \<le> f
        \<and> call_remote (le_init_call e) (size_t (le_arch e) (dm_base m + (f - local_base))) 0 s = Some (Inr (1, s')))"

lemma initialize_hook_Inr: "initialize_hook e hook s = Some (Inr u) \<Longrightarrow> hooked e hook"
  unfolding initialize_hook_def hooked_def find_debug_module_def
  by (auto simp: result Let_def dest!: find_module_some) blast

lemma launch_Inr:
  assumes "launch_offline_game e r = (Some (Inr pid), fate)"
  obtains game hook thread t s t' where "checked_target e r game hook"
    and "le_create e game (build_command_line (r\<lparr>lr_game_path := game\<rparr>)) (parent_directory game) = Some (pid, thread, t)"
    and "pause_after_loader_initialization (le_arch e) thread (le_now e) new_session t (le_pause e) = (Some (Inr s), t')"
    and "hooked e hook" and "le_resume e"
proof -
  from assms obtain game hook command where p: "prepare_launch e r = Inr (game, hook, command)"
    by (auto simp: launch_offline_game_def split: sum.splits)
  note c = prepare_launch_Inr[OF p]
  from assms p obtain thread t s s2 where
    cr: "le_create e game command (parent_directory game) = Some (pid, thread, t)"
    and pa: "fst (pause_after_loader_initialization (le_arch e) thread (le_now e) new_session t (le_pause e)) = Some (Inr s)"
    and ih: "initialize_hook e hook s2 = Some (Inr ())" and re: "release_game e = Inr ()"
    by (auto simp: launch_offline_game_def result Let_def split: option.splits)
  from pa obtain t' where
    "pause_after_loader_initialization (le_arch e) thread (le_now e) new_session t (le_pause e) = (Some (Inr s), t')"
    by (metis fst_conv surj_pair)
  with that[OF conjunct1[OF c]] cr c initialize_hook_Inr[OF ih] re show thesis
    by (simp add: release_game_def result)
qed

lemma running_iff:
  "snd (launch_offline_game e r) = Running \<longleftrightarrow> (\<exists>pid. fst (launch_offline_game e r) = Some (Inr pid))"
  by (auto simp: launch_offline_game_def fate_of_child_def Let_def split: sum.splits option.splits)

lemma failed_launch_leaves_nothing:
  "fst (launch_offline_game e r) = Some (Inl err) \<Longrightarrow> snd (launch_offline_game e r) \<in> {NotCreated, Terminated}"
  by (auto simp: launch_offline_game_def fate_of_child_def Let_def split: sum.splits option.splits)

section \<open>A launch\<close>

definition sample_file :: "byte list" where
  "sample_file = [0x4D, 0x5A] @ replicate 58 0 @ [0x40, 0, 0, 0] @ [0x50, 0x45, 0, 0] @ [0x64, 0x86] @ replicate 18 0"

lemma sample_file_arch: "read_pe_architecture (Some sample_file) = (pe_x64, None)"
proof -
  have l: "length sample_file = 88" by (simp add: sample_file_def)
  have d: "read_exact_at sample_file 0 64 = Some (take 64 sample_file)"
    "read_exact_at sample_file 64 4 = Some [0x50, 0x45, 0, 0]"
    "read_exact_at sample_file 68 20 = Some ([0x64, 0x86] @ replicate 18 0)"
    by (simp_all add: read_exact_at_def sample_file_def)
  have e: "long_at (take 64 sample_file) 60 = 64" "le_value (take 2 (take 64 sample_file)) = 23117"
    by (simp_all add: long_at_def sample_file_def)
  show ?thesis
    unfolding read_pe_architecture_def read_file_header_def sizeof_IMAGE_DOS_HEADER_def
      sizeof_IMAGE_FILE_HEADER_def d option.case Let_def e l
    by (simp add: d IMAGE_DOS_SIGNATURE_def IMAGE_NT_SIGNATURE_def
        IMAGE_FILE_MACHINE_AMD64_def IMAGE_FILE_MACHINE_I386_def)
qed

lemma wide_Nil [simp]: "wide s = [] \<longleftrightarrow> s = []"
  by (simp add: wide_def)

definition hook_file :: wstring where
  "hook_file = wide [CHR ''C'', CHR '':'', CHR 0x5C] @ kHookFileName"

definition game_file :: wstring where
  "game_file = wide [CHR ''C'', CHR '':'', CHR 0x5C] @ wide ''game.exe''"

definition sample_env :: launch_env where
  "sample_env = \<lparr>
     le_arch = X64, le_elevation = Some False,
     le_files = (\<lambda>p. Some \<lparr>fa_directory = Some False, fa_required = 100, fa_final = p\<rparr>),
     le_windows = Some (wide [CHR ''C'', CHR '':'', CHR 0x5C] @ wide ''Windows''),
     le_own_path = wide [CHR ''C'', CHR '':'', CHR 0x5C] @ wide ''l.exe'',
     le_content = (\<lambda>_. Some sample_file),
     le_create = (\<lambda>_ _ _. Some (7, 4, sample_target)),
     le_now = 0,
     le_pause = sample_tick \<lparr>de_kind = CreateProcess 65536 (wide ''game.exe''), de_thread = 4\<rparr>
       # sample_tick \<lparr>de_kind = LoadDll 9000 (wide ''kernel32.dll''), de_thread = 4\<rparr> # tl sample_ticks,
     le_alloc = (\<lambda>_. Some 8192), le_write_path = True,
     le_load_library = Some 5100, le_owner = (\<lambda>_. Some 5000), le_owner_path = (\<lambda>_. Some (wide ''KERNEL32.DLL'')),
     le_load_call = \<lparr>rc_create = (\<lambda>_ _. Some 9), rc_now = 2, rc_ticks =
       [\<lparr>tt_wait = NotYet, tt_now = 3, tt_event = Some \<lparr>de_kind = LoadDll 7000 hook_file, de_thread = 9\<rparr>, tt_continue = True\<rparr>,
        \<lparr>tt_wait = NotYet, tt_now = 4, tt_event = Some \<lparr>de_kind = ExitThread 7000, de_thread = 9\<rparr>, tt_continue = True\<rparr>]\<rparr>,
     le_local_hook = (\<lambda>_. Some (300, \<lambda>name. if name = ''FFBHookInitialize'' then Some 333 else None)),
     le_init_call = \<lparr>rc_create = (\<lambda>_ _. Some 10), rc_now = 5,
       rc_ticks = [\<lparr>tt_wait = Ended (Some 1), tt_now = 6, tt_event = None, tt_continue = True\<rparr>]\<rparr>,
     le_detach = True, le_resume = True\<rparr>"

lemma sample_resolve:
  "resolve_existing_file (le_files sample_env) hook_file = Inr hook_file"
  "resolve_existing_file (le_files sample_env) game_file = Inr game_file"
  by (simp_all add: resolve_existing_file_def sample_env_def or_fail_def require_def hook_file_def game_file_def
      kHookFileName_def wide_def c_str_def strip_extended_prefix_def starts_with_def kMaxPath_def Let_def)

lemma sample_paths:
  "parent_directory (le_own_path sample_env) @ [0x5C] @ kHookFileName = hook_file"
  "\<not> is_unc_path game_file" "\<not> is_unc_path hook_file" "has_exe_extension game_file"
  "\<not> path_is_within game_file (wide [CHR ''C'', CHR '':'', CHR 0x5C] @ wide ''Windows'')"
  "file_path game_file"
  by (simp_all add: sample_env_def hook_file_def game_file_def parent_directory_def separator_def wide_def
      is_unc_path_def has_exe_extension_def dot_def wcsicmp_eq_def lower_copy_def c_str_def wlower_def
      path_is_within_def without_trailing_separators_def wcsnicmp_eq_def file_path_def dquote_def backslash_def)

definition sample_request :: LaunchRequest where
  "sample_request = \<lparr>lr_game_path = game_file, lr_game_arguments = [wide ''-w'']\<rparr>"

lemma sample_prepare:
  "prepare_launch sample_env sample_request
     = Inr (game_file, hook_file, build_command_line sample_request)"
proof -
  have "le_elevation sample_env = Some False" "le_content sample_env = (\<lambda>_. Some sample_file)"
    "le_windows sample_env = Some (wide [CHR ''C'', CHR '':'', CHR 0x5C] @ wide ''Windows'')"
    "le_arch sample_env = X64" "le_own_path sample_env \<noteq> []"
    by (simp_all add: sample_env_def)
  then show ?thesis
    unfolding prepare_launch_def Let_def executable_path_full sample_paths(1)
    by (simp add: or_fail_def require_def sample_resolve sample_paths sample_file_arch current_architecture_def
        sample_request_def)
qed

definition sample_session :: debug_session where
  "sample_session = \<lparr>ds_modules = [\<lparr>dm_name = wide ''game.exe'', dm_path = wide ''game.exe'', dm_base = 65536\<rparr>,
     \<lparr>dm_name = wide ''kernel32.dll'', dm_path = wide ''kernel32.dll'', dm_base = 9000\<rparr>], ds_image_base = 65536\<rparr>"

lemma plain_file_names:
  "file_name (wide ''game.exe'') = wide ''game.exe''" "file_name (wide ''kernel32.dll'') = wide ''kernel32.dll''"
  "file_name (wide ''KERNEL32.DLL'') = wide ''KERNEL32.DLL''" "file_name hook_file = kHookFileName"
  by (simp_all add: file_name_def separator_def wide_def hook_file_def kHookFileName_def)

lemma sample_pause:
  "fst (pause_after_loader_initialization X64 4 0 new_session sample_target (le_pause sample_env)) = Some (Inr sample_session)"
  using sample_entry sample_byte
  by (simp add: pause_after_loader_initialization_def kStartupTimeoutMs_def sample_ticks_def sample_tick_def
      observe_debug_event_def record_debug_module_def new_session_def Let_def sample_env_def sample_session_def
      plain_file_names
      arm_entry_breakpoint_def write_remote_code_byte_def stop_at_entry_def rewind_thread_to_entry_def require_def)

definition sample_hook_module :: debug_module where
  "sample_hook_module = \<lparr>dm_name = kHookFileName, dm_path = hook_file, dm_base = 7000\<rparr>"

lemma same_names:
  "wcsicmp_eq (wide ''kernel32.dll'') (wide ''KERNEL32.DLL'')" "\<not> wcsicmp_eq (wide ''game.exe'') (wide ''KERNEL32.DLL'')"
  "\<not> wcsicmp_eq (wide ''game.exe'') kHookFileName" "\<not> wcsicmp_eq (wide ''kernel32.dll'') kHookFileName"
  by (simp_all add: wcsicmp_eq_def lower_copy_def c_str_def wlower_def wide_def kHookFileName_def)

lemma sample_load:
  "load_hook sample_env hook_file sample_session
     = Some (Inr (sample_session\<lparr>ds_modules := ds_modules sample_session @ [sample_hook_module]\<rparr>))"
proof -
  have "hook_file \<noteq> []" by (simp add: hook_file_def)
  then show ?thesis
    by (simp add: load_hook_def sample_env_def or_fail_def require_def remote_function_address_def plain_file_names
        find_debug_module_def sample_session_def same_names call_remote_def run_remote_thread_def
        kRemoteCallTimeoutMs_def observe_debug_event_def record_debug_module_def sample_hook_module_def)
qed

lemma sample_initialize:
  "initialize_hook sample_env hook_file (sample_session\<lparr>ds_modules := ds_modules sample_session @ [sample_hook_module]\<rparr>)
     = Some (Inr ())"
  by (simp add: initialize_hook_def sample_env_def or_fail_def require_def find_hook_initializer_def
      find_debug_module_def sample_session_def same_names sample_hook_module_def call_remote_def run_remote_thread_def)

lemma sample_launch: "launch_offline_game sample_env sample_request = (Some (Inr 7), Running)"
proof -
  have "le_create sample_env = (\<lambda>_ _ _. Some (7, 4, sample_target))" "le_arch sample_env = X64"
    "le_now sample_env = 0" "release_game sample_env = Inr ()"
    by (simp_all add: sample_env_def release_game_def require_def)
  with sample_pause sample_load sample_initialize show ?thesis
    by (simp add: launch_offline_game_def sample_prepare Let_def fate_of_child_def)
qed

section \<open>The properties\<close>



text \<open>C14: A launch ends: if each of its three loops gets to see the clock at its deadline, there is a
  result, and the game is running, was terminated, or was never created.\<close>

theorem launch_ends:
  assumes "\<exists>k \<in> set (le_pause e). le_now e + kStartupTimeoutMs \<le> pt_now k"
    and "\<exists>k \<in> set (rc_ticks (le_load_call e)). rc_now (le_load_call e) + kRemoteCallTimeoutMs \<le> tt_now k"
    and "\<exists>k \<in> set (rc_ticks (le_init_call e)). rc_now (le_init_call e) + kRemoteCallTimeoutMs \<le> tt_now k"
  shows "(\<exists>pid. launch_offline_game e r = (Some (Inr pid), Running))
    \<or> (\<exists>err. fst (launch_offline_game e r) = Some (Inl err) \<and> snd (launch_offline_game e r) \<in> {NotCreated, Terminated})"
proof -
  have p: "(fst (pause_after_loader_initialization (le_arch e) i (le_now e) s t (le_pause e)) = None) = False" for i s t
    using pause_loop_ends[OF assms(1)] by (simp add: pause_after_loader_initialization_def)
  have l: "call_remote (le_load_call e) a q s \<noteq> None" for a q s
    using thread_loop_ends[OF assms(2)] by (simp add: call_remote_def run_remote_thread_def split: option.split)
  have i: "call_remote (le_init_call e) a q s \<noteq> None" for a q s
    using thread_loop_ends[OF assms(3)] by (simp add: call_remote_def run_remote_thread_def split: option.split)
  have h: "(load_hook e h s = None) = False" "(initialize_hook e h s = None) = False" for h s
    using l i by (auto simp: load_hook_def initialize_hook_def await_None Let_def split: prod.splits)
  have "(await (fst (pause_after_loader_initialization (le_arch e) i (le_now e) new_session t (le_pause e)))
      (\<lambda>s. await (load_hook e q s) (\<lambda>s. await (initialize_hook e q s)
        (\<lambda>_. await (Some (release_game e)) (\<lambda>_. Some (Inr pid))))) = None) = False" for i t q pid
    by (simp add: await_None p h)
  then have "fst (launch_offline_game e r) \<noteq> None"
    by (auto simp: launch_offline_game_def Let_def split: sum.splits option.splits)
  then obtain res where "fst (launch_offline_game e r) = Some res" by blast
  then show ?thesis using running_iff[of e r] failed_launch_leaves_nothing[of e r]
    by (cases res) (auto simp: prod_eq_iff)
qed

text \<open>The same game, whose process never reaches its entry.\<close>

definition silent_env :: launch_env where
  "silent_env = sample_env\<lparr>le_pause := [(sample_tick \<lparr>de_kind = OtherEvent, de_thread = 4\<rparr>)\<lparr>pt_now := 15000\<rparr>],
     le_load_call := \<lparr>rc_create = (\<lambda>_ _. Some 9), rc_now = 0, rc_ticks =
       [\<lparr>tt_wait = NotYet, tt_now = 15000, tt_event = None, tt_continue = True\<rparr>]\<rparr>,
     le_init_call := \<lparr>rc_create = (\<lambda>_ _. Some 9), rc_now = 0, rc_ticks =
       [\<lparr>tt_wait = NotYet, tt_now = 15000, tt_event = None, tt_continue = True\<rparr>]\<rparr>\<rparr>"

theorem launch_ends_witness:
  "\<exists>res. fst (launch_offline_game silent_env sample_request) = Some res"
proof -
  have "\<exists>k \<in> set (le_pause silent_env). le_now silent_env + kStartupTimeoutMs \<le> pt_now k"
    "\<exists>k \<in> set (rc_ticks (le_load_call silent_env)). rc_now (le_load_call silent_env) + kRemoteCallTimeoutMs \<le> tt_now k"
    "\<exists>k \<in> set (rc_ticks (le_init_call silent_env)). rc_now (le_init_call silent_env) + kRemoteCallTimeoutMs \<le> tt_now k"
    by (simp_all add: silent_env_def sample_env_def kStartupTimeoutMs_def kRemoteCallTimeoutMs_def)
  from launch_ends[OF this, of sample_request] show ?thesis by fastforce
qed

end
