(* ===== verification/Diagnostics.thy ===== *)
theory Diagnostics imports Win_Text "HOL-Library.Sublist" begin

text \<open>
  What the user may post: \<open>redact_user_path\<close> of \<open>src/launcher/manager_model.cpp\<close>, which replaces the
  home folder in the diagnostics by \<open>%USERPROFILE%\<close> before they are copied.
\<close>

section \<open>The code\<close>

text \<open>\<open>std::wstring::find\<close>: where a text occurs first.\<close>

fun find_text :: "wstring \<Rightarrow> wstring \<Rightarrow> nat option" where
  "find_text needle [] = (if needle = [] then Some 0 else None)"
| "find_text needle (c # cs) =
     (if take (length needle) (c # cs) = needle then Some 0 else map_option Suc (find_text needle cs))"

definition user_profile_text :: wstring where "user_profile_text = wide ''%USERPROFILE%''"

lemma find_text_Some:
  "find_text needle s = Some i \<Longrightarrow> i + length needle \<le> length s \<and> take (length needle) (drop i s) = needle"
proof (induction s arbitrary: i)
  case (Cons c cs)
  show ?case
  proof (cases "take (length needle) (c # cs) = needle")
    case True
    with Cons.prems have "i = 0" by simp
    have "length needle = length (take (length needle) (c # cs))" using True by simp
    then have "length needle \<le> length (c # cs)" by simp
    with True \<open>i = 0\<close> show ?thesis by simp
  qed (use Cons in auto)
qed (auto split: if_splits)

text \<open>\<open>home\<close> is not empty; each round moves past what it has written.\<close>

function redact_loop :: "wstring \<Rightarrow> nat \<Rightarrow> wstring \<Rightarrow> wstring" where
  "redact_loop home offset result =
     (if home = [] \<or> length result \<le> offset then result
      else case find_text (lower_copy home) (lower_copy (drop offset result)) of
        None \<Rightarrow> result
      | Some found \<Rightarrow>
          let absolute = offset + found in
          redact_loop home (absolute + 13)
            (take absolute result @ user_profile_text @ drop (absolute + length home) result))"
  by auto
termination
proof (relation "measure (\<lambda>(home, offset, result). length result - offset)", goal_cases)
  case (2 home offset result found absolute)
  from find_text_Some[OF 2(2)] have "found + length home \<le> length result - offset"
    by (simp add: lower_copy_def)
  with 2 show ?case by (simp add: user_profile_text_def wide_def) (cases home; simp)
qed simp

declare redact_loop.simps [simp del]

text \<open>\<open>required\<close> and \<open>buffer\<close> are the two answers of \<open>GetEnvironmentVariableW\<close>: the size that is needed
  and what was written, empty when the second call fails.\<close>

definition redact_user_path :: "nat \<Rightarrow> wstring \<Rightarrow> wstring \<Rightarrow> wstring" where
  "redact_user_path required buffer text =
     (if required = 0 \<or> 32768 < required then text
      else let home = c_str buffer in
        if home = [] then text else redact_loop home 0 text)"

section \<open>What it returns\<close>

text \<open>\<open>t\<close> is \<open>s\<close> with some occurrences of the home folder, in any case, replaced.\<close>

inductive replaced_home :: "wstring \<Rightarrow> wstring \<Rightarrow> wstring \<Rightarrow> bool" for home :: wstring where
  unchanged: "replaced_home home s s"
| replaced: "lower_copy h = lower_copy home \<Longrightarrow> replaced_home home s t \<Longrightarrow>
    replaced_home home (p @ h @ s) (p @ user_profile_text @ t)"

definition mentions :: "wstring \<Rightarrow> wstring \<Rightarrow> bool" where
  "mentions home s \<longleftrightarrow> sublist (lower_copy home) (lower_copy s)"

lemma lower_copy_simps [simp]:
  "lower_copy [] = []" "lower_copy (a @ b) = lower_copy a @ lower_copy b" "length (lower_copy a) = length a"
  "lower_copy (take n a) = take n (lower_copy a)" "lower_copy (drop n a) = drop n (lower_copy a)"
  "lower_copy a = [] \<longleftrightarrow> a = []"
  by (simp_all add: lower_copy_def take_map drop_map)

lemma find_text_None: "find_text needle s = None \<Longrightarrow> \<not> sublist needle s"
proof (induction s)
  case (Cons c cs)
  then have "take (length needle) (c # cs) \<noteq> needle" "\<not> sublist needle cs" by (auto split: if_splits)
  moreover from this(1) have "\<not> prefix needle (c # cs)"
    by (metis append_eq_conv_conj prefix_def)
  ultimately show ?case by (simp add: sublist_Cons_right)
qed (auto split: if_splits)

lemma find_text_first: "find_text needle s = Some i \<Longrightarrow> needle \<noteq> [] \<Longrightarrow> \<not> sublist needle (take i s)"
proof (induction s arbitrary: i)
  case (Cons c cs)
  show ?case
  proof (cases "take (length needle) (c # cs) = needle")
    case False
    with Cons.prems obtain j where j: "i = Suc j" "find_text needle cs = Some j" by auto
    have "\<not> prefix needle (c # take j cs)"
    proof
      assume "prefix needle (c # take j cs)"
      then have "prefix needle (c # cs)"
        by (metis append_Cons append_take_drop_id prefix_append)
      with False show False by (metis append_eq_conv_conj prefix_def)
    qed
    with Cons.IH[OF j(2) Cons.prems(2)] j show ?thesis by (simp add: sublist_Cons_right)
  qed (use Cons.prems in simp)
qed (simp split: if_splits)

text \<open>A character that a text does not hold separates its occurrences.\<close>

lemma sublist_separated:
  assumes "c \<notin> set h" shows "sublist h (a @ c # b) \<longleftrightarrow> sublist h a \<or> sublist h b"
proof -
  have "sublist h b" if p: "\<exists>xs ys. h = xs @ ys \<and> suffix xs a \<and> prefix ys (c # b)" "\<not> sublist h a"
  proof -
    from p obtain xs ys where h: "h = xs @ ys" "suffix xs a" "prefix ys (c # b)" by blast
    with assms have "ys = []" by (cases ys) auto
    with h have "sublist h a" by (simp add: suffix_imp_sublist)
    with p show ?thesis by simp
  qed
  moreover have "sublist h (c # b) \<longleftrightarrow> h = [] \<or> sublist h b"
    using assms by (cases h) (auto simp: sublist_Cons_right)
  ultimately show ?thesis by (auto simp: sublist_append)
qed

definition home_path :: "wstring \<Rightarrow> bool" where
  "home_path home \<longleftrightarrow> 0x5C \<in> set home \<and> 0x25 \<notin> set home"

lemma wlower_eq: "c \<in> {0x5C, 0x25} \<Longrightarrow> wlower d = c \<longleftrightarrow> d = c"
proof -
  assume c: "c \<in> {0x5C, 0x25}"
  have "d = c" if "0x41 \<le> d" "d \<le> 0x5A" "d + 32 = c"
  proof -
    have "d = c - 32" using that(3) by (simp add: algebra_simps)
    with c that(1,2) show ?thesis by auto
  qed
  with c show ?thesis by (auto simp: wlower_def)
qed

lemma home_path_lower: "home_path home \<Longrightarrow> 0x5C \<in> set (lower_copy home) \<and> 0x25 \<notin> set (lower_copy home)"
  using wlower_eq[of "0x25"] by (force simp: home_path_def lower_copy_def wlower_def)

lemma mentions_redacted:
  assumes "home_path home"
  shows "mentions home (a @ user_profile_text @ b) \<longleftrightarrow> mentions home a \<or> mentions home b"
proof -
  note h = home_path_lower[OF assms]
  have t: "lower_copy user_profile_text = 0x25 # wide ''userprofile'' @ [0x25]"
    by (simp add: user_profile_text_def lower_copy_def wlower_def wide_def)
  have "\<not> sublist (lower_copy home) (wide ''userprofile'')"
  proof
    assume "sublist (lower_copy home) (wide ''userprofile'')"
    then have "set (lower_copy home) \<subseteq> set (wide ''userprofile'')" by (rule set_mono_sublist)
    with h show False by (auto simp: wide_def)
  qed
  with h show ?thesis by (simp add: mentions_def t sublist_separated)
qed

lemma redact_loop_tail:
  assumes "home_path home" and "offset \<le> length result"
  shows "\<exists>t. redact_loop home offset result = take offset result @ t \<and> \<not> mentions home t
    \<and> replaced_home home (drop offset result) t"
  using assms
proof (induction home offset result rule: redact_loop.induct)
  case (1 home offset result)
  have ne: "home \<noteq> []" using 1(2) by (auto simp: home_path_def)
  show ?case
  proof (cases "length result \<le> offset")
    case True
    with 1(3) have "redact_loop home offset result = take offset result @ []" "drop offset result = []"
      by (simp_all add: redact_loop.simps[of home])
    moreover have "\<not> mentions home []" using ne by (simp add: mentions_def)
    ultimately show ?thesis by (metis unchanged)
  next
    case False
    show ?thesis
    proof (cases "find_text (lower_copy home) (lower_copy (drop offset result))")
      case None
      then have "redact_loop home offset result = take offset result @ drop offset result"
        using False ne by (simp add: redact_loop.simps[of home])
      moreover have "\<not> mentions home (drop offset result)"
        unfolding mentions_def by (rule find_text_None[OF None])
      ultimately show ?thesis by (metis unchanged)
    next
      case (Some found)
      let ?abs = "offset + found"
      let ?next = "take ?abs result @ user_profile_text @ drop (?abs + length home) result"
      let ?rest = "drop offset result"
      have loop: "redact_loop home offset result = redact_loop home (?abs + 13) ?next"
        using Some False ne by (simp add: redact_loop.simps[of home] Let_def)
      from find_text_Some[OF Some] have f: "found + length home \<le> length result - offset"
        "take (length home) (drop found (lower_copy ?rest)) = lower_copy home" by simp_all
      have l: "length (take ?abs result @ user_profile_text) = ?abs + 13"
        using f(1) False by (simp add: user_profile_text_def wide_def)
      from 1(1)[OF _ Some refl 1(2)] ne False l obtain t where
        t: "redact_loop home (?abs + 13) ?next = take (?abs + 13) ?next @ t" "\<not> mentions home t"
          "replaced_home home (drop (?abs + 13) ?next) t" by auto
      have nx: "take (?abs + 13) ?next = take ?abs result @ user_profile_text"
        "drop (?abs + 13) ?next = drop (?abs + length home) result"
        using l by (simp_all add: append_assoc[symmetric] del: append_assoc)
      let ?t = "take found ?rest @ user_profile_text @ t"
      have whole: "redact_loop home offset result = take offset result @ ?t"
        using loop t(1) nx(1) by (simp add: take_add)
      have "\<not> mentions home (take found ?rest)"
        unfolding mentions_def using find_text_first[OF Some] ne by simp
      then have none: "\<not> mentions home ?t" using mentions_redacted[OF 1(2)] t(2) by blast
      have parts: "?rest = take found ?rest @ take (length home) (drop found ?rest) @ drop (?abs + length home) result"
        by (metis add.commute append_take_drop_id drop_drop)
      have "lower_copy (take (length home) (drop found ?rest)) = lower_copy home" using f(2) by simp
      from replaced[OF this t(3)[unfolded nx(2)], of "take found ?rest"] parts
      have "replaced_home home ?rest ?t" by simp
      with whole none show ?thesis by blast
    qed
  qed
qed



end
