(* ===== verification/Package_Manifest.thy ===== *)
theory Package_Manifest imports Win_Text begin

text \<open>
  The manifest of a package, \<open>SHA256SUMS.txt\<close>: \<open>normalize_manifest_path\<close> and \<open>parse_manifest_text\<close> of
  \<open>src/launcher/manager_model.cpp\<close>.  A manifest is untrusted text; the accepted ones are shown to list
  canonical relative paths that cannot leave the folder of the package, each once.
\<close>

section \<open>Relative paths\<close>

definition path_separator :: "byte \<Rightarrow> bool" where
  "path_separator c \<longleftrightarrow> c = 0x2F \<or> c = 0x5C"

definition toupper :: "byte \<Rightarrow> byte" where
  "toupper c = (if 0x61 \<le> c \<and> c \<le> 0x7A then c - 32 else c)"

definition device_name :: "byte list \<Rightarrow> byte list" where
  "device_name segment = map toupper (rev (dropWhile (\<lambda>c. c = 0x20) (rev (takeWhile (\<lambda>c. c \<noteq> 0x2E) segment))))"

definition reserved_device :: "byte list \<Rightarrow> bool" where
  "reserved_device name \<longleftrightarrow>
     name \<in> {ascii ''CON'', ascii ''PRN'', ascii ''AUX'', ascii ''NUL'', ascii ''CONIN$'', ascii ''CONOUT$''}
     \<or> length name = 4 \<and> (take 3 name = ascii ''COM'' \<or> take 3 name = ascii ''LPT'')
       \<and> 0x31 \<le> name ! 3 \<and> name ! 3 \<le> 0x39"

definition allowed_character :: "byte \<Rightarrow> bool" where
  "allowed_character c \<longleftrightarrow> \<not> (c < 0x20 \<or> 0x7F \<le> c \<or> c \<in> {0x3C, 0x3E, 0x22, 0x7C, 0x3F, 0x2A})"

definition flush_segment :: "wstring \<Rightarrow> byte list \<Rightarrow> wstring option" where
  "flush_segment out segment =
     (if segment = [] \<or> 255 < length segment \<or> segment = [0x2E] \<or> segment = [0x2E, 0x2E]
        \<or> last segment = 0x2E \<or> last segment = 0x20 then None
      else if reserved_device (device_name segment) then None
      else if \<not> list_all allowed_character segment then None
      else Some ((if out \<noteq> [] then out @ [0x5C] else out) @ map ucast segment))"

fun normalize_loop :: "wstring \<Rightarrow> byte list \<Rightarrow> byte list \<Rightarrow> wstring option" where
  "normalize_loop out segment [] = flush_segment out segment"
| "normalize_loop out segment (c # cs) =
     (if path_separator c then
        (case flush_segment out segment of None \<Rightarrow> None | Some out \<Rightarrow> normalize_loop out [] cs)
      else normalize_loop out (segment @ [c]) cs)"

definition normalize_manifest_path :: "byte list \<Rightarrow> wstring option" where
  "normalize_manifest_path path =
     (if path = [] \<or> 1024 < length path \<or> path_separator (hd path) \<or> 0x3A \<in> set path then None
      else normalize_loop [] [] path)"

section \<open>The text\<close>

record ManifestEntry =
  me_relative_path :: wstring
  me_sha256 :: wstring

datatype manifest_error = ManifestSize | BadLine | UnsafePath | DuplicateOrTooMany | NoFiles

definition kMaximumManifestBytes :: nat where "kMaximumManifestBytes = 4 * 1024 * 1024"
definition kMaximumManifestEntries :: nat where "kMaximumManifestEntries = 256"

definition is_hex_character :: "byte \<Rightarrow> bool" where
  "is_hex_character c \<longleftrightarrow> 0x30 \<le> c \<and> c \<le> 0x39 \<or> 0x61 \<le> c \<and> c \<le> 0x66 \<or> 0x41 \<le> c \<and> c \<le> 0x46"

text \<open>\<open>char\<close> is signed.\<close>

definition ascii_to_wide :: "byte list \<Rightarrow> wstring" where
  "ascii_to_wide value = map scast value"

text \<open>The lines of a text; the last one need not be ended.\<close>

function text_lines :: "byte list \<Rightarrow> byte list list" where
  "text_lines text =
     (if text = [] then []
      else let line = takeWhile (\<lambda>c. c \<noteq> 0x0A) text in line # text_lines (drop (length line + 1) text))"
  by auto
termination by (relation "measure length") auto

declare text_lines.simps [simp del]

definition without_return :: "byte list \<Rightarrow> byte list" where
  "without_return line = (if line \<noteq> [] \<and> last line = 0x0D then butlast line else line)"

text \<open>\<open>seen\<close> holds the lower case paths of the entries so far.\<close>

fun parse_lines :: "wstring set \<Rightarrow> ManifestEntry list \<Rightarrow> byte list list \<Rightarrow> manifest_error + ManifestEntry list" where
  "parse_lines seen entries [] = Inr entries"
| "parse_lines seen entries (l # ls) =
     (let line = without_return l in
      if line = [] then parse_lines seen entries ls
      else if length line < 67 \<or> line ! 64 \<noteq> 0x20 \<or> line ! 65 \<noteq> 0x20
        \<or> \<not> list_all is_hex_character (take 64 line) then Inl BadLine
      else case normalize_manifest_path (drop 66 line) of
        None \<Rightarrow> Inl UnsafePath
      | Some path \<Rightarrow>
          let key = lower_copy path in
          if key \<in> seen \<or> kMaximumManifestEntries \<le> length entries then Inl DuplicateOrTooMany
          else
            let digest = map wupper (ascii_to_wide (take 64 line)) in
            parse_lines (insert key seen) (entries @ [\<lparr>me_relative_path = path, me_sha256 = digest\<rparr>]) ls)"

definition parse_manifest_text :: "byte list \<Rightarrow> manifest_error + ManifestEntry list" where
  "parse_manifest_text text =
     (if text = [] \<or> kMaximumManifestBytes < length text then Inl ManifestSize
      else case parse_lines {} [] (text_lines text) of
        Inl e \<Rightarrow> Inl e
      | Inr entries \<Rightarrow> if entries = [] then Inl NoFiles else Inr entries)"

section \<open>Accepted paths\<close>

text \<open>The segments of a text between separators.\<close>

fun split_at :: "('a \<Rightarrow> bool) \<Rightarrow> 'a list \<Rightarrow> 'a list list" where
  "split_at P [] = [[]]"
| "split_at P (c # cs) =
     (if P c then [] # split_at P cs
      else case split_at P cs of s # ss \<Rightarrow> (c # s) # ss | [] \<Rightarrow> [[c]])"

fun join_segments :: "byte list list \<Rightarrow> wstring" where
  "join_segments [] = []"
| "join_segments [s] = map ucast s"
| "join_segments (s # t # ss) = map ucast s @ 0x5C # join_segments (t # ss)"

definition good_segment :: "byte list \<Rightarrow> bool" where
  "good_segment s \<longleftrightarrow> s \<noteq> [] \<and> length s \<le> 255 \<and> s \<noteq> [0x2E] \<and> s \<noteq> [0x2E, 0x2E] \<and> last s \<noteq> 0x2E \<and> last s \<noteq> 0x20
     \<and> \<not> reserved_device (device_name s) \<and> list_all allowed_character s"

lemma flush_segment_eq:
  "flush_segment out s =
     (if good_segment s then Some ((if out \<noteq> [] then out @ [0x5C] else out) @ map ucast s) else None)"
  by (auto simp: flush_segment_def good_segment_def)

lemma split_at_not_Nil [simp]: "split_at P s \<noteq> []"
  by (cases s) (auto split: list.split)

lemma split_at_append:
  "\<forall>c \<in> set s. \<not> P c \<Longrightarrow> split_at P (s @ t) = (s @ hd (split_at P t)) # tl (split_at P t)"
  by (induction s) (auto split: list.split)

lemma join_segments_Cons: "ss \<noteq> [] \<Longrightarrow> join_segments (s # ss) = map ucast s @ 0x5C # join_segments ss"
  by (cases ss) auto

lemma normalize_loop_eq:
  "normalize_loop out s cs =
     (let ss = (s @ hd (split_at path_separator cs)) # tl (split_at path_separator cs) in
      if list_all good_segment ss
      then Some ((if out \<noteq> [] then out @ [0x5C] else out) @ join_segments ss) else None)"
proof (induction out s cs rule: normalize_loop.induct)
  case (1 out segment)
  then show ?case by (simp add: flush_segment_eq)
next
  case (2 out segment c cs)
  show ?case
  proof (cases "path_separator c")
    case sep: True
    show ?thesis
    proof (cases "good_segment segment")
      case True
      let ?out = "(if out \<noteq> [] then out @ [0x5C] else out) @ map ucast segment"
      have f: "flush_segment out segment = Some ?out" using True by (simp add: flush_segment_eq)
      have "?out \<noteq> []" using True by (simp add: good_segment_def)
      then show ?thesis using sep True f 2(1)[OF sep f]
        by (simp add: Let_def join_segments_Cons)
    qed (use sep in \<open>simp add: flush_segment_eq Let_def\<close>)
  next
    case False
    with 2(2) show ?thesis by (auto simp: Let_def split: list.split)
  qed
qed

lemma normalize_eq:
  "normalize_manifest_path path =
     (if path \<noteq> [] \<and> length path \<le> 1024 \<and> \<not> path_separator (hd path) \<and> 0x3A \<notin> set path
        \<and> list_all good_segment (split_at path_separator path)
      then Some (join_segments (split_at path_separator path)) else None)"
  by (auto simp: normalize_manifest_path_def normalize_loop_eq Let_def)

text \<open>What the accepted paths look like.\<close>

definition safe_path :: "wstring \<Rightarrow> bool" where
  "safe_path p \<longleftrightarrow>
     p \<noteq> [] \<and> length p \<le> 1024
     \<and> (\<forall>c \<in> set p. 0x20 \<le> c \<and> c < 0x7F \<and> c \<noteq> 0x3A \<and> c \<noteq> 0x2F)
     \<and> (\<forall>s \<in> set (split_at (\<lambda>c. c = 0x5C) p). s \<noteq> [] \<and> s \<noteq> wide ''.'' \<and> s \<noteq> wide ''..''
          \<and> \<not> reserved_device (device_name (map ucast s)))"

definition narrow :: "wstring \<Rightarrow> byte list" where
  "narrow s = map ucast s"

lemma unat_wide [simp]: "unat (ucast (c :: byte) :: wchar) = unat c"
  using unsigned_less[of c, where ?'a = nat] by (simp add: unsigned_ucast_eq take_bit_nat_eq_self_iff)

lemma narrow_wide [simp]: "ucast (ucast (c :: byte) :: wchar) = c"
  by (rule bit_word_eqI) (simp add: bit_simps)

lemma wide_eq [simp]: "ucast (c :: byte) = (ucast (d :: byte) :: wchar) \<longleftrightarrow> c = d"
  by (metis narrow_wide)

lemma wide_5C [simp]: "ucast (c :: byte) = (0x5C :: wchar) \<longleftrightarrow> c = 0x5C"
  using wide_eq[of c "0x5C"] by simp

lemma narrow_id: "unat (c :: wchar) < 256 \<Longrightarrow> ucast (ucast c :: byte) = c"
proof (rule word_unat_eq_iff[THEN iffD2])
  assume c: "unat c < 256"
  have "unat (ucast c :: byte) = take_bit 8 (unat c)" by (simp add: unsigned_ucast_eq)
  then show "unat (ucast (ucast c :: byte) :: wchar) = unat c"
    using c by (simp add: take_bit_nat_eq_self_iff)
qed

lemma scast_wide: "unat (c :: byte) < 128 \<Longrightarrow> scast c = (ucast c :: wchar)"
proof -
  assume c: "unat c < 128"
  have "take_bit 7 c = c"
    by (rule word_unat_eq_iff[THEN iffD2]) (use c in \<open>simp add: unsigned_take_bit_eq take_bit_nat_eq_self_iff\<close>)
  then have "\<not> bit c 7" using bit_take_bit_iff[of 7 c 7] by simp
  then have n: "\<not> bit c n" if "7 \<le> n" for n
    using that bit_imp_le_length[of c n] by (cases "n = 7") auto
  show ?thesis
  proof (rule bit_word_eqI)
    fix n show "bit (scast c :: wchar) n = bit (ucast c :: wchar) n" if "n < LENGTH(16)"
      using that n[of n] n[of 7] by (cases "n < 7") (auto simp: bit_simps min_def)
  qed
qed

lemma split_at_map:
  "\<forall>c \<in> set s. P (f c) \<longleftrightarrow> Q c \<Longrightarrow> split_at P (map f s) = map (map f) (split_at Q s)"
  by (induction s) (auto split: list.split)

lemma split_at_join:
  "ss \<noteq> [] \<Longrightarrow> \<forall>s \<in> set ss. 0x5C \<notin> set s \<Longrightarrow>
    split_at (\<lambda>c. c = 0x5C) (join_segments ss) = map (map (ucast :: byte \<Rightarrow> wchar)) ss"
proof (induction ss rule: join_segments.induct)
  case (2 s)
  then show ?case using split_at_append[of "map ucast s" "\<lambda>c. c = (0x5C :: wchar)" "[]"] by auto
next
  case (3 s t ss)
  then show ?case
    using split_at_append[of "map ucast s" "\<lambda>c. c = (0x5C :: wchar)" "0x5C # join_segments (t # ss)"] by auto
qed simp

lemma good_segment_chars:
  assumes "good_segment s" and "c \<in> set s"
  shows "0x20 \<le> c" and "c < 0x7F"
  using assms by (auto simp: good_segment_def list_all_iff allowed_character_def not_less not_le)

lemma set_join: "set (join_segments ss) \<subseteq> insert 0x5C (ucast ` (\<Union>s \<in> set ss. set s))"
  by (induction ss rule: join_segments.induct) auto

lemma set_split_at: "s \<in> set (split_at P t) \<Longrightarrow> set s \<subseteq> {c \<in> set t. \<not> P c}"
  by (induction t arbitrary: s) (fastforce split: list.splits if_splits)+

lemma length_join_split:
  "length (join_segments (split_at P t)) = length t"
proof (induction t)
  case (Cons c t)
  then show ?case by (cases "split_at P t"; cases "tl (split_at P t)") (auto simp: join_segments_Cons)
qed simp

lemma normalize_safe:
  assumes "normalize_manifest_path path = Some p"
  shows "safe_path p" and "normalize_manifest_path (narrow p) = Some p"
proof -
  define ss where "ss = split_at path_separator path"
  from assms have path: "path \<noteq> []" "length path \<le> 1024" "0x3A \<notin> set path" "\<not> path_separator (hd path)"
    and good: "list_all good_segment ss" and p: "p = join_segments ss"
    by (auto simp: normalize_eq ss_def split: if_splits)
  have ne: "ss \<noteq> []" by (simp add: ss_def)
  have sep: "\<forall>s \<in> set ss. \<forall>c \<in> set s. c \<noteq> 0x5C \<and> c \<noteq> 0x2F \<and> c \<noteq> 0x3A"
    using set_split_at[of _ path_separator path] path(3) by (auto simp: ss_def path_separator_def)
  have sp: "split_at (\<lambda>c. c = 0x5C) p = map (map ucast) ss"
    unfolding p by (rule split_at_join[OF ne]) (use sep in blast)
  have len: "length p = length path" by (simp add: p ss_def length_join_split)
  have chars: "\<forall>c \<in> set p. 0x20 \<le> c \<and> c < 0x7F \<and> c \<noteq> 0x3A \<and> c \<noteq> 0x2F"
  proof
    fix c assume "c \<in> set p"
    then consider "c = 0x5C" | s b where "s \<in> set ss" "b \<in> set s" "c = ucast b"
      using set_join[of ss] unfolding p by blast
    then show "0x20 \<le> c \<and> c < 0x7F \<and> c \<noteq> 0x3A \<and> c \<noteq> 0x2F"
    proof cases
      case 2
      with good have "good_segment s" by (simp add: list_all_iff)
      from good_segment_chars[OF this 2(2)] sep 2 show ?thesis
        using wide_eq[of b "0x3A"] wide_eq[of b "0x2F"] by (auto simp: word_le_nat_alt word_less_nat_alt)
    qed simp
  qed
  have narrow: "map (ucast :: wchar \<Rightarrow> byte) (map ucast s) = s" for s :: "byte list"
    by (simp add: comp_def)
  have seg: "s \<noteq> [] \<and> s \<noteq> wide ''.'' \<and> s \<noteq> wide ''..'' \<and> \<not> reserved_device (device_name (map ucast s))"
    if "s \<in> set (split_at (\<lambda>c. c = 0x5C) p)" for s
  proof -
    from that sp obtain b where b: "b \<in> set ss" "s = map ucast b" by auto
    with good have g: "good_segment b" by (simp add: list_all_iff)
    have m: "map (ucast :: wchar \<Rightarrow> byte) s = b" by (simp only: b(2) narrow)
    with g have "map ucast s \<noteq> [0x2E :: byte]" "map ucast s \<noteq> [0x2E :: byte, 0x2E]" "s \<noteq> []"
      by (auto simp: good_segment_def)
    then have "s \<noteq> wide ''.''" "s \<noteq> wide ''..''" "s \<noteq> []" by (auto simp: wide_def)
    with g m show ?thesis by (simp add: good_segment_def)
  qed
  show "safe_path p" using len path chars seg by (auto simp: safe_path_def)
  have restored: "ucast (ucast c :: byte) = c" if "c \<in> set p" for c
    using that chars by (intro narrow_id) (auto simp: word_less_nat_alt)
  have sn: "split_at path_separator (narrow p) = ss"
  proof -
    have "\<forall>c \<in> set p. path_separator (ucast c) \<longleftrightarrow> c = 0x5C"
    proof
      fix c assume "c \<in> set p"
      with restored[OF this] chars show "path_separator (ucast c) \<longleftrightarrow> c = 0x5C"
        by (auto simp: path_separator_def)
    qed
    then have "split_at path_separator (narrow p) = map (map ucast) (split_at (\<lambda>c. c = 0x5C) p)"
      unfolding narrow_def by (rule split_at_map)
    then show ?thesis by (simp add: sp comp_def)
  qed
  have "0x3A \<notin> set (narrow p)"
  proof
    assume "0x3A \<in> set (narrow p)"
    then obtain c where "c \<in> set p" "ucast c = (0x3A :: byte)" by (auto simp: narrow_def)
    with restored[of c] chars show False by auto
  qed
  moreover have "\<not> path_separator (hd (narrow p))"
  proof
    assume "path_separator (hd (narrow p))"
    moreover have "narrow p \<noteq> []" using len path by (auto simp: narrow_def)
    ultimately have "[] \<in> set (split_at path_separator (narrow p))" by (cases "narrow p") auto
    with good have "good_segment []" by (simp add: sn list_all_iff)
    then show False by (simp add: good_segment_def)
  qed
  moreover have "narrow p \<noteq> []" "length (narrow p) \<le> 1024" using len path by (auto simp: narrow_def)
  ultimately show "normalize_manifest_path (narrow p) = Some p"
    using good p[symmetric] by (simp add: normalize_eq sn)
qed

section \<open>Accepted manifests\<close>

definition upper_hex :: "wchar \<Rightarrow> bool" where
  "upper_hex c \<longleftrightarrow> 0x30 \<le> c \<and> c \<le> 0x39 \<or> 0x41 \<le> c \<and> c \<le> 0x46"

definition entry_ok :: "ManifestEntry \<Rightarrow> bool" where
  "entry_ok e \<longleftrightarrow> length (me_sha256 e) = 64 \<and> list_all upper_hex (me_sha256 e)
     \<and> safe_path (me_relative_path e)
     \<and> normalize_manifest_path (narrow (me_relative_path e)) = Some (me_relative_path e)"

definition manifest_keys :: "ManifestEntry list \<Rightarrow> wstring list" where
  "manifest_keys es = map (\<lambda>e. lower_copy (me_relative_path e)) es"

definition manifest_ok :: "ManifestEntry list \<Rightarrow> bool" where
  "manifest_ok es \<longleftrightarrow> es \<noteq> [] \<and> length es \<le> kMaximumManifestEntries \<and> list_all entry_ok es \<and> distinct (manifest_keys es)"

text \<open>The lines that \<open>sha256sum\<close> writes.\<close>

definition print_entry :: "ManifestEntry \<Rightarrow> byte list" where
  "print_entry e = narrow (me_sha256 e) @ [0x20, 0x20] @ narrow (me_relative_path e)"

definition print_manifest :: "ManifestEntry list \<Rightarrow> byte list" where
  "print_manifest es = concat (map (\<lambda>e. print_entry e @ [0x0A]) es)"

lemma hex_cases:
  assumes "is_hex_character c" shows "upper_hex (wupper (scast c))"
proof -
  have "unat c < 128" using assms by (auto simp: is_hex_character_def word_le_nat_alt)
  then have s: "scast c = (ucast c :: wchar)" by (rule scast_wide)
  show ?thesis using assms
    by (auto simp: is_hex_character_def upper_hex_def wupper_def s word_le_nat_alt unat_word_ariths unat_sub_if')
qed

lemma manifest_keys_append: "manifest_keys (es @ [e]) = manifest_keys es @ [lower_copy (me_relative_path e)]"
  by (simp add: manifest_keys_def)

lemma parse_lines_ok:
  assumes "parse_lines (set (manifest_keys acc)) acc ls = Inr es"
    and "list_all entry_ok acc" and "distinct (manifest_keys acc)" and "length acc \<le> kMaximumManifestEntries"
  shows "list_all entry_ok es \<and> distinct (manifest_keys es) \<and> length es \<le> kMaximumManifestEntries"
  using assms
proof (induction ls arbitrary: acc)
  case (Cons l ls)
  let ?line = "without_return l"
  show ?case
  proof (cases "?line = []")
    case True
    with Cons show ?thesis by simp
  next
    case False
    with Cons.prems(1) obtain path where hex: "length ?line \<ge> 67" "list_all is_hex_character (take 64 ?line)"
      and path: "normalize_manifest_path (drop 66 ?line) = Some path"
      and new: "lower_copy path \<notin> set (manifest_keys acc)" "length acc < kMaximumManifestEntries"
      by (auto simp: Let_def split: if_splits option.splits)
    let ?e = "\<lparr>me_relative_path = path, me_sha256 = map wupper (ascii_to_wide (take 64 ?line))\<rparr>"
    have "parse_lines (set (manifest_keys (acc @ [?e]))) (acc @ [?e]) ls = Inr es"
      using Cons.prems(1) False path by (auto simp: Let_def manifest_keys_append split: if_splits)
    moreover have "entry_ok ?e"
      using hex normalize_safe[OF path] hex_cases
      by (auto simp: entry_ok_def ascii_to_wide_def list_all_iff)
    ultimately show ?thesis using Cons.IH[of "acc @ [?e]"] Cons.prems(2-4) new
      by (simp add: manifest_keys_append)
  qed
qed simp

lemma text_lines_Cons: "0x0A \<notin> set l \<Longrightarrow> text_lines (l @ 0x0A # rest) = l # text_lines rest"
proof -
  assume "0x0A \<notin> set l"
  then have t: "takeWhile (\<lambda>c. c \<noteq> 0x0A) (l @ 0x0A # rest) = l" by (induction l) auto
  show ?thesis by (subst text_lines.simps) (simp add: Let_def t)
qed

lemma text_lines_print:
  "\<forall>e \<in> set es. 0x0A \<notin> set (print_entry e) \<Longrightarrow> text_lines (print_manifest es) = map print_entry es"
  by (induction es) (simp_all add: print_manifest_def text_lines_Cons text_lines.simps[of "[]"])

lemma upper_hex_read:
  assumes "upper_hex c"
  shows "is_hex_character (ucast c)" "wupper (scast (ucast c :: byte)) = c" "unat c < 128" "unat c \<ge> 0x30"
proof -
  show c: "unat c < 128" "unat c \<ge> 0x30" using assms by (auto simp: upper_hex_def word_le_nat_alt)
  then have u: "unat (ucast c :: byte) = unat c" using narrow_id[of c] unat_wide[of "ucast c"] by simp
  then have s: "scast (ucast c :: byte) = c" using c narrow_id[of c] scast_wide[of "ucast c"] by simp
  show "is_hex_character (ucast c)" using assms u by (auto simp: upper_hex_def is_hex_character_def word_le_nat_alt)
  show "wupper (scast (ucast c :: byte)) = c" using assms s
    by (auto simp: upper_hex_def wupper_def word_le_nat_alt)
qed

lemma print_entry_ok:
  assumes "entry_ok e"
  shows "0x0A \<notin> set (print_entry e)" "without_return (print_entry e) = print_entry e"
    "length (print_entry e) = 66 + length (me_relative_path e)"
    "take 64 (print_entry e) = narrow (me_sha256 e)" "drop 66 (print_entry e) = narrow (me_relative_path e)"
    "print_entry e ! 64 = 0x20" "print_entry e ! 65 = 0x20"
    "list_all is_hex_character (narrow (me_sha256 e))"
    "map wupper (ascii_to_wide (narrow (me_sha256 e))) = me_sha256 e"
proof -
  let ?d = "me_sha256 e" and ?p = "me_relative_path e"
  from assms have len: "length (narrow ?d) = 64" and hex: "\<forall>c \<in> set ?d. upper_hex c"
    and p: "?p \<noteq> []" "\<forall>c \<in> set ?p. 0x20 \<le> c \<and> c < 0x7F"
    by (auto simp: entry_ok_def safe_path_def list_all_iff narrow_def)
  have high: "unat (ucast c :: byte) = unat c \<and> 0x20 \<le> unat c" if "c \<in> set ?d \<union> set ?p" for c
  proof -
    have "unat c < 256 \<and> 0x20 \<le> unat c"
      using that hex upper_hex_read(3,4)[of c] p(2) by (auto simp: word_le_nat_alt word_less_nat_alt)
    then show ?thesis using narrow_id[of c] unat_wide[of "ucast c"] by simp
  qed
  have low: "b \<notin> set (narrow ?d @ narrow ?p)" if "unat b < 0x20" for b
    using high that by (fastforce simp: narrow_def)
  from low[of "0x0A"] show "0x0A \<notin> set (print_entry e)" by (simp add: print_entry_def)
  have "narrow ?p \<noteq> []" using p by (simp add: narrow_def)
  then have "last (print_entry e) \<in> set (narrow ?p)" by (simp add: print_entry_def)
  with low[of "0x0D"] show "without_return (print_entry e) = print_entry e" by (auto simp: without_return_def)
  show "length (print_entry e) = 66 + length ?p" using len by (simp add: print_entry_def narrow_def)
  show "take 64 (print_entry e) = narrow ?d" "drop 66 (print_entry e) = narrow ?p"
    "print_entry e ! 64 = 0x20" "print_entry e ! 65 = 0x20"
    using len by (simp_all add: print_entry_def nth_append)
  show "list_all is_hex_character (narrow ?d)" using hex upper_hex_read(1) by (auto simp: narrow_def list_all_iff)
  show "map wupper (ascii_to_wide (narrow ?d)) = ?d"
    unfolding narrow_def ascii_to_wide_def map_map
    by (rule map_idI) (use hex upper_hex_read(2) in auto)
qed

lemma parse_lines_print:
  assumes "list_all entry_ok es" and "distinct (manifest_keys (acc @ es))"
    and "length (acc @ es) \<le> kMaximumManifestEntries"
  shows "parse_lines (set (manifest_keys acc)) acc (map print_entry es) = Inr (acc @ es)"
  using assms
proof (induction es arbitrary: acc)
  case (Cons e es)
  have e: "entry_ok e" using Cons.prems(1) by simp
  have ne: "me_relative_path e \<noteq> []" using e by (simp add: entry_ok_def safe_path_def)
  have n: "normalize_manifest_path (narrow (me_relative_path e)) = Some (me_relative_path e)"
    using e by (simp add: entry_ok_def)
  have new: "lower_copy (me_relative_path e) \<notin> set (manifest_keys acc)" "length acc < kMaximumManifestEntries"
    using Cons.prems by (auto simp: manifest_keys_def)
  have "parse_lines (set (manifest_keys (acc @ [e]))) (acc @ [e]) (map print_entry es) = Inr ((acc @ [e]) @ es)"
    using Cons.prems by (intro Cons.IH) simp_all
  with print_entry_ok[OF e] ne n new show ?case
    by (cases e) (simp add: Let_def manifest_keys_append, auto simp: Suc_le_eq)
qed simp

lemma length_print_entry: "entry_ok e \<Longrightarrow> length (print_entry e) \<le> 1090"
  using print_entry_ok(3)[of e] by (simp add: entry_ok_def safe_path_def)

lemma length_print_manifest: "list_all entry_ok es \<Longrightarrow> length (print_manifest es) \<le> 1091 * length es"
  by (induction es) (use length_print_entry in \<open>auto simp: print_manifest_def\<close>, fastforce)

lemma parse_manifest_ok:
  assumes "parse_manifest_text text = Inr es" shows "manifest_ok es"
proof -
  from assms have "parse_lines {} [] (text_lines text) = Inr es" "es \<noteq> []"
    by (auto simp: parse_manifest_text_def split: if_splits sum.splits)
  then show ?thesis
    using parse_lines_ok[of "[]" "text_lines text" es] by (simp add: manifest_ok_def manifest_keys_def)
qed

lemma parse_print_manifest:
  assumes ok: "manifest_ok es" shows "parse_manifest_text (print_manifest es) = Inr es"
proof -
  have "length (print_manifest es) \<le> 1091 * 256"
    using ok length_print_manifest[of es] by (simp add: manifest_ok_def kMaximumManifestEntries_def)
  then have "length (print_manifest es) \<le> kMaximumManifestBytes" by (simp add: kMaximumManifestBytes_def)
  moreover have "print_manifest es \<noteq> []" using ok by (cases es) (auto simp: manifest_ok_def print_manifest_def)
  moreover have "text_lines (print_manifest es) = map print_entry es"
    using ok print_entry_ok(1) by (intro text_lines_print) (auto simp: manifest_ok_def list_all_iff)
  moreover have "parse_lines {} [] (map print_entry es) = Inr es"
    using parse_lines_print[of es "[]"] ok by (simp add: manifest_ok_def manifest_keys_def)
  ultimately show ?thesis using ok by (simp add: parse_manifest_text_def manifest_ok_def)
qed

text \<open>C26: An accepted manifest lists between one and 256 files, each by a canonical relative path and a
  digest in upper case hexadecimal, no two differing only in case.  No path has an empty, \<open>.\<close> or \<open>..\<close>
  segment, a drive, or the name of a device.  Writing the entries in the format of \<open>sha256sum\<close> and
  reading them again gives the same entries, and every such list of entries can be written and read.\<close>

theorem manifest_round_trip:
  "(parse_manifest_text text = Inr es \<longrightarrow> manifest_ok es)
   \<and> (manifest_ok es \<longrightarrow> parse_manifest_text (print_manifest es) = Inr es)"
  using parse_manifest_ok parse_print_manifest by blast

definition sample_entry_of :: "string \<Rightarrow> ManifestEntry" where
  "sample_entry_of name = \<lparr>me_relative_path = wide name, me_sha256 = replicate 64 0x41\<rparr>"

lemma sample_manifest_ok: "manifest_ok [sample_entry_of ''a.txt'']"
  by (simp add: manifest_ok_def manifest_keys_def entry_ok_def sample_entry_of_def upper_hex_def safe_path_def
      kMaximumManifestEntries_def wide_def narrow_def list_all_iff normalize_manifest_path_def path_separator_def
      flush_segment_def device_name_def reserved_device_def allowed_character_def toupper_def ascii_def)

theorem manifest_round_trip_witness:
  "parse_manifest_text (print_manifest [sample_entry_of ''a.txt'']) = Inr [sample_entry_of ''a.txt'']"
  using manifest_round_trip sample_manifest_ok by blast

end
