(* ===== verification/Package_Files.thy ===== *)
theory Package_Files imports Package_Manifest begin

text \<open>
  The files of a package: opening, hashing and enumerating them, the layout of a package and its check
  against the manifest, \<open>verify_package_integrity\<close> of \<open>src/launcher/manager_model.cpp\<close>.  What Windows
  knows of the files is an environment: opening a path with or without following links, the listing
  of a folder, the attributes of a path, the kind of a drive, and SHA-256.
\<close>

section \<open>The environment\<close>

record win_file =
  wf_directory :: bool
  wf_reparse :: bool
  wf_required :: nat
  wf_final :: wstring
  wf_size_known :: bool
  wf_readable :: bool
  wf_content :: "byte list"

record found_file =
  ff_name :: wstring
  ff_directory :: bool
  ff_reparse :: bool

text \<open>\<open>fs_list\<close> answers a search with what was found and whether it ended with \<open>ERROR_NO_MORE_FILES\<close>.
  \<open>fs_attributes\<close> gives whether a path is a folder or a link, and the two halves of its size.
  \<open>fs_lock\<close> opens a file or folder so that others can only read it.\<close>

record package_env =
  fs_open :: "wstring \<Rightarrow> win_file option"
  fs_follow :: "wstring \<Rightarrow> win_file option"
  fs_lock :: "wstring \<Rightarrow> bool \<Rightarrow> win_file option"
  fs_list :: "wstring \<Rightarrow> (found_file list \<times> bool) option"
  fs_attributes :: "wstring \<Rightarrow> (bool \<times> bool \<times> u32 \<times> u32) option"
  fs_drive :: "wchar \<Rightarrow> nat"
  fs_sha256 :: "byte list \<Rightarrow> byte list option"
  fs_trust :: "bool \<Rightarrow> wstring \<Rightarrow> bool \<times> wstring"

datatype package_error =
    RootMissing | RootNotLocal
  | NoRegularFile | FileTooLarge | ReadIncomplete
  | Manifest manifest_error
  | ListFailed | LinkInPackage wstring | TooManyFolders | TooManyFiles | ListBroken
  | NotCovered | Unlisted | RequiredMissing | PackageTooLarge | OutsideRoot | HashFailed | HashDiffers
  | LockFailed wstring | WrongKind wstring | Unresolved wstring

section \<open>Single files\<close>

definition final_path_for_handle :: "win_file \<Rightarrow> wstring option" where
  "final_path_for_handle f =
     (if wf_required f = 0 \<or> 32768 < wf_required f then None
      else if wf_final f = [] \<or> wf_required f + 1 \<le> length (wf_final f) then None
      else Some (strip_extended_prefix (wf_final f)))"

definition open_regular_file :: "package_env \<Rightarrow> wstring \<Rightarrow> win_file option" where
  "open_regular_file e path =
     (case fs_open e (c_str path) of
        None \<Rightarrow> None
      | Some f \<Rightarrow> if wf_directory f \<or> wf_reparse f then None else Some f)"

definition file_is_regular :: "package_env \<Rightarrow> wstring \<Rightarrow> bool" where
  "file_is_regular e path \<longleftrightarrow> open_regular_file e path \<noteq> None"

definition read_file_limited :: "package_env \<Rightarrow> wstring \<Rightarrow> nat \<Rightarrow> package_error + byte list" where
  "read_file_limited e path limit =
     and_then (or_fail (open_regular_file e path) NoRegularFile) (\<lambda>f.
     and_then (require (wf_size_known f \<and> length (wf_content f) \<le> limit) FileTooLarge) (\<lambda>_.
     and_then (require (wf_readable f \<or> wf_content f = []) ReadIncomplete) (\<lambda>_.
     Inr (wf_content f))))"

definition kMaximumHashedFileBytes :: nat where "kMaximumHashedFileBytes = 512 * 1024 * 1024"
definition kMaximumPackageBytes :: nat where "kMaximumPackageBytes = 1024 * 1024 * 1024"

definition hex_digit :: "nat \<Rightarrow> wchar" where
  "hex_digit n = wide ''0123456789ABCDEF'' ! n"

definition bytes_to_hex :: "byte list \<Rightarrow> wstring" where
  "bytes_to_hex bs = concat (map (\<lambda>b. [hex_digit (unat (drop_bit 4 b)), hex_digit (unat (b AND 0x0F))]) bs)"

definition sha256_file :: "package_env \<Rightarrow> wstring \<Rightarrow> wstring \<Rightarrow> package_error + wstring" where
  "sha256_file e path package_root =
     and_then (or_fail (open_regular_file e path) NoRegularFile) (\<lambda>f.
     and_then (or_fail (final_path_for_handle f) NoRegularFile) (\<lambda>final_file.
     and_then (require (wf_size_known f \<and> length (wf_content f) \<le> kMaximumHashedFileBytes) FileTooLarge) (\<lambda>_.
     and_then (if package_root = [] then Inr ()
               else case fs_follow e (c_str package_root) of
                 None \<Rightarrow> Inl OutsideRoot
               | Some root \<Rightarrow>
                   (case final_path_for_handle root of
                      None \<Rightarrow> Inl OutsideRoot
                    | Some final_root \<Rightarrow> require (path_within_or_equal final_file final_root) OutsideRoot)) (\<lambda>_.
     and_then (or_fail (if wf_readable f then fs_sha256 e (wf_content f) else None) HashFailed) (\<lambda>bytes.
     and_then (require (length bytes = 32) HashFailed) (\<lambda>_.
     Inr (bytes_to_hex bytes)))))))"

definition file_sha256 :: "package_env \<Rightarrow> wstring \<Rightarrow> package_error + wstring" where
  "file_sha256 e path = sha256_file e path []"

section \<open>The layout\<close>

definition kManifestName :: wstring where "kManifestName = wide ''SHA256SUMS.txt''"
definition installer_name :: wstring where "installer_name = wide ''Install-SimHubPlugin.ps1''"

definition in_folders :: "string list \<Rightarrow> wstring" where
  "in_folders names = foldr (\<lambda>n s. if s = [] then wide n else wide n @ 0x5C # s) names []"

record PackageLayout =
  pl_root :: wstring
  pl_manifest_path :: wstring
  pl_installer_script :: wstring
  pl_uninstaller_script :: wstring
  pl_launcher_x86 :: wstring
  pl_hook_x86 :: wstring
  pl_launcher_x64 :: wstring
  pl_hook_x64 :: wstring
  pl_simhub_core :: wstring
  pl_simhub_plugin :: wstring

definition make_package_layout :: "wstring \<Rightarrow> PackageLayout" where
  "make_package_layout root = \<lparr>
     pl_root = root,
     pl_manifest_path = join_path root kManifestName,
     pl_installer_script = join_path root installer_name,
     pl_uninstaller_script = join_path root (wide ''Uninstall-SimHubPlugin.ps1''),
     pl_launcher_x86 = join_path root (in_folders [''launcher'', ''x86'', ''FFBInterceptor.Launcher.exe'']),
     pl_hook_x86 = join_path root (in_folders [''launcher'', ''x86'', ''FFBInterceptor.Hook.dll'']),
     pl_launcher_x64 = join_path root (in_folders [''launcher'', ''x64'', ''FFBInterceptor.Launcher.exe'']),
     pl_hook_x64 = join_path root (in_folders [''launcher'', ''x64'', ''FFBInterceptor.Hook.dll'']),
     pl_simhub_core = join_path root (in_folders [''simhub'', ''FFBInterceptor.Core.dll'']),
     pl_simhub_plugin = join_path root (in_folders [''simhub'', ''FFBInterceptor.SimHub.dll''])\<rparr>"

text \<open>The candidate and its parents, at most five folders.\<close>

fun locate_from :: "nat \<Rightarrow> package_env \<Rightarrow> wstring \<Rightarrow> wstring" where
  "locate_from 0 e candidate = []"
| "locate_from (Suc n) e candidate =
     (if candidate = [] then []
      else if file_is_regular e (join_path candidate kManifestName)
        \<and> file_is_regular e (join_path candidate installer_name) then candidate
      else let parent = parent_path candidate in
        if parent = [] \<or> wcsicmp_eq parent candidate then [] else locate_from n e parent)"

definition locate_bundle_root :: "package_env \<Rightarrow> wstring \<Rightarrow> wstring" where
  "locate_bundle_root e executable_path = locate_from 5 e (parent_path executable_path)"

section \<open>The files on disk\<close>

type_synonym folder = "wstring \<times> wstring"

fun scan_folder ::
  "folder \<Rightarrow> found_file list \<Rightarrow> folder list \<Rightarrow> wstring list \<Rightarrow> package_error + folder list \<times> wstring list" where
  "scan_folder d [] pending files = Inr (pending, files)"
| "scan_folder (full, rel) (f # fs) pending files =
     (let name = ff_name f in
      if name = wide ''.'' \<or> name = wide ''..'' then scan_folder (full, rel) fs pending files
      else
        let relative = (if rel = [] then name else join_path rel name) in
        if ff_reparse f then Inl (LinkInPackage relative)
        else if ff_directory f then
          if kMaximumManifestEntries + 1 \<le> length pending then Inl TooManyFolders
          else scan_folder (full, rel) fs (pending @ [(join_path full name, relative)]) files
        else if rel = [] \<and> wcsicmp_eq name kManifestName then scan_folder (full, rel) fs pending files
        else if kMaximumManifestEntries \<le> length files then Inl TooManyFiles
        else scan_folder (full, rel) fs pending (files @ [relative]))"

lemma scan_folder_pending:
  "scan_folder d fs pending files = Inr (pending', files') \<Longrightarrow>
     max (kMaximumManifestEntries + 1) (length pending') = max (kMaximumManifestEntries + 1) (length pending)"
  by (induction d fs pending files rule: scan_folder.induct) (auto simp: Let_def max_def split: if_splits)

function enumerate_loop :: "package_env \<Rightarrow> nat \<Rightarrow> folder list \<Rightarrow> wstring list \<Rightarrow> package_error + wstring list" where
  "enumerate_loop e n pending files =
     (if n < length pending then
        (case fs_list e (join_path (fst (pending ! n)) (wide ''*'')) of
           None \<Rightarrow> Inl ListFailed
         | Some (fs, ended) \<Rightarrow>
             (case scan_folder (pending ! n) fs pending files of
                Inl err \<Rightarrow> Inl err
              | Inr (pending', files') \<Rightarrow>
                  if \<not> ended then Inl ListBroken else enumerate_loop e (Suc n) pending' files'))
      else Inr files)"
  by auto
termination
proof (relation "measure (\<lambda>(e, n, pending, files). max (kMaximumManifestEntries + 1) (length pending) - n)", goal_cases)
  case (2 e n pending files x fs ended y pending' files')
  then have "max (kMaximumManifestEntries + 1) (length pending') = max (kMaximumManifestEntries + 1) (length pending)"
    by (intro scan_folder_pending[of "pending ! n" fs pending files pending' files']) simp
  with 2 show ?case by clarsimp linarith
qed simp

declare enumerate_loop.simps [simp del]

definition enumerate_package_files :: "package_env \<Rightarrow> wstring \<Rightarrow> package_error + wstring list" where
  "enumerate_package_files e root = enumerate_loop e 0 [(root, [])] []"

section \<open>What the enumeration finds\<close>

definition special_name :: "wstring \<Rightarrow> bool" where
  "special_name n \<longleftrightarrow> n = wide ''.'' \<or> n = wide ''..''"

definition within :: "folder \<Rightarrow> wstring \<Rightarrow> wstring" where
  "within d name = (if snd d = [] then name else join_path (snd d) name)"

definition subfolders :: "folder \<Rightarrow> found_file list \<Rightarrow> folder set" where
  "subfolders d fs = {(join_path (fst d) (ff_name f), within d (ff_name f)) | f.
     f \<in> set fs \<and> \<not> special_name (ff_name f) \<and> ff_directory f}"

definition plain_files :: "folder \<Rightarrow> found_file list \<Rightarrow> wstring set" where
  "plain_files d fs = {within d (ff_name f) | f. f \<in> set fs \<and> \<not> special_name (ff_name f) \<and> \<not> ff_directory f
     \<and> \<not> (snd d = [] \<and> wcsicmp_eq (ff_name f) kManifestName)}"

definition links :: "found_file list \<Rightarrow> bool" where
  "links fs \<longleftrightarrow> (\<exists>f \<in> set fs. \<not> special_name (ff_name f) \<and> ff_reparse f)"

text \<open>The folders below a root, and the files in them.\<close>

inductive folder_at :: "package_env \<Rightarrow> wstring \<Rightarrow> folder \<Rightarrow> bool" for e :: package_env and root :: wstring where
  top: "folder_at e root (root, [])"
| below: "folder_at e root d \<Longrightarrow> fs_list e (join_path (fst d) (wide ''*'')) = Some (fs, ended) \<Longrightarrow>
    d' \<in> subfolders d fs \<Longrightarrow> folder_at e root d'"

definition files_at :: "package_env \<Rightarrow> wstring \<Rightarrow> wstring set" where
  "files_at e root = {f. \<exists>d fs ended. folder_at e root d
     \<and> fs_list e (join_path (fst d) (wide ''*'')) = Some (fs, ended) \<and> f \<in> plain_files d fs}"

lemma scan_folder_sets:
  "scan_folder d fs pending files = Inr (pending', files') \<Longrightarrow>
     (\<exists>more. pending' = pending @ more \<and> set more = subfolders d fs)
     \<and> set files' = set files \<union> plain_files d fs \<and> \<not> links fs
     \<and> length files' \<le> max kMaximumManifestEntries (length files)"
proof (induction fs arbitrary: pending files)
  case Nil
  then show ?case by (simp add: subfolders_def plain_files_def links_def)
next
  case (Cons f fs)
  obtain full rel where d: "d = (full, rel)" by (cases d)
  let ?name = "ff_name f"
  have sub: "subfolders d (f # fs) = (if special_name ?name \<or> \<not> ff_directory f then subfolders d fs
      else insert (join_path full ?name, within d ?name) (subfolders d fs))"
    and fil: "plain_files d (f # fs) = (if special_name ?name \<or> ff_directory f
        \<or> rel = [] \<and> wcsicmp_eq ?name kManifestName then plain_files d fs
      else insert (within d ?name) (plain_files d fs))"
    and lnk: "links (f # fs) \<longleftrightarrow> \<not> special_name ?name \<and> ff_reparse f \<or> links fs"
    by (auto simp: subfolders_def plain_files_def links_def d)
  have w: "(if rel = [] then ?name else join_path rel ?name) = within d ?name" by (simp add: within_def d)
  have s: "?name = wide ''.'' \<or> ?name = wide ''..'' \<longleftrightarrow> special_name ?name" by (simp add: special_name_def)
  note run = Cons.prems[unfolded d scan_folder.simps Let_def w s, folded d]
  consider (dots) "special_name ?name"
    | (folder) "\<not> special_name ?name" "\<not> ff_reparse f" "ff_directory f"
    | (manifest) "\<not> special_name ?name" "\<not> ff_reparse f" "\<not> ff_directory f" "rel = [] \<and> wcsicmp_eq ?name kManifestName"
    | (plain) "\<not> special_name ?name" "\<not> ff_reparse f" "\<not> ff_directory f" "\<not> (rel = [] \<and> wcsicmp_eq ?name kManifestName)"
    using run by (auto split: if_splits)
  then show ?case
  proof cases
    case dots
    with run Cons.IH[of pending files] show ?thesis by (auto simp: sub fil lnk)
  next
    case folder
    with run Cons.IH[of "pending @ [(join_path full ?name, within d ?name)]" files] show ?thesis
      by (auto simp: sub fil lnk split: if_splits)
  next
    case manifest
    with run Cons.IH[of pending files] show ?thesis by (auto simp: sub fil lnk)
  next
    case plain
    with run Cons.IH[of pending "files @ [within d ?name]"] show ?thesis
      by (auto simp: sub fil lnk split: if_splits)
  qed
qed

lemma enumerate_loop_sets:
  assumes "enumerate_loop e n pending files = Inr found" and "n \<le> length pending"
  shows "\<exists>more. let all = pending @ more in
    (\<forall>d \<in> set (drop n all). \<exists>fs. fs_list e (join_path (fst d) (wide ''*'')) = Some (fs, True)
       \<and> subfolders d fs \<subseteq> set all \<and> plain_files d fs \<subseteq> set found \<and> \<not> links fs)
    \<and> (\<forall>root. (\<forall>d \<in> set pending. folder_at e root d) \<longrightarrow> (\<forall>d \<in> set more. folder_at e root d)
         \<and> (set files \<subseteq> files_at e root \<longrightarrow> set found \<subseteq> files_at e root))
    \<and> set files \<subseteq> set found \<and> length found \<le> max kMaximumManifestEntries (length files)"
  using assms
proof (induction e n pending files arbitrary: found rule: enumerate_loop.induct)
  case (1 e n pending files)
  show ?case
  proof (cases "n < length pending")
    case False
    with 1(2,3) have "found = files" "n = length pending" by (simp_all add: enumerate_loop.simps[of e n])
    then show ?thesis by (intro exI[of _ "[]"]) simp
  next
    case True
    let ?d = "pending ! n"
    from 1(2) True obtain fs p' f' where fs: "fs_list e (join_path (fst ?d) (wide ''*'')) = Some (fs, True)"
      and sc: "scan_folder ?d fs pending files = Inr (p', f')" and r: "enumerate_loop e (Suc n) p' f' = Inr found"
      by (subst (asm) enumerate_loop.simps) (auto split: option.splits sum.splits if_splits)
    from scan_folder_sets[OF sc] obtain m1 where m1: "p' = pending @ m1" "set m1 = subfolders ?d fs"
      and f': "set f' = set files \<union> plain_files ?d fs" "\<not> links fs" "length f' \<le> max kMaximumManifestEntries (length files)"
      by blast
    from 1(1)[OF True fs refl sc refl _ r] True m1(1) obtain m2 where
      A: "\<forall>d \<in> set (drop (Suc n) (p' @ m2)). \<exists>fs. fs_list e (join_path (fst d) (wide ''*'')) = Some (fs, True)
         \<and> subfolders d fs \<subseteq> set (p' @ m2) \<and> plain_files d fs \<subseteq> set found \<and> \<not> links fs"
      and B: "\<forall>root. (\<forall>d \<in> set p'. folder_at e root d) \<longrightarrow> (\<forall>d \<in> set m2. folder_at e root d)
         \<and> (set f' \<subseteq> files_at e root \<longrightarrow> set found \<subseteq> files_at e root)"
      and C: "set f' \<subseteq> set found" "length found \<le> max kMaximumManifestEntries (length f')"
      by (auto simp: Let_def)
    have all: "pending @ (m1 @ m2) = p' @ m2" by (simp add: m1)
    have dr: "drop n (p' @ m2) = ?d # drop (Suc n) (p' @ m2)"
      using True by (simp add: m1 Cons_nth_drop_Suc[symmetric])
    have fst_ok: "\<forall>d \<in> set (drop n (p' @ m2)). \<exists>fs. fs_list e (join_path (fst d) (wide ''*'')) = Some (fs, True)
         \<and> subfolders d fs \<subseteq> set (p' @ m2) \<and> plain_files d fs \<subseteq> set found \<and> \<not> links fs"
      unfolding dr using A fs m1 f' C(1) by (auto intro!: exI[of _ fs])
    have B': "(\<forall>d \<in> set (m1 @ m2). folder_at e root d) \<and> (set files \<subseteq> files_at e root \<longrightarrow> set found \<subseteq> files_at e root)"
      if "\<forall>d \<in> set pending. folder_at e root d" for root
    proof -
      have d: "folder_at e root ?d" using that True by simp
      have "\<forall>d \<in> set m1. folder_at e root d" using folder_at.below[OF d fs] m1(2) by blast
      moreover have "plain_files ?d fs \<subseteq> files_at e root" unfolding files_at_def using d fs by blast
      ultimately show ?thesis using B that m1(1) f'(1) by auto
    qed
    show ?thesis unfolding Let_def
      by (rule exI[of _ "m1 @ m2"], unfold all, intro conjI fst_ok)
        (use B' C f' in \<open>auto simp: le_max_iff_disj\<close>)
  qed
qed

text \<open>An enumeration that succeeds has found exactly the files below the folder, but for the manifest
  itself, at most 256 of them; it has seen every folder to its end and there is no link in any.\<close>

theorem enumeration_is_complete:
  assumes "enumerate_package_files e root = Inr files"
  shows "set files = files_at e root \<and> length files \<le> 256
    \<and> (\<forall>d. folder_at e root d \<longrightarrow>
         (\<exists>fs. fs_list e (join_path (fst d) (wide ''*'')) = Some (fs, True) \<and> \<not> links fs))"
proof -
  from assms have r: "enumerate_loop e 0 [(root, [])] [] = Inr files" by (simp add: enumerate_package_files_def)
  from enumerate_loop_sets[OF r] obtain more where
    A: "\<forall>d \<in> set ((root, []) # more). \<exists>fs. fs_list e (join_path (fst d) (wide ''*'')) = Some (fs, True)
         \<and> subfolders d fs \<subseteq> set ((root, []) # more) \<and> plain_files d fs \<subseteq> set files \<and> \<not> links fs"
    and B: "\<forall>r. folder_at e r (root, []) \<longrightarrow> set files \<subseteq> files_at e r"
    and C: "length files \<le> kMaximumManifestEntries"
    by (auto simp: Let_def)
  have all: "d \<in> set ((root, []) # more)" if "folder_at e root d" for d
    using that
  proof induction
    case (below d fs ended d')
    from A below(4) obtain fs' where "fs_list e (join_path (fst d) (wide ''*'')) = Some (fs', True)"
      "subfolders d fs' \<subseteq> set ((root, []) # more)" by blast
    with below show ?case by auto
  qed simp
  have "files_at e root \<subseteq> set files"
  proof
    fix f assume "f \<in> files_at e root"
    then obtain d fs ended where d: "folder_at e root d" "fs_list e (join_path (fst d) (wide ''*'')) = Some (fs, ended)"
      "f \<in> plain_files d fs" unfolding files_at_def by blast
    from A all[OF d(1)] d(2,3) show "f \<in> set files" by fastforce
  qed
  moreover have "set files \<subseteq> files_at e root" using B folder_at.top[of e root] by blast
  moreover have "\<exists>fs. fs_list e (join_path (fst d) (wide ''*'')) = Some (fs, True) \<and> \<not> links fs"
    if "folder_at e root d" for d using A all[OF that] by blast
  ultimately show ?thesis using C by (simp add: kMaximumManifestEntries_def)
qed

definition small_package :: package_env where
  "small_package = \<lparr>fs_open = (\<lambda>_. None), fs_follow = (\<lambda>_. None), fs_lock = (\<lambda>_ _. None),
     fs_list = (\<lambda>pattern. if pattern = wide ''r'' @ [0x5C, 0x2A]
       then Some ([\<lparr>ff_name = wide ''.'', ff_directory = True, ff_reparse = False\<rparr>,
                   \<lparr>ff_name = wide ''d'', ff_directory = True, ff_reparse = False\<rparr>,
                   \<lparr>ff_name = wide ''sha256sums.txt'', ff_directory = False, ff_reparse = False\<rparr>], True)
       else Some ([\<lparr>ff_name = wide ''x'', ff_directory = False, ff_reparse = False\<rparr>], True)),
     fs_attributes = (\<lambda>_. None), fs_drive = (\<lambda>_. 3), fs_sha256 = (\<lambda>_. None), fs_trust = (\<lambda>_ _. (False, []))\<rparr>"

theorem enumeration_is_complete_witness:
  "[0x64, 0x5C, 0x78] \<in> files_at small_package (wide ''r'')"
proof -
  have l: "fs_list small_package [0x72, 0x5C, 0x2A] =
       Some ([\<lparr>ff_name = wide ''.'', ff_directory = True, ff_reparse = False\<rparr>,
              \<lparr>ff_name = wide ''d'', ff_directory = True, ff_reparse = False\<rparr>,
              \<lparr>ff_name = wide ''sha256sums.txt'', ff_directory = False, ff_reparse = False\<rparr>], True)"
    "fs_list small_package [0x72, 0x5C, 0x64, 0x5C, 0x2A] =
       Some ([\<lparr>ff_name = wide ''x'', ff_directory = False, ff_reparse = False\<rparr>], True)"
    by (simp_all add: small_package_def wide_def)
  have "enumerate_package_files small_package (wide ''r'') = Inr [[0x64, 0x5C, 0x78]]"
    by (simp add: enumerate_package_files_def enumerate_loop.simps[of small_package] l
        join_path_def separator_def wide_def kMaximumManifestEntries_def kManifestName_def
        wcsicmp_eq_def lower_copy_def c_str_def wlower_def Let_def)
  from enumeration_is_complete[OF this] show ?thesis by auto
qed

section \<open>The check against the manifest\<close>

record IntegrityReport =
  ir_valid :: bool
  ir_verified_files :: nat
  ir_issues :: "(wstring \<times> package_error) list"

definition failed_report :: "package_error \<Rightarrow> IntegrityReport" where
  "failed_report err = \<lparr>ir_valid = False, ir_verified_files = 0, ir_issues = [(kManifestName, err)]\<rparr>"

fun unlisted_issues :: "wstring set \<Rightarrow> wstring list \<Rightarrow> (wstring \<times> package_error) list \<Rightarrow> (wstring \<times> package_error) list" where
  "unlisted_issues keys [] issues = issues"
| "unlisted_issues keys (f # fs) issues =
     (if lower_copy f \<notin> keys then
        let issues = issues @ [(f, Unlisted)] in
        if 32 \<le> length issues then issues else unlisted_issues keys fs issues
      else unlisted_issues keys fs issues)"

definition required_files :: "wstring list" where
  "required_files =
     [wide ''FFBInterceptor.Manager.exe'', installer_name, wide ''Uninstall-SimHubPlugin.ps1'',
      wide ''FFBInterceptor.Common.ps1'',
      in_folders [''launcher'', ''x86'', ''FFBInterceptor.Launcher.exe''],
      in_folders [''launcher'', ''x86'', ''FFBInterceptor.Hook.dll''],
      in_folders [''launcher'', ''x64'', ''FFBInterceptor.Launcher.exe''],
      in_folders [''launcher'', ''x64'', ''FFBInterceptor.Hook.dll''],
      in_folders [''simhub'', ''FFBInterceptor.Core.dll''],
      in_folders [''simhub'', ''FFBInterceptor.SimHub.dll''],
      wide ''Start-FFBInterceptor.ps1'']"

definition missing_issues :: "wstring set \<Rightarrow> (wstring \<times> package_error) list" where
  "missing_issues keys = map (\<lambda>p. (p, RequiredMissing)) (filter (\<lambda>p. lower_copy p \<notin> keys) required_files)"

definition attribute_size :: "u32 \<Rightarrow> u32 \<Rightarrow> nat" where
  "attribute_size high low = unat (push_bit 32 (ucast high :: u64) OR ucast low)"

text \<open>The last loop: the total so far, the files verified and the issues.\<close>

fun verify_entries ::
  "package_env \<Rightarrow> wstring \<Rightarrow> ManifestEntry list \<Rightarrow> nat \<Rightarrow> nat \<Rightarrow> (wstring \<times> package_error) list
     \<Rightarrow> nat \<times> (wstring \<times> package_error) list" where
  "verify_entries e root [] bytes verified issues = (verified, issues)"
| "verify_entries e root (m # ms) bytes verified issues =
     (let path = me_relative_path m;
          full_path = join_path root path;
          go_on = (\<lambda>bytes verified issues.
            if 32 \<le> length issues then (verified, issues) else verify_entries e root ms bytes verified issues)
      in case fs_attributes e full_path of
           None \<Rightarrow> go_on bytes verified (issues @ [(path, NoRegularFile)])
         | Some (directory, reparse, high, low) \<Rightarrow>
             if directory \<or> reparse then go_on bytes verified (issues @ [(path, NoRegularFile)])
             else
               let file_bytes = attribute_size high low in
               if kMaximumHashedFileBytes < file_bytes \<or> kMaximumPackageBytes - file_bytes < bytes
               then (verified, issues @ [(path, PackageTooLarge)])
               else
                 let bytes = bytes + file_bytes in
                 case sha256_file e full_path root of
                   Inl err \<Rightarrow> go_on bytes verified (issues @ [(path, err)])
                 | Inr actual \<Rightarrow>
                     if \<not> wcsicmp_eq actual (me_sha256 m) then go_on bytes verified (issues @ [(path, HashDiffers)])
                     else go_on bytes (Suc verified) issues)"

definition verify_package_integrity :: "package_env \<Rightarrow> PackageLayout \<Rightarrow> IntegrityReport" where
  "verify_package_integrity e layout =
     (if pl_root layout = [] then failed_report RootMissing
      else if \<not> path_is_absolute_local (fs_drive e) (pl_root layout) then failed_report RootNotLocal
      else case read_file_limited e (pl_manifest_path layout) kMaximumManifestBytes of
        Inl err \<Rightarrow> failed_report err
      | Inr contents \<Rightarrow>
     (case parse_manifest_text contents of
        Inl err \<Rightarrow> failed_report (Manifest err)
      | Inr entries \<Rightarrow>
          let by_path = set (manifest_keys entries) in
     (case enumerate_package_files e (pl_root layout) of
        Inl err \<Rightarrow> failed_report err
      | Inr actual_files \<Rightarrow>
          if length actual_files \<noteq> length entries then failed_report NotCovered
          else
            let issues = unlisted_issues by_path actual_files [] in
            if issues \<noteq> [] then \<lparr>ir_valid = False, ir_verified_files = 0, ir_issues = issues\<rparr>
            else
              let issues = missing_issues by_path in
              if issues \<noteq> [] then \<lparr>ir_valid = False, ir_verified_files = 0, ir_issues = issues\<rparr>
              else case verify_entries e (pl_root layout) entries 0 0 [] of
                (verified, issues) \<Rightarrow>
                  \<lparr>ir_valid = (issues = [] \<and> verified = length entries),
                   ir_verified_files = verified, ir_issues = issues\<rparr>)))"

section \<open>Lemmas\<close>

lemma unlisted_issues_grow: "\<exists>more. unlisted_issues keys fs issues = issues @ more"
proof (induction fs arbitrary: issues)
  case (Cons f fs)
  from Cons[of "issues @ [(f, Unlisted)]"] Cons[of issues] show ?case by (auto simp: Let_def)
qed simp

lemma unlisted_issues_Nil: "unlisted_issues keys fs [] = [] \<longleftrightarrow> lower_copy ` set fs \<subseteq> keys"
proof (induction fs)
  case (Cons f fs)
  with unlisted_issues_grow[of keys fs "[(f, Unlisted)]"] show ?case by (auto simp: Let_def)
qed simp

lemma missing_issues_Nil: "missing_issues keys = [] \<longleftrightarrow> lower_copy ` set required_files \<subseteq> keys"
  by (auto simp: missing_issues_def filter_empty_conv)

text \<open>An entry that the disk agrees with, and the size that counts for it.\<close>

definition entry_size :: "package_env \<Rightarrow> wstring \<Rightarrow> ManifestEntry \<Rightarrow> nat option" where
  "entry_size e root m =
     (case fs_attributes e (join_path root (me_relative_path m)) of
        None \<Rightarrow> None
      | Some (directory, reparse, high, low) \<Rightarrow>
          if directory \<or> reparse then None else Some (attribute_size high low))"

definition entry_matches :: "package_env \<Rightarrow> wstring \<Rightarrow> ManifestEntry \<Rightarrow> bool" where
  "entry_matches e root m \<longleftrightarrow>
     (\<exists>n. entry_size e root m = Some n \<and> n \<le> kMaximumHashedFileBytes)
     \<and> (\<exists>d. sha256_file e (join_path root (me_relative_path m)) root = Inr d \<and> wcsicmp_eq d (me_sha256 m))"

definition total_size :: "package_env \<Rightarrow> wstring \<Rightarrow> ManifestEntry list \<Rightarrow> nat" where
  "total_size e root ms = sum_list (map (\<lambda>m. the (entry_size e root m)) ms)"

lemma verify_entries_grow:
  "\<exists>more. snd (verify_entries e root ms bytes verified issues) = issues @ more"
proof (induction ms arbitrary: bytes verified issues)
  case (Cons m ms)
  have g: "\<exists>more. snd (verify_entries e root ms t v (issues @ [x])) = issues @ more" for t v x
    using Cons[of t v "issues @ [x]"] by auto
  show ?case using Cons[of _ _ issues]
    by (auto simp: Let_def g split: option.split prod.split sum.split)
qed simp

lemma verify_entries_iff:
  assumes "bytes \<le> kMaximumPackageBytes"
  shows "verify_entries e root ms bytes v [] = (v', []) \<longleftrightarrow>
     v' = v + length ms \<and> (\<forall>m \<in> set ms. entry_matches e root m) \<and> bytes + total_size e root ms \<le> kMaximumPackageBytes"
  using assms
proof (induction ms arbitrary: bytes v)
  case (Cons m ms)
  have grown: "verify_entries e root ms t w (i # is') \<noteq> (x, [])" for t w i is' x
    using verify_entries_grow[of e root ms t w "i # is'"] by (metis Cons_eq_append_conv list.distinct(1) snd_conv append_Cons)
  show ?case
  proof (cases "entry_size e root m")
    case None
    then have "\<not> entry_matches e root m" by (simp add: entry_matches_def)
    moreover have "verify_entries e root (m # ms) bytes v [] \<noteq> (v', [])"
      using None grown by (auto simp: entry_size_def Let_def split: option.splits if_splits)
    ultimately show ?thesis by simp
  next
    case (Some n)
    then obtain high low where a: "fs_attributes e (join_path root (me_relative_path m)) = Some (False, False, high, low)"
      and n: "n = attribute_size high low"
      by (auto simp: entry_size_def split: option.splits if_splits)
    show ?thesis
    proof (cases "kMaximumHashedFileBytes < n \<or> kMaximumPackageBytes < bytes + n")
      case True
      then have "kMaximumHashedFileBytes < n \<or> kMaximumPackageBytes - n < bytes"
        by (auto simp: kMaximumHashedFileBytes_def kMaximumPackageBytes_def)
      then have "verify_entries e root (m # ms) bytes v [] \<noteq> (v', [])"
        by (simp add: a n Let_def)
      moreover have "\<not> (entry_matches e root m \<and> bytes + total_size e root (m # ms) \<le> kMaximumPackageBytes)"
        using True Some by (auto simp: entry_matches_def total_size_def)
      ultimately show ?thesis by auto
    next
      case False
      then have f: "\<not> (kMaximumHashedFileBytes < n \<or> kMaximumPackageBytes - n < bytes)" "bytes + n \<le> kMaximumPackageBytes"
        by auto
      show ?thesis
      proof (cases "entry_matches e root m")
        case True
        then obtain d where "sha256_file e (join_path root (me_relative_path m)) root = Inr d" "wcsicmp_eq d (me_sha256 m)"
          by (auto simp: entry_matches_def)
        with a n f have "verify_entries e root (m # ms) bytes v [] = verify_entries e root ms (bytes + n) (Suc v) []"
          by (simp add: Let_def)
        with Cons.IH[OF f(2)] True Some show ?thesis by (auto simp: total_size_def)
      next
        case no: False
        then have "verify_entries e root (m # ms) bytes v [] \<noteq> (v', [])"
          using a n f Some grown False
          by (auto simp: entry_matches_def Let_def split: sum.splits if_splits)
        with no show ?thesis by auto
      qed
    qed
  qed
qed (auto simp: total_size_def)

section \<open>What a valid package is\<close>

text \<open>The manifest can be read, its entries and the files on disk are as many, every file on disk is
  listed, the files that the manager needs are listed, and every listed file is a regular file of at
  most 512 MiB inside the folder with the digest of the manifest, at most 1 GiB in all.\<close>

definition exact_package :: "package_env \<Rightarrow> PackageLayout \<Rightarrow> ManifestEntry list \<Rightarrow> wstring list \<Rightarrow> bool" where
  "exact_package e layout entries files \<longleftrightarrow>
     pl_root layout \<noteq> [] \<and> path_is_absolute_local (fs_drive e) (pl_root layout)
     \<and> (\<exists>text. read_file_limited e (pl_manifest_path layout) kMaximumManifestBytes = Inr text
          \<and> parse_manifest_text text = Inr entries)
     \<and> enumerate_package_files e (pl_root layout) = Inr files
     \<and> length files = length entries
     \<and> lower_copy ` set files \<subseteq> set (manifest_keys entries)
     \<and> lower_copy ` set required_files \<subseteq> set (manifest_keys entries)
     \<and> (\<forall>m \<in> set entries. entry_matches e (pl_root layout) m)
     \<and> total_size e (pl_root layout) entries \<le> kMaximumPackageBytes"

lemma valid_package_iff:
  "ir_valid (verify_package_integrity e layout) = (\<exists>entries files. exact_package e layout entries files)"
proof -
  have "0 \<le> kMaximumPackageBytes" by simp
  note v = verify_entries_iff[OF this, where v = 0, simplified]
  have c: "ir_valid (case r of (verified, issues) \<Rightarrow>
      \<lparr>ir_valid = (issues = [] \<and> verified = n), ir_verified_files = verified, ir_issues = issues\<rparr>) \<longleftrightarrow> r = (n, [])"
    for r n by (cases r) auto
  show ?thesis
    by (auto simp: verify_package_integrity_def exact_package_def failed_report_def Let_def c v
        unlisted_issues_Nil missing_issues_Nil split: sum.splits)
qed

text \<open>C27: A package is reported valid exactly when it is what its manifest says: nothing missing, nothing
  added, nothing changed, and everything the manager needs is there.\<close>

theorem valid_packages_are_exact:
  "ir_valid (verify_package_integrity e layout) = (\<exists>entries files. exact_package e layout entries files)"
  by (rule valid_package_iff)

end
