(* ===== verification/Package_Trust.thy ===== *)
theory Package_Trust imports Package_Files begin

text \<open>
  Why a package may be run: the signatures of its programs and the lock that keeps its files as they
  were verified, \<open>evaluate_signature_policy\<close>, \<open>verify_package_signatures\<close> and
  \<open>acquire_package_read_lock\<close> of \<open>src/launcher/manager_model.cpp\<close>.  The verdict of Windows on the
  signature of a file and the thumbprint of its signer are answers of the environment.
\<close>

section \<open>Signatures\<close>

record SignatureEvidence =
  se_relative_path :: wstring
  se_trusted :: bool
  se_signer_sha256 :: wstring
  se_detail :: wstring

record SignaturePolicy =
  sp_required :: bool
  sp_expected_signer_sha256 :: wstring

datatype signature_issue = NoEvidence | BadPolicy | Untrusted wstring wstring | OtherSigner wstring | NotExpected wstring

record SignatureReport =
  sr_allowed :: bool
  sr_all_trusted :: bool
  sr_common_signer_sha256 :: wstring
  sr_issues :: "signature_issue list"

definition valid_sha256_text :: "wstring \<Rightarrow> bool" where
  "valid_sha256_text value \<longleftrightarrow> length value = 64 \<and>
     list_all (\<lambda>c. 0x30 \<le> c \<and> c \<le> 0x39 \<or> 0x61 \<le> c \<and> c \<le> 0x66 \<or> 0x41 \<le> c \<and> c \<le> 0x46) value"

definition manifest_path_requires_signature :: "wstring \<Rightarrow> bool" where
  "manifest_path_requires_signature path =
     (case find_last_of (\<lambda>c. c = dot) path of
        None \<Rightarrow> False
      | Some d \<Rightarrow> lower_copy (drop d path) \<in> {wide ''.exe'', wide ''.dll'', wide ''.ps1'', wide ''.psm1''})"

text \<open>\<open>stable_build\<close> and \<open>source\<close> are set when the program is built.\<close>

definition compile_time_signer_thumbprint :: "byte list \<Rightarrow> wstring" where
  "compile_time_signer_thumbprint source = map ucast (takeWhile (\<lambda>c. c \<noteq> 0) source)"

definition build_signature_policy :: "bool \<Rightarrow> byte list \<Rightarrow> SignaturePolicy" where
  "build_signature_policy stable_build source =
     \<lparr>sp_required = stable_build, sp_expected_signer_sha256 = map wupper (compile_time_signer_thumbprint source)\<rparr>"

fun judge_evidence ::
  "SignaturePolicy \<Rightarrow> SignatureEvidence list \<Rightarrow> bool \<Rightarrow> wstring \<Rightarrow> signature_issue list
     \<Rightarrow> bool \<times> wstring \<times> signature_issue list" where
  "judge_evidence p [] all_trusted common issues = (all_trusted, common, issues)"
| "judge_evidence p (i # items) all_trusted common issues =
     (if \<not> se_trusted i \<or> \<not> valid_sha256_text (se_signer_sha256 i)
      then judge_evidence p items False common (issues @ [Untrusted (se_relative_path i) (se_detail i)])
      else
        let signer = lower_copy (se_signer_sha256 i);
            (common, issues) =
              (if common = [] then (signer, issues)
               else if common \<noteq> signer then (common, issues @ [OtherSigner (se_relative_path i)])
               else (common, issues));
            issues =
              (if sp_expected_signer_sha256 p \<noteq> []
                 \<and> \<not> wcsicmp_eq (se_signer_sha256 i) (sp_expected_signer_sha256 p)
               then issues @ [NotExpected (se_relative_path i)] else issues)
        in judge_evidence p items all_trusted common issues)"

definition evaluate_signature_policy :: "SignaturePolicy \<Rightarrow> SignatureEvidence list \<Rightarrow> SignatureReport" where
  "evaluate_signature_policy p evidence =
     (let issues = (if evidence = [] then [NoEvidence] else [])
            @ (if sp_expected_signer_sha256 p \<noteq> [] \<and> \<not> valid_sha256_text (sp_expected_signer_sha256 p)
               then [BadPolicy] else [])
      in case judge_evidence p evidence (evidence \<noteq> []) [] issues of
        (all_trusted, common, issues) \<Rightarrow>
          \<lparr>sr_allowed = (\<not> sp_required p \<or> issues = []), sr_all_trusted = all_trusted,
           sr_common_signer_sha256 = common, sr_issues = issues\<rparr>)"

definition verify_trusted_signature :: "package_env \<Rightarrow> wstring \<Rightarrow> wstring \<Rightarrow> bool \<Rightarrow> SignatureEvidence" where
  "verify_trusted_signature e label path require_revocation =
     (if \<not> file_is_regular e path
      then \<lparr>se_relative_path = label, se_trusted = False, se_signer_sha256 = [], se_detail = []\<rparr>
      else case fs_trust e require_revocation (c_str path) of
        (ok, thumbprint) \<Rightarrow>
          let signer = (if ok then thumbprint else []) in
          \<lparr>se_relative_path = label, se_trusted = (ok \<and> signer \<noteq> []), se_signer_sha256 = signer, se_detail = []\<rparr>)"

text \<open>A path is looked at once.\<close>

definition add_evidence ::
  "package_env \<Rightarrow> bool \<Rightarrow> wstring set \<times> SignatureEvidence list \<Rightarrow> wstring \<times> wstring
     \<Rightarrow> wstring set \<times> SignatureEvidence list" where
  "add_evidence e required = (\<lambda>(seen, evidence) (label, path).
     if lower_copy path \<in> seen then (seen, evidence)
     else (insert (lower_copy path) seen, evidence @ [verify_trusted_signature e label path required]))"

definition manager_label :: wstring where "manager_label = wide ''FFBInterceptor.Manager.exe''"

definition signed_files :: "PackageLayout \<Rightarrow> ManifestEntry list \<Rightarrow> (wstring \<times> wstring) list" where
  "signed_files layout entries =
     map (\<lambda>m. (me_relative_path m, join_path (pl_root layout) (me_relative_path m)))
       (filter (\<lambda>m. manifest_path_requires_signature (me_relative_path m)) entries)"

definition read_manifest :: "package_env \<Rightarrow> PackageLayout \<Rightarrow> package_error + ManifestEntry list" where
  "read_manifest e layout =
     and_then (read_file_limited e (pl_manifest_path layout) kMaximumManifestBytes) (\<lambda>contents.
     case parse_manifest_text contents of Inl err \<Rightarrow> Inl (Manifest err) | Inr entries \<Rightarrow> Inr entries)"

definition verify_package_signatures :: "package_env \<Rightarrow> PackageLayout \<Rightarrow> wstring \<Rightarrow> SignaturePolicy \<Rightarrow> SignatureReport" where
  "verify_package_signatures e layout running_manager_path policy =
     (let start = add_evidence e (sp_required policy) ({}, []) (manager_label, running_manager_path) in
      case read_manifest e layout of
        Inl _ \<Rightarrow> evaluate_signature_policy policy (snd start
          @ [\<lparr>se_relative_path = kManifestName, se_trusted = False, se_signer_sha256 = [], se_detail = []\<rparr>])
      | Inr entries \<Rightarrow> evaluate_signature_policy policy
          (snd (foldl (add_evidence e (sp_required policy)) start (signed_files layout entries))))"

section \<open>What a satisfied policy means\<close>

definition accepted_evidence :: "SignaturePolicy \<Rightarrow> wstring \<Rightarrow> SignatureEvidence \<Rightarrow> bool" where
  "accepted_evidence p signer i \<longleftrightarrow> se_trusted i \<and> valid_sha256_text (se_signer_sha256 i)
     \<and> lower_copy (se_signer_sha256 i) = signer
     \<and> (sp_expected_signer_sha256 p \<noteq> [] \<longrightarrow> wcsicmp_eq (se_signer_sha256 i) (sp_expected_signer_sha256 p))"

lemma judge_grows: "\<exists>more. snd (snd (judge_evidence p items a c issues)) = issues @ more"
proof (induction items arbitrary: a c issues)
  case (Cons i items)
  have "\<exists>more. snd (snd (judge_evidence p items a c (issues @ new))) = issues @ more" for a c new
    using Cons[of a c "issues @ new"] by auto
  from this[of _ _ "[_]"] this[of _ _ "[_, _]"] Cons[of _ _ issues] show ?case by (auto simp: Let_def)
qed simp

lemma valid_sha256_lower: "valid_sha256_text s \<Longrightarrow> lower_copy s \<noteq> []"
  by (auto simp: valid_sha256_text_def lower_copy_def)

lemma judge_no_issues:
  "judge_evidence p items a c [] = (a', c', []) \<longleftrightarrow>
     a' = a \<and> (if items = [] then c' = c else (c = [] \<or> c' = c) \<and> c' \<noteq> []) \<and> (\<forall>i \<in> set items. accepted_evidence p c' i)"
proof (induction items arbitrary: a c)
  case (Cons i items)
  have grown: "judge_evidence p items x y (z # zs) \<noteq> (a', c', [])" for x y z zs
    using judge_grows[of p items x y "z # zs"] by (metis append_Cons list.distinct(1) snd_conv)
  show ?case
  proof (cases "se_trusted i \<and> valid_sha256_text (se_signer_sha256 i)")
    case True
    then have ne: "lower_copy (se_signer_sha256 i) \<noteq> []" by (simp add: valid_sha256_lower)
    show ?thesis using True ne Cons.IH grown
      by (auto simp: accepted_evidence_def Let_def split: if_splits)
  next
    case False
    then show ?thesis using grown by (auto simp: accepted_evidence_def)
  qed
qed auto

lemma policy_allows:
  "sp_required p \<Longrightarrow> sr_allowed (evaluate_signature_policy p evidence) \<longleftrightarrow>
     evidence \<noteq> [] \<and> (sp_expected_signer_sha256 p \<noteq> [] \<longrightarrow> valid_sha256_text (sp_expected_signer_sha256 p))
     \<and> (\<exists>signer. \<forall>i \<in> set evidence. accepted_evidence p signer i)"
proof -
  assume req: "sp_required p"
  let ?start = "(if evidence = [] then [NoEvidence] else [])
      @ (if sp_expected_signer_sha256 p \<noteq> [] \<and> \<not> valid_sha256_text (sp_expected_signer_sha256 p) then [BadPolicy] else [])"
  obtain a c is' where j: "judge_evidence p evidence (evidence \<noteq> []) [] ?start = (a, c, is')" by (metis surj_pair)
  have allowed: "sr_allowed (evaluate_signature_policy p evidence) \<longleftrightarrow> is' = []"
    using req j by (simp add: evaluate_signature_policy_def Let_def)
  show ?thesis
  proof (cases "?start = []")
    case True
    then have ev: "evidence \<noteq> []" "sp_expected_signer_sha256 p \<noteq> [] \<longrightarrow> valid_sha256_text (sp_expected_signer_sha256 p)"
      by (auto split: if_splits)
    have j0: "judge_evidence p evidence True [] [] = (a, c, is')" using j True ev(1) by simp
    have "is' = [] \<longleftrightarrow> (\<exists>signer. \<forall>i \<in> set evidence. accepted_evidence p signer i)"
    proof
      assume "is' = []"
      with j0 judge_no_issues[of p evidence True "[]" a c] show "\<exists>signer. \<forall>i \<in> set evidence. accepted_evidence p signer i"
        by auto
    next
      assume "\<exists>signer. \<forall>i \<in> set evidence. accepted_evidence p signer i"
      then obtain s where s: "\<forall>i \<in> set evidence. accepted_evidence p s i" by blast
      obtain i where "i \<in> set evidence" using ev(1) by (cases evidence) auto
      with s have "s \<noteq> []" by (auto simp: accepted_evidence_def dest: valid_sha256_lower)
      with s ev(1) judge_no_issues[of p evidence True "[]" True s] j0 show "is' = []" by auto
    qed
    with allowed ev show ?thesis by blast
  next
    case False
    then obtain z zs where z: "?start = z # zs" by (cases ?start) auto
    from judge_grows[of p evidence "evidence \<noteq> []" "[]" "?start"] j z have "is' \<noteq> []" by auto
    moreover have "evidence = [] \<or> sp_expected_signer_sha256 p \<noteq> [] \<and> \<not> valid_sha256_text (sp_expected_signer_sha256 p)"
      using False by (auto split: if_splits)
    ultimately show ?thesis using allowed by blast
  qed
qed

text \<open>A file whose signature Windows trusts, by the given signer.\<close>

definition signed_by :: "package_env \<Rightarrow> SignaturePolicy \<Rightarrow> wstring \<Rightarrow> wstring \<Rightarrow> bool" where
  "signed_by e p signer path \<longleftrightarrow> file_is_regular e path
     \<and> (\<exists>thumbprint. fs_trust e True (c_str path) = (True, thumbprint) \<and> valid_sha256_text thumbprint
          \<and> lower_copy thumbprint = signer
          \<and> (sp_expected_signer_sha256 p \<noteq> [] \<longrightarrow> wcsicmp_eq thumbprint (sp_expected_signer_sha256 p)))"

lemma accepted_signature:
  "accepted_evidence p signer (verify_trusted_signature e label path True) \<longleftrightarrow> signed_by e p signer path"
  by (auto simp: accepted_evidence_def verify_trusted_signature_def signed_by_def Let_def valid_sha256_text_def
      split: prod.splits if_splits)

lemma add_evidence_fold:
  "foldl (add_evidence e required) (seen, evidence) files = (seen', evidence') \<Longrightarrow>
     seen' = seen \<union> (lower_copy \<circ> snd) ` set files
     \<and> (\<exists>more. evidence' = evidence @ map (\<lambda>(l, p). verify_trusted_signature e l p required) more
          \<and> set more \<subseteq> set files \<and> seen' = seen \<union> (lower_copy \<circ> snd) ` set more)"
proof (induction files arbitrary: seen evidence)
  case (Cons f files)
  obtain l p where f: "f = (l, p)" by (cases f)
  show ?case
  proof (cases "lower_copy p \<in> seen")
    case True
    with Cons.prems f have "foldl (add_evidence e required) (seen, evidence) files = (seen', evidence')"
      by (simp add: add_evidence_def)
    from Cons.IH[OF this] True f show ?thesis by auto
  next
    case False
    with Cons.prems f have "foldl (add_evidence e required)
        (insert (lower_copy p) seen, evidence @ [verify_trusted_signature e l p required]) files = (seen', evidence')"
      by (simp add: add_evidence_def)
    from Cons.IH[OF this] obtain more where "seen' = insert (lower_copy p) seen \<union> (lower_copy \<circ> snd) ` set files"
      "evidence' = evidence @ map (\<lambda>(l, p). verify_trusted_signature e l p required) (f # more)"
      "set more \<subseteq> set files" "seen' = insert (lower_copy p) seen \<union> (lower_copy \<circ> snd) ` set more"
      using f by auto
    then have "seen' = seen \<union> (lower_copy \<circ> snd) ` set (f # files)"
      "evidence' = evidence @ map (\<lambda>(l, p). verify_trusted_signature e l p required) (f # more)"
      "set (f # more) \<subseteq> set (f # files)" "seen' = seen \<union> (lower_copy \<circ> snd) ` set (f # more)"
      unfolding f by (simp_all add: subset_insertI2)
    then show ?thesis by blast
  qed
qed auto

lemma accepted_package_signed:
  assumes "sp_required policy" and "sr_allowed (verify_package_signatures e layout manager policy)"
  shows "\<exists>entries signer. read_manifest e layout = Inr entries
    \<and> (sp_expected_signer_sha256 policy \<noteq> [] \<longrightarrow> valid_sha256_text (sp_expected_signer_sha256 policy))
    \<and> (\<forall>path \<in> insert manager (snd ` set (signed_files layout entries)).
         \<exists>p. lower_copy p = lower_copy path \<and> signed_by e policy signer p)"
proof -
  let ?start = "({lower_copy manager}, [verify_trusted_signature e manager_label manager True])"
  have start: "add_evidence e (sp_required policy) ({}, []) (manager_label, manager) = ?start"
    using assms(1) by (simp add: add_evidence_def)
  show ?thesis
  proof (cases "read_manifest e layout")
    case (Inl err)
    with assms start have False
      by (auto simp: verify_package_signatures_def policy_allows accepted_evidence_def)
    then show ?thesis ..
  next
    case (Inr entries)
    let ?files = "signed_files layout entries"
    obtain seen evidence where fo: "foldl (add_evidence e True) ?start ?files = (seen, evidence)" by (metis surj_pair)
    from add_evidence_fold[OF fo] obtain more where
      seen: "seen = {lower_copy manager} \<union> (lower_copy \<circ> snd) ` set ?files"
      and ev: "evidence = map (\<lambda>(l, p). verify_trusted_signature e l p True) ((manager_label, manager) # more)"
      and seen2: "seen = {lower_copy manager} \<union> (lower_copy \<circ> snd) ` set more" by auto
    from assms Inr start fo have "sr_allowed (evaluate_signature_policy policy evidence)"
      by (simp add: verify_package_signatures_def)
    then obtain signer where ok: "\<forall>i \<in> set evidence. accepted_evidence policy signer i"
      and pol: "sp_expected_signer_sha256 policy \<noteq> [] \<longrightarrow> valid_sha256_text (sp_expected_signer_sha256 policy)"
      by (auto simp: policy_allows[OF assms(1)])
    have "signed_by e policy signer p" if "p \<in> insert manager (snd ` set more)" for p
      using ok that accepted_signature[of policy signer e] unfolding ev by auto
    moreover have "\<exists>p \<in> insert manager (snd ` set more). lower_copy p = lower_copy path"
      if "path \<in> insert manager (snd ` set ?files)" for path
    proof -
      have "lower_copy path \<in> seen" using that seen by auto
      then have "lower_copy path \<in> lower_copy ` insert manager (snd ` set more)"
        unfolding seen2 by (simp add: image_image comp_def)
      then obtain p where "lower_copy path = lower_copy p" "p \<in> insert manager (snd ` set more)" by (rule imageE)
      then show ?thesis by (intro bexI[of _ p]) simp_all
    qed
    ultimately show ?thesis using Inr pol by meson
  qed
qed

text \<open>C28: When a build that requires signatures accepts a package, the manifest is readable and one signer,
  the expected one if the build names one, has signed the running manager and every program, library
  and script that the manifest lists: of each of these paths, or of one that differs from it only in
  case, Windows trusts the signature.\<close>

theorem accepted_packages_are_signed:
  assumes "sp_required policy" and "sr_allowed (verify_package_signatures e layout manager policy)"
  shows "\<exists>entries signer. read_manifest e layout = Inr entries
    \<and> (sp_expected_signer_sha256 policy \<noteq> [] \<longrightarrow> valid_sha256_text (sp_expected_signer_sha256 policy))
    \<and> (\<forall>path \<in> insert manager (snd ` set (signed_files layout entries)).
         \<exists>p. lower_copy p = lower_copy path \<and> signed_by e policy signer p)"
  using assms by (rule accepted_package_signed)

section \<open>The read lock\<close>

text \<open>The handles are the paths they were opened by.  A path is locked when it can be opened so that
  others only read it, is of the kind asked for and no link, and resolves to a place within the locked
  root; the root itself must resolve to a local path.\<close>

record read_lock =
  rl_handles :: "(wstring \<times> bool) list"
  rl_root :: wstring

definition lock_path ::
  "package_env \<Rightarrow> wstring \<Rightarrow> bool \<Rightarrow> bool \<Rightarrow> read_lock \<Rightarrow> package_error + read_lock" where
  "lock_path e path directory require_within_root s =
     and_then (or_fail (fs_lock e (c_str path) directory) (LockFailed path)) (\<lambda>f.
     and_then (require (\<not> wf_reparse f \<and> wf_directory f = directory) (WrongKind path)) (\<lambda>_.
     and_then (or_fail (final_path_for_handle f) (Unresolved path)) (\<lambda>final_path.
     and_then (if require_within_root
               then require (rl_root s \<noteq> [] \<and> path_within_or_equal final_path (rl_root s)) OutsideRoot
               else require (path_is_absolute_local (fs_drive e) final_path) RootNotLocal) (\<lambda>_.
     Inr (s\<lparr>rl_handles := rl_handles s @ [(path, directory)],
            rl_root := (if require_within_root then rl_root s else final_path)\<rparr>)))))"

text \<open>The folders of a relative path, from the outside in.\<close>

definition folder_prefixes :: "wstring \<Rightarrow> wstring list" where
  "folder_prefixes path = map (\<lambda>i. take i path) (filter (\<lambda>i. path ! i = 0x5C) [0..<length path])"

fun lock_folders ::
  "package_env \<Rightarrow> wstring \<Rightarrow> wstring list \<Rightarrow> wstring set \<Rightarrow> read_lock \<Rightarrow> package_error + wstring set \<times> read_lock" where
  "lock_folders e root [] locked s = Inr (locked, s)"
| "lock_folders e root (d # ds) locked s =
     (if lower_copy d \<in> locked then lock_folders e root ds locked s
      else case lock_path e (join_path root d) True True s of
        Inl err \<Rightarrow> Inl err
      | Inr s \<Rightarrow> lock_folders e root ds (insert (lower_copy d) locked) s)"

fun lock_entries ::
  "package_env \<Rightarrow> wstring \<Rightarrow> ManifestEntry list \<Rightarrow> wstring set \<Rightarrow> read_lock \<Rightarrow> package_error + read_lock" where
  "lock_entries e root [] locked s = Inr s"
| "lock_entries e root (m # ms) locked s =
     (case lock_folders e root (folder_prefixes (me_relative_path m)) locked s of
        Inl err \<Rightarrow> Inl err
      | Inr (locked, s) \<Rightarrow>
          (case lock_path e (join_path root (me_relative_path m)) False True s of
             Inl err \<Rightarrow> Inl err
           | Inr s \<Rightarrow> lock_entries e root ms locked s))"

definition lock_package :: "package_env \<Rightarrow> PackageLayout \<Rightarrow> package_error + read_lock" where
  "lock_package e layout =
     and_then (lock_path e (pl_root layout) True False \<lparr>rl_handles = [], rl_root = []\<rparr>) (\<lambda>s.
     and_then (lock_path e (pl_manifest_path layout) False True s) (\<lambda>s.
     and_then (read_manifest e layout) (\<lambda>entries.
     lock_entries e (pl_root layout) entries {} s)))"

text \<open>The outcome, and the handles that the lock holds afterwards; it was given the old ones.\<close>

definition acquire_package_read_lock ::
  "package_env \<Rightarrow> PackageLayout \<Rightarrow> (wstring \<times> bool) list \<Rightarrow> package_error option \<times> (wstring \<times> bool) list" where
  "acquire_package_read_lock e layout old =
     (if \<not> path_is_absolute_local (fs_drive e) (pl_root layout) then (Some RootNotLocal, old)
      else case lock_package e layout of
        Inl err \<Rightarrow> (Some err, [])
      | Inr s \<Rightarrow> (None, rl_handles s))"

text \<open>What a lock keeps: a path of the package, within the root, that cannot be replaced.\<close>

definition held :: "package_env \<Rightarrow> wstring \<Rightarrow> wstring \<times> bool \<Rightarrow> bool" where
  "held e root = (\<lambda>(path, directory). \<exists>f final. fs_lock e (c_str path) directory = Some f
     \<and> \<not> wf_reparse f \<and> wf_directory f = directory \<and> final_path_for_handle f = Some final
     \<and> path_within_or_equal final root)"

lemma lock_path_Inr:
  "lock_path e path d w s = Inr s' \<Longrightarrow>
     rl_handles s' = rl_handles s @ [(path, d)] \<and> (w \<longrightarrow> rl_root s' = rl_root s) \<and> held e (rl_root s') (path, d)"
  by (auto simp: lock_path_def held_def result path_within_or_equal_def split: if_splits)

lemma lock_folders_Inr:
  "lock_folders e root ds locked s = Inr (locked', s') \<Longrightarrow>
     rl_root s' = rl_root s \<and> locked' = locked \<union> lower_copy ` set ds
     \<and> (\<exists>more. rl_handles s' = rl_handles s @ map (\<lambda>d. (join_path root d, True)) more
          \<and> set more \<subseteq> set ds \<and> locked' = locked \<union> lower_copy ` set more
          \<and> (\<forall>d \<in> set more. held e (rl_root s) (join_path root d, True)))"
proof (induction ds arbitrary: locked s)
  case (Cons d ds)
  show ?case
  proof (cases "lower_copy d \<in> locked")
    case True
    with Cons.prems have "lock_folders e root ds locked s = Inr (locked', s')" by simp
    from Cons.IH[OF this] True show ?thesis by (auto intro: subset_insertI2)
  next
    case False
    with Cons.prems obtain s1 where l: "lock_path e (join_path root d) True True s = Inr s1"
      and r: "lock_folders e root ds (insert (lower_copy d) locked) s1 = Inr (locked', s')"
      by (auto split: sum.splits)
    from Cons.IH[OF r] lock_path_Inr[OF l] obtain more where
      "rl_root s' = rl_root s" "locked' = insert (lower_copy d) locked \<union> lower_copy ` set ds"
      "rl_handles s' = rl_handles s @ map (\<lambda>d. (join_path root d, True)) (d # more)" "set more \<subseteq> set ds"
      "locked' = insert (lower_copy d) locked \<union> lower_copy ` set more"
      "\<forall>d \<in> set (d # more). held e (rl_root s) (join_path root d, True)" by auto
    then have "rl_root s' = rl_root s \<and> locked' = locked \<union> lower_copy ` set (d # ds)
        \<and> rl_handles s' = rl_handles s @ map (\<lambda>d. (join_path root d, True)) (d # more)
        \<and> set (d # more) \<subseteq> set (d # ds) \<and> locked' = locked \<union> lower_copy ` set (d # more)
        \<and> (\<forall>d \<in> set (d # more). held e (rl_root s) (join_path root d, True))"
      by (simp add: subset_insertI2)
    then show ?thesis by blast
  qed
qed auto

lemma lock_entries_Inr:
  "lock_entries e root ms locked s = Inr s' \<Longrightarrow>
     rl_root s' = rl_root s
     \<and> (\<exists>more. rl_handles s' = rl_handles s @ more \<and> (\<forall>h \<in> set more. held e (rl_root s) h)
          \<and> (\<forall>m \<in> set ms. (join_path root (me_relative_path m), False) \<in> set more
               \<and> (\<forall>d \<in> set (folder_prefixes (me_relative_path m)). lower_copy d \<in> locked
                    \<or> (\<exists>d'. lower_copy d' = lower_copy d \<and> (join_path root d', True) \<in> set more))))"
proof (induction ms arbitrary: locked s)
  case (Cons m ms)
  let ?p = "me_relative_path m"
  from Cons.prems obtain locked1 s1 s2 where f: "lock_folders e root (folder_prefixes ?p) locked s = Inr (locked1, s1)"
    and l: "lock_path e (join_path root ?p) False True s1 = Inr s2"
    and r: "lock_entries e root ms locked1 s2 = Inr s'"
    by (auto split: sum.splits)
  from lock_folders_Inr[OF f] obtain ds where f': "rl_root s1 = rl_root s"
    "rl_handles s1 = rl_handles s @ map (\<lambda>d. (join_path root d, True)) ds"
    "locked1 = locked \<union> lower_copy ` set (folder_prefixes ?p)" "locked1 = locked \<union> lower_copy ` set ds"
    "\<forall>d \<in> set ds. held e (rl_root s) (join_path root d, True)" by blast
  note l' = lock_path_Inr[OF l]
  from Cons.IH[OF r] obtain more where r': "rl_root s' = rl_root s2" "rl_handles s' = rl_handles s2 @ more"
    "\<forall>h \<in> set more. held e (rl_root s2) h"
    and ms: "\<forall>m \<in> set ms. (join_path root (me_relative_path m), False) \<in> set more
       \<and> (\<forall>d \<in> set (folder_prefixes (me_relative_path m)). lower_copy d \<in> locked1
            \<or> (\<exists>d'. lower_copy d' = lower_copy d \<and> (join_path root d', True) \<in> set more))" by blast
  let ?all = "map (\<lambda>d. (join_path root d, True)) ds @ (join_path root ?p, False) # more"
  have known: "lower_copy d \<in> locked \<or> (\<exists>d'. lower_copy d' = lower_copy d \<and> (join_path root d', True) \<in> set ?all)"
    if "lower_copy d \<in> locked1" for d
  proof (cases "lower_copy d \<in> locked")
    case False
    with that f'(4) obtain d' where "d' \<in> set ds" "lower_copy d = lower_copy d'" by auto
    then show ?thesis by (intro disjI2 exI[of _ d']) simp
  qed simp
  have root: "rl_root s2 = rl_root s" using f' l' by simp
  have a: "rl_handles s' = rl_handles s @ ?all" using f' l' r' by simp
  have b: "\<forall>h \<in> set ?all. held e (rl_root s) h" using f'(5) l' r'(3) root by auto
  have c: "(join_path root (me_relative_path n), False) \<in> set ?all" if "n \<in> set (m # ms)" for n
    using that ms by auto
  have d: "lower_copy d \<in> locked \<or> (\<exists>d'. lower_copy d' = lower_copy d \<and> (join_path root d', True) \<in> set ?all)"
    if "n \<in> set (m # ms)" "d \<in> set (folder_prefixes (me_relative_path n))" for n d
  proof (cases "n = m")
    case True
    with that(2) f'(3) have "lower_copy d \<in> locked1" by auto
    then show ?thesis by (rule known)
  next
    case False
    with that ms have "lower_copy d \<in> locked1 \<or> (\<exists>d'. lower_copy d' = lower_copy d \<and> (join_path root d', True) \<in> set more)"
      by auto
    then show ?thesis
    proof
      assume "lower_copy d \<in> locked1"
      then show ?thesis by (rule known)
    qed auto
  qed
  show ?case
    by (rule conjI, simp only: r'(1) root, rule exI[of _ ?all], intro conjI a b ballI c d)
qed auto

lemma acquired_lock_complete:
  assumes "acquire_package_read_lock e layout old = (err, handles)"
  shows "(err = None \<longrightarrow> (\<exists>entries final. read_manifest e layout = Inr entries
       \<and> path_is_absolute_local (fs_drive e) final \<and> (\<forall>h \<in> set handles. held e final h)
       \<and> (pl_root layout, True) \<in> set handles \<and> (pl_manifest_path layout, False) \<in> set handles
       \<and> (\<forall>m \<in> set entries. (join_path (pl_root layout) (me_relative_path m), False) \<in> set handles
            \<and> (\<forall>d \<in> set (folder_prefixes (me_relative_path m)).
                 \<exists>d'. lower_copy d' = lower_copy d \<and> (join_path (pl_root layout) d', True) \<in> set handles))))
   \<and> (err \<noteq> None \<longrightarrow> handles = [] \<or> \<not> path_is_absolute_local (fs_drive e) (pl_root layout) \<and> handles = old)"
proof (intro conjI impI)
  assume "err = None"
  with assms obtain s where "lock_package e layout = Inr s" and h: "handles = rl_handles s"
    by (auto simp: acquire_package_read_lock_def split: if_splits sum.splits)
  then obtain s1 s2 entries where
    1: "lock_path e (pl_root layout) True False \<lparr>rl_handles = [], rl_root = []\<rparr> = Inr s1"
    and 2: "lock_path e (pl_manifest_path layout) False True s1 = Inr s2"
    and m: "read_manifest e layout = Inr entries"
    and 3: "lock_entries e (pl_root layout) entries {} s2 = Inr s"
    by (auto simp: lock_package_def result)
  have final: "path_is_absolute_local (fs_drive e) (rl_root s1)" using 1 by (auto simp: lock_path_def result)
  from lock_entries_Inr[OF 3] obtain more where more: "rl_handles s = rl_handles s2 @ more"
    "\<forall>h \<in> set more. held e (rl_root s2) h"
    and ms: "\<forall>m \<in> set entries. (join_path (pl_root layout) (me_relative_path m), False) \<in> set more
       \<and> (\<forall>d \<in> set (folder_prefixes (me_relative_path m)).
            \<exists>d'. lower_copy d' = lower_copy d \<and> (join_path (pl_root layout) d', True) \<in> set more)" by auto
  have "rl_handles s = (pl_root layout, True) # (pl_manifest_path layout, False) # more" "rl_root s2 = rl_root s1"
    using lock_path_Inr[OF 1] lock_path_Inr[OF 2] more(1) by simp_all
  moreover have "held e (rl_root s1) (pl_root layout, True)" "held e (rl_root s1) (pl_manifest_path layout, False)"
    using lock_path_Inr[OF 1] lock_path_Inr[OF 2] by metis+
  ultimately have "\<forall>h \<in> set handles. held e (rl_root s1) h" "(pl_root layout, True) \<in> set handles"
    "(pl_manifest_path layout, False) \<in> set handles" "set more \<subseteq> set handles"
    using more(2) h by auto
  with m final ms show "\<exists>entries final. read_manifest e layout = Inr entries
       \<and> path_is_absolute_local (fs_drive e) final \<and> (\<forall>h \<in> set handles. held e final h)
       \<and> (pl_root layout, True) \<in> set handles \<and> (pl_manifest_path layout, False) \<in> set handles
       \<and> (\<forall>m \<in> set entries. (join_path (pl_root layout) (me_relative_path m), False) \<in> set handles
            \<and> (\<forall>d \<in> set (folder_prefixes (me_relative_path m)).
                 \<exists>d'. lower_copy d' = lower_copy d \<and> (join_path (pl_root layout) d', True) \<in> set handles))"
    by blast
next
  assume "err \<noteq> None"
  with assms show "handles = [] \<or> \<not> path_is_absolute_local (fs_drive e) (pl_root layout) \<and> handles = old"
    by (auto simp: acquire_package_read_lock_def split: if_splits sum.splits)
qed

text \<open>C29: A package is locked completely or not at all.  After a success the lock holds the root, the
  manifest, every file that the manifest lists and every folder on the way to one (up to case), each of
  them opened so that it cannot be replaced, no link, and inside the local folder that the root
  resolves to.  After a failure it holds nothing, or what it held before when the root was refused.\<close>

theorem package_lock_is_complete:
  assumes "acquire_package_read_lock e layout old = (err, handles)"
  shows "(err = None \<longrightarrow> (\<exists>entries final. read_manifest e layout = Inr entries
       \<and> path_is_absolute_local (fs_drive e) final \<and> (\<forall>h \<in> set handles. held e final h)
       \<and> (pl_root layout, True) \<in> set handles \<and> (pl_manifest_path layout, False) \<in> set handles
       \<and> (\<forall>m \<in> set entries. (join_path (pl_root layout) (me_relative_path m), False) \<in> set handles
            \<and> (\<forall>d \<in> set (folder_prefixes (me_relative_path m)).
                 \<exists>d'. lower_copy d' = lower_copy d \<and> (join_path (pl_root layout) d', True) \<in> set handles))))
   \<and> (err \<noteq> None \<longrightarrow> handles = [] \<or> \<not> path_is_absolute_local (fs_drive e) (pl_root layout) \<and> handles = old)"
  using assms by (rule acquired_lock_complete)

section \<open>A package\<close>

definition package_root :: wstring where "package_root = [0x43, 0x3A, 0x5C, 0x70]"

definition sample_entries :: "ManifestEntry list" where
  "sample_entries = [\<lparr>me_relative_path = [0x62, 0x5C] @ wide ''a.exe'', me_sha256 = replicate 64 0x41\<rparr>]"

definition sample_package :: package_env where
  "sample_package =
     (let f = \<lambda>d p. Some \<lparr>wf_directory = d, wf_reparse = False, wf_required = 100, wf_final = p,
            wf_size_known = True, wf_readable = True, wf_content = print_manifest sample_entries\<rparr>
      in \<lparr>fs_open = f False, fs_follow = f True, fs_lock = (\<lambda>p d. f d p), fs_list = (\<lambda>_. None),
          fs_attributes = (\<lambda>_. None), fs_drive = (\<lambda>_. 3), fs_sha256 = (\<lambda>_. None),
          fs_trust = (\<lambda>_ _. (True, replicate 64 0x41))\<rparr>)"

lemma sample_entries_ok: "manifest_ok sample_entries"
  by (simp add: manifest_ok_def manifest_keys_def entry_ok_def sample_entries_def upper_hex_def safe_path_def
      kMaximumManifestEntries_def wide_def narrow_def list_all_iff normalize_manifest_path_def path_separator_def
      flush_segment_def device_name_def reserved_device_def allowed_character_def toupper_def ascii_def)

lemma sample_manifest: "read_manifest sample_package (make_package_layout package_root) = Inr sample_entries"
proof -
  have "length (print_manifest sample_entries) \<le> 1091 * 1"
    using length_print_manifest[of sample_entries] sample_entries_ok by (simp add: manifest_ok_def sample_entries_def)
  then have l: "length (print_manifest sample_entries) \<le> kMaximumManifestBytes" by (simp add: kMaximumManifestBytes_def)
  have o: "open_regular_file sample_package p = Some \<lparr>wf_directory = False, wf_reparse = False, wf_required = 100,
      wf_final = c_str p, wf_size_known = True, wf_readable = True, wf_content = print_manifest sample_entries\<rparr>" for p
    by (simp add: open_regular_file_def sample_package_def Let_def)
  show ?thesis
    by (simp add: read_manifest_def read_file_limited_def o or_fail_def require_def l
        parse_print_manifest[OF sample_entries_ok])
qed

definition sample_policy :: SignaturePolicy where
  "sample_policy = \<lparr>sp_required = True, sp_expected_signer_sha256 = []\<rparr>"

lemma sample_evidence:
  "verify_trusted_signature sample_package l p True =
     \<lparr>se_relative_path = l, se_trusted = True, se_signer_sha256 = replicate 64 0x41, se_detail = []\<rparr>"
  by (simp add: verify_trusted_signature_def file_is_regular_def open_regular_file_def sample_package_def Let_def)

lemma sample_accepted:
  "accepted_evidence sample_policy (replicate 64 0x61) (verify_trusted_signature sample_package l p True)"
proof -
  have "valid_sha256_text (replicate 64 0x41)" by (simp add: valid_sha256_text_def list_all_iff)
  moreover have "lower_copy (replicate 64 0x41) = replicate 64 0x61" by (simp add: lower_copy_def wlower_def)
  ultimately show ?thesis unfolding sample_evidence by (simp add: accepted_evidence_def sample_policy_def)
qed

theorem accepted_packages_are_signed_witness:
  "\<exists>signer p. signed_by sample_package sample_policy signer p"
proof -
  let ?layout = "make_package_layout package_root"
  let ?start = "({lower_copy package_root}, [verify_trusted_signature sample_package manager_label package_root True])"
  obtain seen ev where f: "foldl (add_evidence sample_package True) ?start (signed_files ?layout sample_entries) = (seen, ev)"
    by (cases "foldl (add_evidence sample_package True) ?start (signed_files ?layout sample_entries)")
  from add_evidence_fold[OF f] obtain more where
    ev: "ev = map (\<lambda>(l, p). verify_trusted_signature sample_package l p True) ((manager_label, package_root) # more)"
    by auto
  have "accepted_evidence sample_policy (replicate 64 0x61) i" if "i \<in> set ev" for i
    using that sample_accepted unfolding ev by auto
  moreover have "ev \<noteq> []" by (simp add: ev)
  moreover have req: "sp_required sample_policy" "sp_expected_signer_sha256 sample_policy = []"
    by (simp_all add: sample_policy_def)
  ultimately have allowed: "sr_allowed (evaluate_signature_policy sample_policy ev)"
    unfolding policy_allows[OF req(1)] by blast
  have "add_evidence sample_package True ({}, []) (manager_label, package_root) = ?start"
    by (simp add: add_evidence_def)
  with f allowed req have "sr_allowed (verify_package_signatures sample_package ?layout package_root sample_policy)"
    by (simp only: verify_package_signatures_def sample_manifest sum.case Let_def simp_thms snd_conv)
  from accepted_packages_are_signed[OF req(1) this] show ?thesis by blast
qed

lemma sample_final:
  "final_path_for_handle \<lparr>wf_directory = d, wf_reparse = False, wf_required = 100, wf_final = 0x43 # p,
     wf_size_known = True, wf_readable = True, wf_content = c\<rparr> = (if length p < 100 then Some (0x43 # p) else None)"
  by (simp add: final_path_for_handle_def strip_extended_prefix_def starts_with_def wide_def)

theorem package_lock_is_complete_witness:
  "\<exists>handles. acquire_package_read_lock sample_package (make_package_layout package_root) [] = (None, handles)
     \<and> (pl_root (make_package_layout package_root), True) \<in> set handles"
proof -
  have l: "fs_lock sample_package p d = Some \<lparr>wf_directory = d, wf_reparse = False, wf_required = 100,
      wf_final = p, wf_size_known = True, wf_readable = True, wf_content = print_manifest sample_entries\<rparr>" for p d
    by (simp add: sample_package_def Let_def)
  have dr: "fs_drive sample_package = (\<lambda>_. 3)" by (simp add: sample_package_def Let_def)
  let ?layout = "make_package_layout package_root"
  let ?entry = "[0x62, 0x5C] @ wide ''a.exe'' :: wstring"
  have p: "folder_prefixes ?entry = [[0x62]]"
    by (simp add: folder_prefixes_def wide_def upt_rec)
  have r: "pl_root ?layout = package_root" "pl_manifest_path ?layout = join_path package_root kManifestName"
    by (simp_all add: make_package_layout_def)
  have lo: "lock_path sample_package (join_path package_root q) d True \<lparr>rl_handles = h, rl_root = package_root\<rparr>
      = Inr \<lparr>rl_handles = h @ [(join_path package_root q, d)], rl_root = package_root\<rparr>"
    if "q \<in> {kManifestName, ?entry, [0x62]}" for q d h
    using that
    by (auto simp: lock_path_def l or_fail_def require_def package_root_def join_path_def separator_def kManifestName_def
        wide_def c_str_def sample_final path_within_or_equal_def wcsicmp_eq_def lower_copy_def wlower_def
        starts_with_case_insensitive_def without_trailing_separators_def wcsnicmp_eq_def)
  have ro: "lock_path sample_package package_root True False \<lparr>rl_handles = [], rl_root = []\<rparr>
      = Inr \<lparr>rl_handles = [(package_root, True)], rl_root = package_root\<rparr>"
    by (simp add: lock_path_def l dr or_fail_def require_def package_root_def c_str_def sample_final path_is_absolute_local_def)
  have "path_is_absolute_local (fs_drive sample_package) package_root"
    by (simp add: dr package_root_def path_is_absolute_local_def)
  then obtain handles where "acquire_package_read_lock sample_package ?layout [] = (None, handles)"
    using lo p by (simp add: acquire_package_read_lock_def lock_package_def sample_manifest r ro sample_entries_def)
  with package_lock_is_complete[OF this] show ?thesis by auto
qed

end
