(* ===== verification/Elevated_Request.thy ===== *)
theory Elevated_Request imports Package_Trust Command_Line begin

text \<open>
  How the manager asks its elevated helper for an installation: the event that the two share and the
  fixed grammar of the arguments, \<open>manager_invocation_event_name_is_valid\<close> and
  \<open>parse_elevated_plugin_request\<close> of \<open>src/launcher/manager_model.cpp\<close>, and
  \<open>create_manager_invocation_event\<close>, the arguments of \<open>run_script\<close> and the start of \<open>wWinMain\<close> of
  \<open>src/launcher/manager_main.cpp\<close>.
\<close>

section \<open>The shared event\<close>

definition kManagerInvocationEventPrefix :: wstring where
  "kManagerInvocationEventPrefix = wide ''Local'' @ 0x5C # wide ''FFBInterceptor.ManagerElevation.v1.''"

definition manager_invocation_event_name_is_valid :: "wstring \<Rightarrow> bool" where
  "manager_invocation_event_name_is_valid name \<longleftrightarrow>
     length name = length kManagerInvocationEventPrefix + 64
     \<and> take (length kManagerInvocationEventPrefix) name = kManagerInvocationEventPrefix
     \<and> list_all upper_hex (drop (length kManagerInvocationEventPrefix) name)"

text \<open>An attempt: the random bytes, whether the event could be created and whether it existed.\<close>

record event_attempt =
  ea_entropy :: "byte list option"
  ea_created :: bool
  ea_existed :: bool

datatype event_error = NoDescriptor | NoEntropy | NoUniqueEvent

fun event_attempts :: "nat \<Rightarrow> (nat \<Rightarrow> event_attempt) \<Rightarrow> event_error + wstring" where
  "event_attempts 0 attempts = Inl NoUniqueEvent"
| "event_attempts (Suc n) attempts =
     (case ea_entropy (attempts n) of
        None \<Rightarrow> Inl NoEntropy
      | Some entropy \<Rightarrow>
          if ea_created (attempts n) \<and> \<not> ea_existed (attempts n)
          then Inr (kManagerInvocationEventPrefix @ bytes_to_hex entropy)
          else event_attempts n attempts)"

text \<open>\<open>attempts\<close> is indexed by the number of attempts that are left.\<close>

definition create_manager_invocation_event :: "bool \<Rightarrow> (nat \<Rightarrow> event_attempt) \<Rightarrow> event_error + wstring" where
  "create_manager_invocation_event descriptor attempts =
     (if \<not> descriptor then Inl NoDescriptor else event_attempts 4 attempts)"

section \<open>The request\<close>

datatype ElevatedPluginOperation = InstallOperation | UninstallOperation

record ElevatedPluginRequest =
  er_operation :: ElevatedPluginOperation
  er_manager_invocation_event :: wstring
  er_simhub_install_path :: wstring

datatype ElevatedPluginParseResult = NotRequested | Valid ElevatedPluginRequest | Invalid

definition kElevatedPluginOperationSwitch :: wstring where
  "kElevatedPluginOperationSwitch = wide ''--elevated-plugin-op''"
definition kManagerInvocationEventSwitch :: wstring where
  "kManagerInvocationEventSwitch = wide ''--manager-invocation-event''"
definition kSimHubInstallPathSwitch :: wstring where
  "kSimHubInstallPathSwitch = wide ''--simhub-install-path''"

definition parse_elevated_plugin_request :: "(wchar \<Rightarrow> nat) \<Rightarrow> wstring list \<Rightarrow> ElevatedPluginParseResult" where
  "parse_elevated_plugin_request drive arguments =
     (if arguments = [] \<or> arguments ! 0 \<noteq> kElevatedPluginOperationSwitch then NotRequested
      else if \<not> ((length arguments = 4 \<or> length arguments = 6)
        \<and> arguments ! 2 = kManagerInvocationEventSwitch
        \<and> manager_invocation_event_name_is_valid (arguments ! 3)) then Invalid
      else if arguments ! 1 = wide ''install'' then
        (if length arguments = 6 then
           (if arguments ! 4 \<noteq> kSimHubInstallPathSwitch \<or> \<not> path_is_absolute_local drive (arguments ! 5) then Invalid
            else Valid \<lparr>er_operation = InstallOperation, er_manager_invocation_event = arguments ! 3,
                   er_simhub_install_path = arguments ! 5\<rparr>)
         else Valid \<lparr>er_operation = InstallOperation, er_manager_invocation_event = arguments ! 3,
                er_simhub_install_path = []\<rparr>)
      else if arguments ! 1 = wide ''uninstall'' \<and> length arguments = 4 then
        Valid \<lparr>er_operation = UninstallOperation, er_manager_invocation_event = arguments ! 3,
          er_simhub_install_path = []\<rparr>
      else Invalid)"

text \<open>The arguments that \<open>run_script\<close> of the manager writes.\<close>

definition helper_arguments :: "ElevatedPluginOperation \<Rightarrow> wstring \<Rightarrow> wstring \<Rightarrow> wstring list" where
  "helper_arguments op event_name simhub_path =
     [kElevatedPluginOperationSwitch, (if op = InstallOperation then wide ''install'' else wide ''uninstall''),
      kManagerInvocationEventSwitch, event_name]
     @ (if simhub_path \<noteq> [] \<and> op = InstallOperation then [kSimHubInstallPathSwitch, simhub_path] else [])"

text \<open>Where \<open>wWinMain\<close> goes: it fails, it runs the helper, or it opens the window.\<close>

datatype start = ExitWith nat | RunHelper ElevatedPluginRequest | OpenWindow

definition wWinMain_start :: "(wchar \<Rightarrow> nat) \<Rightarrow> wstring list option \<Rightarrow> bool \<Rightarrow> start" where
  "wWinMain_start drive argv mutex_is_new =
     (case argv of
        None \<Rightarrow> ExitWith 1
      | Some [] \<Rightarrow> ExitWith 1
      | Some (_ # arguments) \<Rightarrow>
          (case parse_elevated_plugin_request drive arguments of
             Invalid \<Rightarrow> ExitWith 1
           | Valid request \<Rightarrow> RunHelper request
           | NotRequested \<Rightarrow> if \<not> mutex_is_new then ExitWith 1 else OpenWindow))"

section \<open>Lemmas\<close>

lemma hex_digit_upper: "n < 16 \<Longrightarrow> upper_hex (hex_digit n)"
proof -
  assume "n < 16"
  then have "n \<in> set [0..<16]" by simp
  moreover have "list_all (\<lambda>n. upper_hex (hex_digit n)) [0..<16]"
    by (simp add: upt_rec hex_digit_def upper_hex_def wide_def)
  ultimately show ?thesis by (simp add: list_all_iff)
qed

lemma bytes_to_hex_upper: "list_all upper_hex (bytes_to_hex bs)" and length_bytes_to_hex: "length (bytes_to_hex bs) = 2 * length bs"
proof -
  have "unat (drop_bit 4 b) < 16" "unat (b AND 0x0F) < 16" for b :: byte
  proof -
    have "unat b < 256" using unsigned_less[of b, where ?'a = nat] by simp
    then show "unat (drop_bit 4 b) < 16" by (simp add: unsigned_drop_bit_eq drop_bit_eq_div[where ?'a = nat] take_bit_nat_eq_self)
    have "b AND 0x0F = take_bit 4 b" by (simp add: take_bit_eq_mask mask_eq_exp_minus_1)
    then show "unat (b AND 0x0F) < 16" by (simp add: unsigned_take_bit_eq take_bit_eq_mod[where ?'a = nat])
  qed
  then show "list_all upper_hex (bytes_to_hex bs)" "length (bytes_to_hex bs) = 2 * length bs"
    by (induction bs) (auto simp: bytes_to_hex_def hex_digit_upper)
qed

lemma created_event_valid:
  "event_attempts n attempts = Inr name \<Longrightarrow> (\<forall>i bs. ea_entropy (attempts i) = Some bs \<longrightarrow> length bs = 32) \<Longrightarrow>
     manager_invocation_event_name_is_valid name"
  by (induction n) (auto simp: manager_invocation_event_name_is_valid_def bytes_to_hex_upper length_bytes_to_hex
      split: option.splits if_splits)

lemma helper_arguments_parse:
  assumes "manager_invocation_event_name_is_valid event_name"
  shows "parse_elevated_plugin_request drive (helper_arguments op event_name path) =
    (if op = UninstallOperation then Valid \<lparr>er_operation = op, er_manager_invocation_event = event_name, er_simhub_install_path = []\<rparr>
     else if path = [] \<or> path_is_absolute_local drive path
     then Valid \<lparr>er_operation = op, er_manager_invocation_event = event_name, er_simhub_install_path = path\<rparr>
     else Invalid)"
  using assms
  by (cases op) (simp_all add: parse_elevated_plugin_request_def helper_arguments_def wide_def)

lemma parse_only_helper_arguments:
  assumes "parse_elevated_plugin_request drive arguments = Valid r"
  shows "arguments = helper_arguments (er_operation r) (er_manager_invocation_event r) (er_simhub_install_path r)
    \<and> manager_invocation_event_name_is_valid (er_manager_invocation_event r)
    \<and> (er_simhub_install_path r \<noteq> [] \<longrightarrow> er_operation r = InstallOperation \<and> path_is_absolute_local drive (er_simhub_install_path r))"
proof -
  consider a b c d where "arguments = [a, b, c, d]" | a b c d e f where "arguments = [a, b, c, d, e, f]"
    using assms by (auto simp: parse_elevated_plugin_request_def numeral_eq_Suc length_Suc_conv split: if_splits)
  then show ?thesis
    using assms
    by cases (auto simp: parse_elevated_plugin_request_def helper_arguments_def path_is_absolute_local_def split: if_splits)
qed

lemma requests_are_exact:
  "(parse_elevated_plugin_request drive arguments = Valid r) =
     (arguments = helper_arguments (er_operation r) (er_manager_invocation_event r) (er_simhub_install_path r)
      \<and> manager_invocation_event_name_is_valid (er_manager_invocation_event r)
      \<and> (er_simhub_install_path r = [] \<or> er_operation r = InstallOperation
           \<and> path_is_absolute_local drive (er_simhub_install_path r)))"
  (is "?parsed = ?exact")
proof
  assume ?exact
  then show ?parsed
    using helper_arguments_parse[of "er_manager_invocation_event r" drive "er_operation r" "er_simhub_install_path r"]
    by (cases "er_operation r") auto
qed (use parse_only_helper_arguments in blast)

text \<open>\<open>ShellExecuteEx\<close> starts the program with its quoted path, a blank and the parameters.\<close>

definition started_command_line :: "wstring \<Rightarrow> wstring \<Rightarrow> wstring" where
  "started_command_line executable parameters = quote_argument executable @ 0x20 # parameters"

lemma started_arguments:
  assumes "file_path executable" and "build_parameter_text (a # as) = Some parameters"
  shows "split_command_line (started_command_line executable parameters) = executable # a # as"
  using parameter_text_first[OF assms(2)] split_quoted[OF assms(1), of "a # as"]
  by (simp add: started_command_line_def)

section \<open>The property\<close>

lemma sample_parameters:
  "build_parameter_text (helper_arguments UninstallOperation (kManagerInvocationEventPrefix @ bytes_to_hex (replicate 32 0)) []) \<noteq> None"
proof -
  let ?name = "kManagerInvocationEventPrefix @ bytes_to_hex (replicate 32 0)"
  have n: "length (bytes_to_hex (replicate 32 0)) = 64" by (simp add: length_bytes_to_hex)
  have "length (quote_argument ?name) \<le> 2 * length ?name + 2"
    using length_quote_rest[of 0 ?name] by (auto simp: quote_argument_eq)
  also have "length ?name = 105" using n by (simp add: kManagerInvocationEventPrefix_def)
  finally have "length (quote_argument ?name) \<le> 212" by simp
  then show ?thesis
    by (simp add: build_parameter_text_def helper_arguments_def kElevatedPluginOperationSwitch_def
        kManagerInvocationEventSwitch_def quote_command_argument_same Let_def quote_argument_eq needs_no_quotes_wide)
qed

text \<open>C30: The helper does what the manager asked for, and only what a manager can ask for.  Its parser
  accepts exactly the argument lists that the manager writes for an installation, with no path or a
  local one, or for an uninstallation, under the name of an event of 64 upper case digits; and when the
  manager has created its event and handed its parameters to Windows, the program that is started runs
  as the helper with the operation, the event and the path that were asked for.\<close>

theorem helper_requests_are_exact:
  assumes "create_manager_invocation_event True attempts = Inr event_name"
    and "\<forall>i bs. ea_entropy (attempts i) = Some bs \<longrightarrow> length bs = 32"
    and "path = [] \<or> path_is_absolute_local drive path" and "file_path executable"
    and "build_parameter_text (helper_arguments op event_name path) = Some parameters"
  shows "wWinMain_start drive (Some (split_command_line (started_command_line executable parameters))) new
      = RunHelper \<lparr>er_operation = op, er_manager_invocation_event = event_name,
          er_simhub_install_path = (if op = InstallOperation then path else [])\<rparr>
    \<and> (\<forall>arguments r. (parse_elevated_plugin_request drive arguments = Valid r) =
        (arguments = helper_arguments (er_operation r) (er_manager_invocation_event r) (er_simhub_install_path r)
         \<and> manager_invocation_event_name_is_valid (er_manager_invocation_event r)
         \<and> (er_simhub_install_path r = [] \<or> er_operation r = InstallOperation
              \<and> path_is_absolute_local drive (er_simhub_install_path r))))"
proof -
  have v: "manager_invocation_event_name_is_valid event_name"
    using assms(1,2) by (auto simp: create_manager_invocation_event_def intro: created_event_valid)
  obtain a as where h: "helper_arguments op event_name path = a # as" by (simp add: helper_arguments_def)
  then have "split_command_line (started_command_line executable parameters)
      = executable # helper_arguments op event_name path"
    using started_arguments[OF assms(4), of a as parameters] assms(5) by simp
  then have "wWinMain_start drive (Some (split_command_line (started_command_line executable parameters))) new
      = RunHelper \<lparr>er_operation = op, er_manager_invocation_event = event_name,
          er_simhub_install_path = (if op = InstallOperation then path else [])\<rparr>"
    using assms(3) by (cases op) (auto simp: wWinMain_start_def helper_arguments_parse[OF v])
  then show ?thesis using requests_are_exact by blast
qed

theorem helper_requests_are_exact_witness:
  "\<exists>event_name parameters. wWinMain_start (\<lambda>_. 3)
      (Some (split_command_line (started_command_line [0x6D] parameters))) True
     = RunHelper \<lparr>er_operation = UninstallOperation, er_manager_invocation_event = event_name, er_simhub_install_path = []\<rparr>"
proof -
  let ?attempts = "\<lambda>_. \<lparr>ea_entropy = Some (replicate 32 0), ea_created = True, ea_existed = False\<rparr>"
  let ?name = "kManagerInvocationEventPrefix @ bytes_to_hex (replicate 32 0)"
  have c: "create_manager_invocation_event True ?attempts = Inr ?name"
    by (simp add: create_manager_invocation_event_def numeral_eq_Suc)
  have e: "\<forall>i bs. ea_entropy (?attempts i) = Some bs \<longrightarrow> length bs = 32" by simp
  have f: "file_path [0x6D]" by (simp add: file_path_def dquote_def backslash_def)
  obtain parameters where "build_parameter_text (helper_arguments UninstallOperation ?name []) = Some parameters"
    using sample_parameters by blast
  from helper_requests_are_exact[where path = "[]" and drive = "\<lambda>_. 3", OF c e _ f this, of True]
  show ?thesis by auto
qed

end
