(* ===== verification/Elevated_Helper.thy ===== *)
theory Elevated_Helper imports Elevated_Request "HOL-Library.List_Lexorder" begin

text \<open>
  The elevated helper: the inbox PowerShell and the fresh environment it is given,
  \<open>locate_system_windows_powershell\<close> and \<open>build_sanitized_powershell_environment\<close> of
  \<open>src/launcher/manager_model.cpp\<close>, and \<open>run_sanitized_system_power_shell\<close> and
  \<open>run_elevated_plugin_operation\<close> of \<open>src/launcher/manager_main.cpp\<close>.
\<close>

section \<open>What Windows says of the system\<close>

datatype known_folder =
  FolderProfile | FolderLocalAppData | FolderProgramData | FolderProgramFiles
  | FolderRoamingAppData | FolderProgramFilesX86 | FolderProgramFilesX64

record system_env =
  sy_files :: package_env
  sy_system_directory :: wstring
  sy_windows_directory :: wstring
  sy_folder :: "known_folder \<Rightarrow> wstring option"

datatype helper_error =
    NoSystemDirectory | SystemNotLocal | SystemNotVerified | NoPowerShell | PowerShellElsewhere
  | WrongPowerShell | SystemMismatch | NoKnownFolder | BadVariable | EnvironmentTooLong
  | CommandTooLong | ShellNotStarted | NoExitCode

section \<open>The inbox PowerShell\<close>

definition power_shell_relative :: wstring where
  "power_shell_relative = in_folders [''WindowsPowerShell'', ''v1.0'', ''powershell.exe'']"

definition locate_system_windows_powershell :: "system_env \<Rightarrow> helper_error + wstring" where
  "locate_system_windows_powershell y =
     (let e = sy_files y; system_directory = sy_system_directory y in
      and_then (require (system_directory \<noteq> [] \<and> length system_directory < 32768) NoSystemDirectory) (\<lambda>_.
      and_then (require (path_is_absolute_local (fs_drive e) system_directory) SystemNotLocal) (\<lambda>_.
      and_then (or_fail (fs_open e (c_str system_directory)) SystemNotVerified) (\<lambda>d.
      and_then (require (\<not> wf_reparse d \<and> wf_directory d) SystemNotVerified) (\<lambda>_.
      and_then (or_fail (final_path_for_handle d) SystemNotVerified) (\<lambda>final_directory.
      and_then (or_fail (open_regular_file e (join_path system_directory power_shell_relative)) NoPowerShell) (\<lambda>x.
      and_then (or_fail (final_path_for_handle x) NoPowerShell) (\<lambda>final_executable.
      and_then (require (wcsicmp_eq final_executable (join_path final_directory power_shell_relative))
                  PowerShellElsewhere) (\<lambda>_.
      Inr final_executable)))))))))"

section \<open>Its environment\<close>

type_synonym environment = "(wstring \<times> wstring) list"

text \<open>\<open>EnvironmentNameLess\<close>, and the map that it orders.\<close>

definition name_less :: "wstring \<Rightarrow> wstring \<Rightarrow> bool" where
  "name_less left right \<longleftrightarrow> lower_copy (c_str left) < lower_copy (c_str right)"

fun env_set :: "wstring \<Rightarrow> wstring \<Rightarrow> environment \<Rightarrow> environment" where
  "env_set name v [] = [(name, v)]"
| "env_set name v ((n, w) # rest) =
     (if name_less n name then (n, w) # env_set name v rest
      else if name_less name n then (name, v) # (n, w) # rest
      else (n, v) # rest)"

definition add_environment_value :: "wstring \<Rightarrow> wstring \<Rightarrow> environment \<Rightarrow> environment option" where
  "add_environment_value name v vars =
     (if name = [] \<or> v = [] \<or> 0x3D \<in> set name \<or> 0 \<in> set name \<or> 0 \<in> set v then None
      else Some (env_set name v vars))"

fun add_environment_values :: "(wstring \<times> wstring) list \<Rightarrow> environment \<Rightarrow> environment option" where
  "add_environment_values [] vars = Some vars"
| "add_environment_values ((name, v) # others) vars =
     (case add_environment_value name v vars of
        None \<Rightarrow> None
      | Some vars \<Rightarrow> add_environment_values others vars)"

definition get_known_folder_path :: "system_env \<Rightarrow> known_folder \<Rightarrow> wstring option" where
  "get_known_folder_path y folder =
     (case sy_folder y folder of
        None \<Rightarrow> None
      | Some path \<Rightarrow>
          if path \<noteq> [] \<and> path_is_absolute_local (fs_drive (sy_files y)) path then Some path else None)"

definition get_windows_directory_path :: "system_env \<Rightarrow> wstring option" where
  "get_windows_directory_path y =
     (let path = sy_windows_directory y in
      if path = [] \<or> 32768 \<le> length path then None
      else if path_is_absolute_local (fs_drive (sy_files y)) path then Some path else None)"

text \<open>A variable that is set when Windows knows the folder; a refused value is left out.\<close>

definition optional_value :: "system_env \<Rightarrow> wstring \<Rightarrow> known_folder \<Rightarrow> environment \<Rightarrow> environment" where
  "optional_value y name folder vars =
     (case get_known_folder_path y folder of
        None \<Rightarrow> vars
      | Some path \<Rightarrow> (case add_environment_value name path vars of None \<Rightarrow> vars | Some vars \<Rightarrow> vars))"

definition environment_block :: "environment \<Rightarrow> wstring" where
  "environment_block vars = concat (map (\<lambda>(n, v). n @ [0x3D] @ v @ [0]) vars) @ [0]"

definition sanitized_values :: "system_env \<Rightarrow> wstring \<Rightarrow> helper_error + environment" where
  "sanitized_values y power_shell =
     and_then (case locate_system_windows_powershell y of
                 Inl e \<Rightarrow> Inl e
               | Inr verified \<Rightarrow> if wcsicmp_eq power_shell verified then Inr verified else Inl WrongPowerShell) (\<lambda>verified.
     let power_shell_home = parent_path verified;
         system_directory = parent_path (parent_path power_shell_home) in
     and_then (require (power_shell_home \<noteq> [] \<and> system_directory \<noteq> []) SystemMismatch) (\<lambda>_.
     and_then (or_fail (get_windows_directory_path y) SystemMismatch) (\<lambda>windows_directory.
     and_then (require (wcsicmp_eq (parent_path system_directory) windows_directory) SystemMismatch) (\<lambda>_.
     and_then (or_fail (get_known_folder_path y FolderProfile) NoKnownFolder) (\<lambda>profile.
     and_then (or_fail (get_known_folder_path y FolderLocalAppData) NoKnownFolder) (\<lambda>local_app_data.
     and_then (or_fail (get_known_folder_path y FolderProgramData) NoKnownFolder) (\<lambda>program_data.
     and_then (or_fail (get_known_folder_path y FolderProgramFiles) NoKnownFolder) (\<lambda>program_files.
     let temporary = join_path local_app_data (wide ''Temp'');
         module_path = join_path power_shell_home (wide ''Modules'') in
     and_then (or_fail (add_environment_values
         [(wide ''SystemRoot'', windows_directory), (wide ''WINDIR'', windows_directory),
          (wide ''Path'', system_directory @ [0x3B] @ windows_directory), (wide ''PSModulePath'', module_path),
          (wide ''USERPROFILE'', profile), (wide ''LOCALAPPDATA'', local_app_data),
          (wide ''ProgramData'', program_data), (wide ''ProgramFiles'', program_files),
          (wide ''TEMP'', temporary), (wide ''TMP'', temporary)] []) BadVariable) (\<lambda>vars.
     Inr (optional_value y (wide ''ProgramW6432'') FolderProgramFilesX64
           (optional_value y (wide ''ProgramFiles(x86)'') FolderProgramFilesX86
             (optional_value y (wide ''APPDATA'') FolderRoamingAppData vars))))))))))))"

definition build_sanitized_powershell_environment :: "system_env \<Rightarrow> wstring \<Rightarrow> helper_error + wstring" where
  "build_sanitized_powershell_environment y power_shell =
     and_then (sanitized_values y power_shell) (\<lambda>vars.
     let required = 1 + sum_list (map (\<lambda>(n, v). length n + 1 + length v + 1) vars) in
     and_then (require (required \<le> 32767) EnvironmentTooLong) (\<lambda>_.
     Inr (environment_block vars)))"

text \<open>How Windows and the program that is started read a block.\<close>

fun read_block :: "nat \<Rightarrow> wstring \<Rightarrow> environment option" where
  "read_block 0 block = None"
| "read_block (Suc n) [] = None"
| "read_block (Suc n) (c # cs) =
     (if c = 0 then Some []
      else
        let entry = takeWhile (\<lambda>c. c \<noteq> 0) (c # cs); rest = drop (length entry + 1) (c # cs);
            name = takeWhile (\<lambda>c. c \<noteq> 0x3D) entry
        in map_option ((#) (name, drop (length name + 1) entry)) (read_block n rest))"

section \<open>Lemmas on environments\<close>

definition variable_ok :: "wstring \<times> wstring \<Rightarrow> bool" where
  "variable_ok = (\<lambda>(n, v). n \<noteq> [] \<and> 0x3D \<notin> set n \<and> 0 \<notin> set n \<and> 0 \<notin> set v)"

definition environment_ok :: "environment \<Rightarrow> bool" where
  "environment_ok vars \<longleftrightarrow> list_all variable_ok vars \<and> sorted_wrt (\<lambda>a b. name_less (fst a) (fst b)) vars"

lemma name_less_trans: "name_less a b \<Longrightarrow> name_less b c \<Longrightarrow> name_less a c"
  by (simp add: name_less_def)

lemma name_less_key: "lower_copy (c_str a) = lower_copy (c_str b) \<Longrightarrow> name_less a c = name_less b c \<and> name_less c a = name_less c b"
  by (simp add: name_less_def)

lemma name_less_total: "\<not> name_less a b \<Longrightarrow> \<not> name_less b a \<Longrightarrow> wcsicmp_eq a b"
  by (simp add: name_less_def wcsicmp_eq_def)

lemma env_set_names: "fst ` set (env_set name v vars) \<subseteq> insert name (fst ` set vars)"
  by (induction name v vars rule: env_set.induct) auto

lemma env_set_ok:
  assumes "environment_ok vars" and "variable_ok (name, v)"
  shows "environment_ok (env_set name v vars)"
  using assms
proof (induction name v vars rule: env_set.induct)
  case (2 name v n w rest)
  have rest: "environment_ok rest" using 2(2) by (simp add: environment_ok_def)
  have head: "variable_ok (n, w)" "\<forall>x \<in> set rest. name_less n (fst x)"
    using 2(2) by (auto simp: environment_ok_def)
  show ?case
  proof (cases "name_less n name")
    case True
    have "name_less n (fst x)" if "x \<in> set (env_set name v rest)" for x
    proof -
      have "fst x \<in> insert name (fst ` set rest)" using that env_set_names[of name v rest] by auto
      then show ?thesis using True head(2) by auto
    qed
    with 2(1)[OF True rest 2(3)] True head(1) show ?thesis by (simp add: environment_ok_def)
  next
    case False
    then show ?thesis using 2(2,3) head
      by (auto simp: environment_ok_def variable_ok_def intro: name_less_trans)
  qed
qed (simp add: environment_ok_def)

lemma add_values_ok:
  "add_environment_values others vars = Some vars' \<Longrightarrow> environment_ok vars \<Longrightarrow> environment_ok vars'"
proof (induction others vars rule: add_environment_values.induct)
  case (2 name v others vars)
  then obtain vars1 where a: "add_environment_value name v vars = Some vars1"
    and r: "add_environment_values others vars1 = Some vars'" by (auto split: option.splits)
  have "environment_ok vars1" using a 2(3)
    by (auto simp: add_environment_value_def variable_ok_def intro!: env_set_ok split: if_splits)
  with 2(1)[OF a r] show ?case .
qed simp

lemma optional_value_ok: "environment_ok vars \<Longrightarrow> environment_ok (optional_value y name folder vars)"
  by (auto simp: optional_value_def add_environment_value_def variable_ok_def intro!: env_set_ok split: option.split)

text \<open>The names of a map of variables, in lower case, and the value of one.\<close>

definition lookup_variable :: "wstring \<Rightarrow> environment \<Rightarrow> wstring option" where
  "lookup_variable name vars = map_option snd (find (\<lambda>(n, v). wcsicmp_eq n name) vars)"

lemma wcsicmp_not_less: "wcsicmp_eq a b \<Longrightarrow> \<not> name_less a b \<and> \<not> name_less b a"
  by (simp add: name_less_def wcsicmp_eq_def)

lemma lookup_env_set:
  "lookup_variable x (env_set name v vars) = (if wcsicmp_eq name x then Some v else lookup_variable x vars)"
  if "environment_ok vars"
  using that
proof (induction name v vars rule: env_set.induct)
  case (1 name v)
  then show ?case by (simp add: lookup_variable_def)
next
  case (2 name v n w rest)
  have rest: "environment_ok rest" and less: "\<forall>y \<in> set rest. name_less n (fst y)"
    using 2(2) by (auto simp: environment_ok_def)
  consider (after) "name_less n name" | (before) "\<not> name_less n name" "name_less name n"
    | (same) "\<not> name_less n name" "\<not> name_less name n" by blast
  then show ?case
  proof cases
    case after
    then have "wcsicmp_eq n x \<Longrightarrow> \<not> wcsicmp_eq name x"
      by (auto simp: name_less_def wcsicmp_eq_def)
    with 2(1)[OF after rest] after show ?thesis by (auto simp: lookup_variable_def)
  next
    case before
    then show ?thesis by (simp add: lookup_variable_def)
  next
    case same
    then have "wcsicmp_eq n x = wcsicmp_eq name x" using name_less_total[of n name] by (auto simp: wcsicmp_eq_def)
    with same show ?thesis by (simp add: lookup_variable_def)
  qed
qed

lemma read_block_entry:
  assumes "variable_ok (n, v)"
  shows "read_block (Suc k) (n @ [0x3D] @ v @ [0] @ rest) = map_option ((#) (n, v)) (read_block k rest)"
proof -
  obtain c cs where n: "n = c # cs" "c \<noteq> 0" using assms by (cases n) (auto simp: variable_ok_def)
  have tw: "takeWhile P (xs @ y # zs) = xs" if "\<forall>x \<in> set xs. P x" "\<not> P y" for P and xs zs :: wstring and y
    using that by (induction xs) auto
  have e: "takeWhile (\<lambda>c. c \<noteq> 0) (n @ [0x3D] @ v @ [0] @ rest) = n @ [0x3D] @ v"
  proof -
    have "takeWhile (\<lambda>c. c \<noteq> 0) ((n @ [0x3D] @ v) @ 0 # rest) = n @ [0x3D] @ v"
      by (rule tw) (use assms in \<open>auto simp: variable_ok_def\<close>)
    then show ?thesis by simp
  qed
  have m: "takeWhile (\<lambda>c. c \<noteq> 0x3D) (n @ [0x3D] @ v) = n"
  proof -
    have "takeWhile (\<lambda>c. c \<noteq> 0x3D) (n @ 0x3D # v) = n"
      by (rule tw) (use assms in \<open>auto simp: variable_ok_def\<close>)
    then show ?thesis by simp
  qed
  have b: "read_block (Suc k) s = (
      let entry = takeWhile (\<lambda>c. c \<noteq> 0) s; rest = drop (length entry + 1) s; name = takeWhile (\<lambda>c. c \<noteq> 0x3D) entry
      in map_option ((#) (name, drop (length name + 1) entry)) (read_block k rest))" if "s \<noteq> []" "hd s \<noteq> 0" for s
    using that by (cases s) (simp_all add: Let_def)
  have d: "drop (length (n @ [0x3D] @ v) + 1) (n @ [0x3D] @ v @ [0] @ rest) = rest"
    "drop (length n + 1) (n @ [0x3D] @ v) = v" by simp_all
  have s: "n @ [0x3D] @ v @ [0] @ rest \<noteq> []" "hd (n @ [0x3D] @ v @ [0] @ rest) \<noteq> 0" using n by simp_all
  show ?thesis by (simp only: b[OF s] Let_def e m d)
qed

lemma read_environment_block:
  "list_all variable_ok vars \<Longrightarrow> length vars < k \<Longrightarrow> read_block k (environment_block vars) = Some vars"
proof (induction vars arbitrary: k)
  case Nil
  then show ?case by (cases k) (simp_all add: environment_block_def)
next
  case (Cons x vars)
  obtain n v where x: "x = (n, v)" by (cases x)
  from Cons.prems obtain j where k: "k = Suc j" "length vars < j" by (cases k) auto
  have "environment_block (x # vars) = n @ [0x3D] @ v @ [0] @ environment_block vars"
    by (simp add: environment_block_def x)
  with Cons.IH[of j] Cons.prems k read_block_entry[of n v j "environment_block vars"] x
  show ?case by simp
qed

lemma length_environment_block:
  "length (environment_block vars) = 1 + sum_list (map (\<lambda>(n, v). length n + 1 + length v + 1) vars)"
  by (induction vars) (auto simp: environment_block_def split: prod.splits)

lemma add_values_lookup:
  "add_environment_values others vars = Some vars' \<Longrightarrow> environment_ok vars \<Longrightarrow>
     lookup_variable x vars' = foldl (\<lambda>r (n, v). if wcsicmp_eq n x then Some v else r) (lookup_variable x vars) others"
proof (induction others vars rule: add_environment_values.induct)
  case (2 name v others vars)
  then obtain vars1 where a: "add_environment_value name v vars = Some vars1"
    and r: "add_environment_values others vars1 = Some vars'" by (auto split: option.splits)
  have e: "vars1 = env_set name v vars" "variable_ok (name, v)"
    using a by (auto simp: add_environment_value_def variable_ok_def split: if_splits)
  with 2(3) have "environment_ok vars1" by (simp add: env_set_ok)
  from 2(1)[OF a r this] e 2(3) show ?case by (simp add: lookup_env_set)
qed simp

lemma add_values_names:
  "add_environment_values others vars = Some vars' \<Longrightarrow> fst ` set vars' \<subseteq> fst ` set others \<union> fst ` set vars"
proof (induction others vars rule: add_environment_values.induct)
  case (2 name v others vars)
  then obtain vars1 where a: "add_environment_value name v vars = Some vars1"
    and r: "add_environment_values others vars1 = Some vars'" by (auto split: option.splits)
  have "fst ` set vars1 \<subseteq> insert name (fst ` set vars)"
    using a env_set_names[of name v vars] by (auto simp: add_environment_value_def split: if_splits)
  with 2(1)[OF a r] show ?case by auto
qed simp

lemma optional_value_names: "fst ` set (optional_value y name folder vars) \<subseteq> insert name (fst ` set vars)"
  using env_set_names[of name _ vars]
  by (auto simp: optional_value_def add_environment_value_def split: option.splits)

lemma optional_names:
  "fst ` set vars \<subseteq> A \<Longrightarrow> name \<in> A \<Longrightarrow> fst ` set (optional_value y name folder vars) \<subseteq> A"
  using optional_value_names[of y name folder vars] by blast

lemma optional_value_lookup:
  "environment_ok vars \<Longrightarrow> \<not> wcsicmp_eq name x \<Longrightarrow>
     lookup_variable x (optional_value y name folder vars) = lookup_variable x vars"
  by (auto simp: optional_value_def add_environment_value_def lookup_env_set split: option.split)

definition variable_names :: "wstring set" where
  "variable_names = {wide ''SystemRoot'', wide ''WINDIR'', wide ''Path'', wide ''PSModulePath'', wide ''USERPROFILE'',
     wide ''LOCALAPPDATA'', wide ''ProgramData'', wide ''ProgramFiles'', wide ''TEMP'', wide ''TMP'', wide ''APPDATA'',
     wide ''ProgramFiles(x86)'', wide ''ProgramW6432''}"

text \<open>The values for the shell: it searches for programs and modules only in the folders of Windows.\<close>

definition fixed_environment :: "system_env \<Rightarrow> wstring \<Rightarrow> environment \<Rightarrow> bool" where
  "fixed_environment y shell vars \<longleftrightarrow>
     environment_ok vars \<and> fst ` set vars \<subseteq> variable_names
     \<and> (\<exists>windows. get_windows_directory_path y = Some windows
          \<and> wcsicmp_eq (parent_path (parent_path (parent_path (parent_path shell)))) windows
          \<and> lookup_variable (wide ''SystemRoot'') vars = Some windows
          \<and> lookup_variable (wide ''Path'') vars = Some (parent_path (parent_path (parent_path shell)) @ [0x3B] @ windows)
          \<and> lookup_variable (wide ''PSModulePath'') vars = Some (join_path (parent_path shell) (wide ''Modules''))
          \<and> lookup_variable (wide ''USERPROFILE'') vars = get_known_folder_path y FolderProfile)"

lemma different_names:
  "\<not> wcsicmp_eq (wide n) x"
  if "x \<in> {wide ''SystemRoot'', wide ''Path'', wide ''PSModulePath'', wide ''USERPROFILE''}"
    and "n \<in> {''APPDATA'', ''ProgramFiles(x86)'', ''ProgramW6432''}"
  using that by (elim insertE emptyE) (simp_all add: wcsicmp_eq_def lower_copy_def c_str_def wlower_def wide_def)

lemma sanitized_values_fixed:
  assumes "sanitized_values y power_shell = Inr vars"
  obtains shell where "locate_system_windows_powershell y = Inr shell" "wcsicmp_eq power_shell shell"
    "fixed_environment y shell vars"
proof -
  from assms obtain shell windows profile local data files vars1 where
    l: "locate_system_windows_powershell y = Inr shell" "wcsicmp_eq power_shell shell"
    and w: "get_windows_directory_path y = Some windows"
      "wcsicmp_eq (parent_path (parent_path (parent_path (parent_path shell)))) windows"
    and p: "get_known_folder_path y FolderProfile = Some profile"
    and a: "add_environment_values
         [(wide ''SystemRoot'', windows), (wide ''WINDIR'', windows),
          (wide ''Path'', parent_path (parent_path (parent_path shell)) @ [0x3B] @ windows),
          (wide ''PSModulePath'', join_path (parent_path shell) (wide ''Modules'')),
          (wide ''USERPROFILE'', profile), (wide ''LOCALAPPDATA'', local),
          (wide ''ProgramData'', data), (wide ''ProgramFiles'', files),
          (wide ''TEMP'', join_path local (wide ''Temp'')), (wide ''TMP'', join_path local (wide ''Temp''))] [] = Some vars1"
    and v: "vars = optional_value y (wide ''ProgramW6432'') FolderProgramFilesX64
           (optional_value y (wide ''ProgramFiles(x86)'') FolderProgramFilesX86
             (optional_value y (wide ''APPDATA'') FolderRoamingAppData vars1))"
    by (auto simp: sanitized_values_def result Let_def simp del: add_environment_values.simps
        split: sum.splits if_splits)
  have e: "environment_ok []" by (simp add: environment_ok_def)
  have ok1: "environment_ok vars1" by (rule add_values_ok[OF a e])
  then have ok: "environment_ok vars" unfolding v by (intro optional_value_ok)
  have "fst ` set vars1 \<subseteq> variable_names" using add_values_names[OF a] by (auto simp: variable_names_def)
  then have names: "fst ` set vars \<subseteq> variable_names"
    unfolding v by (intro optional_names) (simp_all add: variable_names_def)
  have look: "lookup_variable x vars = lookup_variable x vars1"
    if "x \<in> {wide ''SystemRoot'', wide ''Path'', wide ''PSModulePath'', wide ''USERPROFILE''}" for x
    unfolding v using ok1 different_names[OF that]
    by (simp add: optional_value_lookup optional_value_ok)
  note l1 = add_values_lookup[OF a e]
  have "lookup_variable (wide ''SystemRoot'') vars1 = Some windows"
    "lookup_variable (wide ''Path'') vars1 = Some (parent_path (parent_path (parent_path shell)) @ [0x3B] @ windows)"
    "lookup_variable (wide ''PSModulePath'') vars1 = Some (join_path (parent_path shell) (wide ''Modules''))"
    "lookup_variable (wide ''USERPROFILE'') vars1 = Some profile"
    by (simp_all add: l1 wcsicmp_eq_def lower_copy_def c_str_def wlower_def wide_def split del: if_split)
  then have "lookup_variable (wide ''SystemRoot'') vars = Some windows"
    "lookup_variable (wide ''Path'') vars = Some (parent_path (parent_path (parent_path shell)) @ [0x3B] @ windows)"
    "lookup_variable (wide ''PSModulePath'') vars = Some (join_path (parent_path shell) (wide ''Modules''))"
    "lookup_variable (wide ''USERPROFILE'') vars = Some profile"
    by (simp_all add: look)
  with ok names w p have "fixed_environment y shell vars" by (simp add: fixed_environment_def)
  with that l show thesis by blast
qed

lemma block_is_fresh:
  assumes "build_sanitized_powershell_environment y power_shell = Inr block"
  shows "\<exists>shell vars. locate_system_windows_powershell y = Inr shell \<and> wcsicmp_eq power_shell shell
     \<and> length block \<le> 32767 \<and> read_block (length block) block = Some vars \<and> fixed_environment y shell vars"
proof -
  from assms obtain vars where s: "sanitized_values y power_shell = Inr vars" and b: "block = environment_block vars"
    and len: "1 + sum_list (map (\<lambda>(n, v). length n + 1 + length v + 1) vars) \<le> 32767"
    by (auto simp: build_sanitized_powershell_environment_def result Let_def)
  from sanitized_values_fixed[OF s] obtain shell where sh: "locate_system_windows_powershell y = Inr shell"
    "wcsicmp_eq power_shell shell" and f: "fixed_environment y shell vars" by blast
  have ok: "list_all variable_ok vars" using f by (simp add: fixed_environment_def environment_ok_def)
  have "length vars \<le> sum_list (map (\<lambda>(n, v). length n + 1 + length v + 1) vars)" by (induction vars) auto
  then have "length vars < length block" by (simp add: b length_environment_block)
  with ok have "read_block (length block) block = Some vars" unfolding b by (rule read_environment_block)
  moreover have "length block \<le> 32767" using len by (simp add: b length_environment_block)
  ultimately show ?thesis using sh f by blast
qed

text \<open>The shell that installs gets a fresh environment.  The block that is built for a shell is built
  for the inbox PowerShell only; it is at most 32767 characters long and, read as Windows reads it, is
  a list of variables sorted by name, each once, all among thirteen names; the search paths for
  programs and modules are folders of Windows, whatever environment the manager itself was started in.\<close>

theorem shell_environment_is_fresh:
  assumes "build_sanitized_powershell_environment y power_shell = Inr block"
  shows "\<exists>shell vars. locate_system_windows_powershell y = Inr shell \<and> wcsicmp_eq power_shell shell
     \<and> length block \<le> 32767 \<and> read_block (length block) block = Some vars \<and> fixed_environment y shell vars"
  using assms by (rule block_is_fresh)

section \<open>A system\<close>

definition sample_windows :: wstring where "sample_windows = wide ''C:'' @ [0x5C, 0x57]"
definition sample_system_directory :: wstring where "sample_system_directory = sample_windows @ [0x5C, 0x53]"
definition sample_shell :: wstring where "sample_shell = sample_system_directory @ 0x5C # power_shell_relative"

definition sample_system :: system_env where
  "sample_system = \<lparr>
     sy_files = small_package\<lparr>fs_open := (\<lambda>p. Some \<lparr>wf_directory = (p = sample_system_directory), wf_reparse = False,
       wf_required = 100, wf_final = p, wf_size_known = True, wf_readable = True, wf_content = []\<rparr>)\<rparr>,
     sy_system_directory = sample_system_directory, sy_windows_directory = sample_windows,
     sy_folder = (\<lambda>folder. if folder = FolderProfile \<or> folder = FolderLocalAppData \<or> folder = FolderProgramData
        \<or> folder = FolderProgramFiles then Some sample_windows else None)\<rparr>"

lemma relative_parts: "power_shell_relative = wide ''WindowsPowerShell'' @ 0x5C # wide ''v1.0'' @ 0x5C # wide ''powershell.exe''"
  by (simp add: power_shell_relative_def in_folders_def) (simp add: wide_def)

lemma sample_locate: "locate_system_windows_powershell sample_system = Inr sample_shell"
proof -
  have d: "fs_drive (sy_files sample_system) = (\<lambda>_. 3)" by (simp add: sample_system_def small_package_def)
  have j: "join_path sample_system_directory power_shell_relative = sample_shell"
    by (simp add: join_path_def sample_shell_def sample_system_directory_def sample_windows_def relative_parts
        separator_def wide_def)
  have c: "c_str sample_system_directory = sample_system_directory" "c_str sample_shell = sample_shell"
    "sample_shell \<noteq> sample_system_directory"
    by (simp_all add: c_str_def sample_shell_def sample_system_directory_def sample_windows_def relative_parts wide_def)
  have o: "fs_open (sy_files sample_system) sample_system_directory = Some \<lparr>wf_directory = True, wf_reparse = False,
       wf_required = 100, wf_final = sample_system_directory, wf_size_known = True, wf_readable = True, wf_content = []\<rparr>"
    "open_regular_file (sy_files sample_system) sample_shell = Some \<lparr>wf_directory = False, wf_reparse = False,
       wf_required = 100, wf_final = sample_shell, wf_size_known = True, wf_readable = True, wf_content = []\<rparr>"
    by (simp_all add: sample_system_def open_regular_file_def c)
  obtain r1 r2 where r: "sample_system_directory = 0x43 # r1" "length r1 < 100" "sample_shell = 0x43 # r2" "length r2 < 100"
    by (simp add: sample_shell_def sample_system_directory_def sample_windows_def relative_parts wide_def)
  have f: "final_path_for_handle \<lparr>wf_directory = b, wf_reparse = False, wf_required = 100, wf_final = sample_system_directory,
       wf_size_known = True, wf_readable = True, wf_content = []\<rparr> = Some sample_system_directory"
    "final_path_for_handle \<lparr>wf_directory = b, wf_reparse = False, wf_required = 100, wf_final = sample_shell,
       wf_size_known = True, wf_readable = True, wf_content = []\<rparr> = Some sample_shell" for b
    unfolding r(1,3) sample_final using r(2,4) by simp_all
  have l: "sample_system_directory \<noteq> []" "length sample_system_directory < 32768"
    "path_is_absolute_local (\<lambda>_. 3) sample_system_directory"
    by (simp_all add: sample_system_directory_def sample_windows_def wide_def path_is_absolute_local_def)
  have "sy_system_directory sample_system = sample_system_directory" by (simp add: sample_system_def)
  with l show ?thesis
    by (simp add: locate_system_windows_powershell_def d j c o f or_fail_def require_def)
qed

definition sample_home :: "bool \<Rightarrow> wstring" where
  "sample_home n = sample_system_directory @ 0x5C # wide ''WindowsPowerShell''
     @ (if \<not> n then [] else 0x5C # wide ''v1.0'')"

lemma sample_parents:
  "parent_path sample_shell = sample_home True" "parent_path (sample_home True) = sample_home False"
  "parent_path (sample_home False) = sample_system_directory"
  "parent_path sample_system_directory = sample_windows"
  "sample_home n \<noteq> []" "sample_system_directory \<noteq> []"
  by (simp_all add: parent_path_def drop_ending_separators.simps sample_shell_def sample_home_def sample_system_directory_def
      sample_windows_def relative_parts separator_def wide_def)

lemma sample_values:
  "\<exists>vars. add_environment_values
       [(wide ''SystemRoot'', sample_windows), (wide ''WINDIR'', sample_windows),
        (wide ''Path'', sample_system_directory @ [0x3B] @ sample_windows),
        (wide ''PSModulePath'', join_path (sample_home True) (wide ''Modules'')),
        (wide ''USERPROFILE'', sample_windows), (wide ''LOCALAPPDATA'', sample_windows),
        (wide ''ProgramData'', sample_windows), (wide ''ProgramFiles'', sample_windows),
        (wide ''TEMP'', join_path sample_windows (wide ''Temp'')),
        (wide ''TMP'', join_path sample_windows (wide ''Temp''))] [] = Some vars
     \<and> sum_list (map (\<lambda>(n, v). length n + 1 + length v + 1) vars) \<le> 32000"
  by (simp add: add_environment_value_def name_less_def c_str_def lower_copy_def wlower_def join_path_def
      separator_def sample_home_def sample_system_directory_def sample_windows_def wide_def)

text \<open>A system whose folders are those of the sample gives its shell an environment.\<close>

lemma sample_block:
  assumes "locate_system_windows_powershell y = Inr sample_shell" and "fs_drive (sy_files y) = (\<lambda>_. 3)"
    and "sy_windows_directory y = sample_windows" and "sy_folder y = sy_folder sample_system"
  shows "\<exists>block. build_sanitized_powershell_environment y sample_shell = Inr block"
proof -
  have a: "path_is_absolute_local (\<lambda>_. 3) sample_windows" "sample_windows \<noteq> []" "length sample_windows < 32768"
    by (simp_all add: sample_windows_def path_is_absolute_local_def wide_def)
  have k: "get_windows_directory_path y = Some sample_windows"
    "get_known_folder_path y FolderProfile = Some sample_windows"
    "get_known_folder_path y FolderLocalAppData = Some sample_windows"
    "get_known_folder_path y FolderProgramData = Some sample_windows"
    "get_known_folder_path y FolderProgramFiles = Some sample_windows"
    "get_known_folder_path y FolderRoamingAppData = None"
    "get_known_folder_path y FolderProgramFilesX86 = None"
    "get_known_folder_path y FolderProgramFilesX64 = None"
    using a assms by (simp_all add: get_windows_directory_path_def get_known_folder_path_def sample_system_def)
  have w: "wcsicmp_eq sample_windows sample_windows" by simp
  from sample_values show ?thesis
    by (auto simp: build_sanitized_powershell_environment_def sanitized_values_def assms(1) k sample_parents Let_def
        or_fail_def require_def optional_value_def simp del: add_environment_values.simps)
qed

theorem shell_environment_is_fresh_witness:
  "\<exists>block vars. build_sanitized_powershell_environment sample_system sample_shell = Inr block
     \<and> read_block (length block) block = Some vars"
proof -
  have "fs_drive (sy_files sample_system) = (\<lambda>_. 3)" "sy_windows_directory sample_system = sample_windows"
    by (simp_all add: sample_system_def small_package_def)
  from sample_block[OF sample_locate this] show ?thesis using shell_environment_is_fresh by blast
qed

end
