(* ===== verification/Package_Sample.thy ===== *)
theory Package_Sample imports Elevated_Helper begin

text \<open>
  A complete package on a disk: the eleven files that a manager needs, in their folders, with their
  manifest, signed by one signer.  It shows that the checks of the package can all succeed together; the
  witnesses of the properties that compose them use it.
\<close>

section \<open>The disk\<close>

definition full_entries :: "ManifestEntry list" where
  "full_entries = map (\<lambda>p. \<lparr>me_relative_path = p, me_sha256 = replicate 64 0x41\<rparr>) required_files"

definition full_manifest :: wstring where "full_manifest = join_path package_root kManifestName"

definition a_folder :: "string \<Rightarrow> found_file" where
  "a_folder n = \<lparr>ff_name = wide n, ff_directory = True, ff_reparse = False\<rparr>"

definition a_file :: "string \<Rightarrow> found_file" where
  "a_file n = \<lparr>ff_name = wide n, ff_directory = False, ff_reparse = False\<rparr>"

text \<open>The folders of the package are told apart by the length of their paths.\<close>

definition full_listing :: "nat \<Rightarrow> found_file list" where
  "full_listing n =
     (if n = 6 then [a_folder ''.'', a_file ''SHA256SUMS.txt'', a_file ''FFBInterceptor.Manager.exe'',
        a_file ''Install-SimHubPlugin.ps1'', a_file ''Uninstall-SimHubPlugin.ps1'', a_file ''FFBInterceptor.Common.ps1'',
        a_file ''Start-FFBInterceptor.ps1'', a_folder ''launcher'', a_folder ''simhub'']
      else if n = 15 then [a_folder ''.'', a_folder ''..'', a_folder ''x86'', a_folder ''x64'']
      else if n = 19 then [a_file ''FFBInterceptor.Launcher.exe'', a_file ''FFBInterceptor.Hook.dll'']
      else [a_file ''FFBInterceptor.Core.dll'', a_file ''FFBInterceptor.SimHub.dll''])"

definition on_disk :: "bool \<Rightarrow> wstring \<Rightarrow> win_file" where
  "on_disk directory path = \<lparr>wf_directory = directory, wf_reparse = False, wf_required = 100, wf_final = path,
     wf_size_known = True, wf_readable = True,
     wf_content = (if path = full_manifest then print_manifest full_entries else [])\<rparr>"

definition full_package :: package_env where
  "full_package = \<lparr>
     fs_open = (\<lambda>p. Some (on_disk (p = sample_system_directory) p)),
     fs_follow = (\<lambda>p. Some (on_disk True p)),
     fs_lock = (\<lambda>p d. Some (on_disk d p)),
     fs_list = (\<lambda>p. Some (full_listing (length p), True)),
     fs_attributes = (\<lambda>_. Some (False, False, 0, 0)), fs_drive = (\<lambda>_. 3),
     fs_sha256 = (\<lambda>_. Some (replicate 32 0xAA)),
     fs_trust = (\<lambda>_ _. (True, replicate 64 0x41))\<rparr>"

definition full_layout :: PackageLayout where "full_layout = make_package_layout package_root"

section \<open>Its files\<close>

text \<open>Paths on the disk: on drive \<open>C\<close>, short and without the zero character.\<close>

definition plain_path :: "wstring \<Rightarrow> bool" where
  "plain_path p \<longleftrightarrow> p \<noteq> [] \<and> hd p = 0x43 \<and> length p < 100 \<and> 0 \<notin> set p \<and> p \<noteq> sample_system_directory"

definition relative_ok :: "wstring \<Rightarrow> bool" where
  "relative_ok r \<longleftrightarrow> r \<noteq> [] \<and> length r < 90 \<and> list_all (\<lambda>c. c \<noteq> 0) r"

lemma final_on_disk: "plain_path p \<or> p = sample_system_directory \<Longrightarrow> final_path_for_handle (on_disk d p) = Some p"
proof -
  assume "plain_path p \<or> p = sample_system_directory"
  then obtain r where "p = 0x43 # r" "length r < 100"
    by (cases p) (auto simp: plain_path_def sample_system_directory_def sample_windows_def wide_def)
  then show ?thesis by (simp add: on_disk_def sample_final)
qed

lemma root_plain: "plain_path package_root"
  by (simp add: plain_path_def package_root_def sample_system_directory_def sample_windows_def wide_def)

lemma join_plain: "relative_ok r \<Longrightarrow> plain_path (join_path package_root r)"
  by (auto simp: plain_path_def relative_ok_def join_path_def package_root_def separator_def list_all_iff
      sample_system_directory_def sample_windows_def wide_def)

lemma join_within: "relative_ok r \<Longrightarrow> path_within_or_equal (join_path package_root r) package_root"
  by (simp add: relative_ok_def path_within_or_equal_def join_path_def package_root_def separator_def
      starts_with_case_insensitive_def without_trailing_separators_def wcsnicmp_eq_def c_str_def lower_copy_def)

lemma required_ok: "list_all relative_ok required_files"
  by (simp add: required_files_def relative_ok_def in_folders_def installer_name_def wide_def)

lemma manifest_name_ok: "relative_ok kManifestName"
  by (simp add: relative_ok_def kManifestName_def wide_def)

lemma open_plain: "plain_path p \<Longrightarrow> open_regular_file full_package p = Some (on_disk False p)"
  by (simp add: plain_path_def open_regular_file_def full_package_def c_str_id on_disk_def)

lemma entry_of_text:
  assumes "normalize_manifest_path text = Some p"
  shows "entry_ok \<lparr>me_relative_path = p, me_sha256 = replicate 64 0x41\<rparr>"
  using normalize_safe[OF assms] by (simp add: entry_ok_def upper_hex_def list_all_iff)

lemma required_normal: "list_all (\<lambda>p. normalize_manifest_path (map ucast p) = Some p) required_files"
  by (simp add: normalize_eq required_files_def installer_name_def in_folders_def wide_def ascii_def good_segment_def
      path_separator_def device_name_def reserved_device_def allowed_character_def toupper_def)

lemma required_distinct: "distinct (map lower_copy required_files) \<and> length required_files = 11"
  by code_simp

lemma full_entries_ok: "manifest_ok full_entries"
proof -
  have "list_all entry_ok full_entries"
    using required_normal entry_of_text by (auto simp: full_entries_def list_all_iff)
  moreover have "distinct (manifest_keys full_entries)" "length full_entries = 11"
    using required_distinct by (simp_all add: full_entries_def manifest_keys_def comp_def)
  ultimately show ?thesis by (auto simp: manifest_ok_def kMaximumManifestEntries_def)
qed

lemma full_entry:
  assumes "m \<in> set full_entries"
  shows "relative_ok (me_relative_path m)" and "me_sha256 m = replicate 64 0x41"
  using assms required_ok by (auto simp: full_entries_def list_all_iff)

lemma full_paths: "map me_relative_path full_entries = required_files"
  by (simp add: full_entries_def comp_def)

lemma full_drive [simp]: "fs_drive full_package = (\<lambda>_. 3)"
  by (simp add: full_package_def)

lemma full_layout_simps [simp]:
  "pl_root full_layout = package_root" "pl_manifest_path full_layout = full_manifest"
  by (simp_all add: full_layout_def make_package_layout_def full_manifest_def)

lemma full_manifest_read: "read_file_limited full_package full_manifest kMaximumManifestBytes = Inr (print_manifest full_entries)"
proof -
  have "length (print_manifest full_entries) \<le> 1091 * length full_entries"
    using length_print_manifest full_entries_ok by (simp add: manifest_ok_def)
  moreover have "length full_entries = 11" using required_distinct by (simp add: full_entries_def)
  ultimately have "length (print_manifest full_entries) \<le> kMaximumManifestBytes"
    by (simp add: kMaximumManifestBytes_def)
  moreover have "plain_path full_manifest" unfolding full_manifest_def by (rule join_plain[OF manifest_name_ok])
  ultimately show ?thesis
    by (simp add: read_file_limited_def open_plain or_fail_def require_def on_disk_def)
qed

lemma full_manifest_entries: "read_manifest full_package full_layout = Inr full_entries"
  by (simp add: read_manifest_def full_manifest_read parse_print_manifest[OF full_entries_ok])

text \<open>What the enumeration finds.\<close>

definition full_files :: "wstring list" where
  "full_files =
     [wide ''FFBInterceptor.Manager.exe'', installer_name, wide ''Uninstall-SimHubPlugin.ps1'',
      wide ''FFBInterceptor.Common.ps1'', wide ''Start-FFBInterceptor.ps1'',
      in_folders [''simhub'', ''FFBInterceptor.Core.dll''], in_folders [''simhub'', ''FFBInterceptor.SimHub.dll''],
      in_folders [''launcher'', ''x86'', ''FFBInterceptor.Launcher.exe''],
      in_folders [''launcher'', ''x86'', ''FFBInterceptor.Hook.dll''],
      in_folders [''launcher'', ''x64'', ''FFBInterceptor.Launcher.exe''],
      in_folders [''launcher'', ''x64'', ''FFBInterceptor.Hook.dll'']]"

lemma full_list: "fs_list full_package p = Some (full_listing (length p), True)"
  by (simp add: full_package_def)

definition folder1 :: "folder list" where
  "folder1 = [(package_root, []), (join_path package_root (wide ''launcher''), wide ''launcher''),
     (join_path package_root (wide ''simhub''), wide ''simhub'')]"
definition folder2 :: "folder list" where
  "folder2 = [(join_path package_root (in_folders [''launcher'', ''x86'']), in_folders [''launcher'', ''x86'']),
     (join_path package_root (in_folders [''launcher'', ''x64'']), in_folders [''launcher'', ''x64''])]"

lemma scan0: "scan_folder (package_root, []) (full_listing 6) [(package_root, [])] [] = Inr (folder1, take 5 full_files)"
  by code_simp
lemma scan1: "scan_folder (folder1 ! 1) (full_listing 15) folder1 (take 5 full_files) = Inr (folder1 @ folder2, take 5 full_files)"
  by code_simp
lemma scan2: "scan_folder (folder1 ! 2) (full_listing 13) (folder1 @ folder2) (take 5 full_files) = Inr (folder1 @ folder2, take 7 full_files)"
  by code_simp
lemma scan3: "scan_folder (folder2 ! 0) (full_listing 19) (folder1 @ folder2) (take 7 full_files) = Inr (folder1 @ folder2, take 9 full_files)"
  by code_simp
lemma scan4: "scan_folder (folder2 ! 1) (full_listing 19) (folder1 @ folder2) (take 9 full_files) = Inr (folder1 @ folder2, full_files)"
  by code_simp


lemma listing_lengths:
  "length (join_path package_root (wide ''*'')) = 6" "length (join_path (fst (folder1 ! 1)) (wide ''*'')) = 15"
  "length (join_path (fst (folder1 ! 2)) (wide ''*'')) = 13" "length (join_path (fst (folder2 ! 0)) (wide ''*'')) = 19"
  "length (join_path (fst (folder2 ! 1)) (wide ''*'')) = 19"
  by code_simp+

lemma full_step:
  assumes "n < length pending" and "length (join_path (fst (pending ! n)) (wide ''*'')) = k"
    and "scan_folder (pending ! n) (full_listing k) pending files = Inr (pending', files')" and "m = Suc n"
  shows "enumerate_loop full_package n pending files = enumerate_loop full_package m pending' files'"
  using assms by (subst enumerate_loop.simps) (simp add: full_list)

lemma full_enumeration: "enumerate_package_files full_package package_root = Inr full_files"
proof -
  let ?all = "folder1 @ folder2"
  have n: "length folder1 = 3" "length folder2 = 2" "?all ! 2 = folder1 ! 2" "?all ! 3 = folder2 ! 0" "?all ! 4 = folder2 ! 1"
    by (simp_all add: folder1_def folder2_def)
  have "enumerate_loop full_package 0 [(package_root, [])] [] = enumerate_loop full_package 1 folder1 (take 5 full_files)"
    by (rule full_step[of _ _ 6]) (simp_all add: listing_lengths scan0 del: scan_folder.simps)
  also have "\<dots> = enumerate_loop full_package 2 ?all (take 5 full_files)"
    by (rule full_step[OF _ listing_lengths(2) scan1]) (simp_all add: n)
  also have "\<dots> = enumerate_loop full_package 3 ?all (take 7 full_files)"
    by (rule full_step[of _ _ 13]) (simp_all only: n listing_lengths scan2, simp_all add: n)
  also have "\<dots> = enumerate_loop full_package 4 ?all (take 9 full_files)"
    by (rule full_step[of _ _ 19]) (simp_all only: n listing_lengths scan3, simp_all add: n)
  also have "\<dots> = enumerate_loop full_package 5 ?all full_files"
    by (rule full_step[of _ _ 19]) (simp_all only: n listing_lengths scan4, simp_all add: n)
  also have "\<dots> = Inr full_files" by (subst enumerate_loop.simps) (simp add: n)
  finally show ?thesis by (simp add: enumerate_package_files_def)
qed

section \<open>Its checks\<close>

lemma full_hash:
  assumes "relative_ok r"
  shows "sha256_file full_package (join_path package_root r) package_root = Inr (replicate 64 0x41)"
proof -
  have h: "bytes_to_hex (replicate 32 0xAA) = replicate 64 0x41" by code_simp
  have "plain_path (join_path package_root r)" by (rule join_plain[OF assms])
  moreover have "length (print_manifest full_entries) \<le> kMaximumHashedFileBytes"
    using length_print_manifest[of full_entries] full_entries_ok required_distinct
    by (simp add: manifest_ok_def full_entries_def kMaximumHashedFileBytes_def)
  moreover have "c_str package_root = package_root" "fs_follow full_package package_root = Some (on_disk True package_root)"
    "fs_sha256 full_package bs = Some (replicate 32 0xAA)" "package_root \<noteq> []" for bs
    using root_plain by (simp_all add: plain_path_def c_str_id full_package_def)
  ultimately show ?thesis
    using join_within[OF assms] root_plain
    by (simp add: sha256_file_def open_plain final_on_disk or_fail_def require_def h) (simp add: on_disk_def)
qed

lemma full_package_exact: "exact_package full_package full_layout full_entries full_files"
proof -
  have size: "entry_size full_package package_root m = Some 0" for m
    by (simp add: entry_size_def full_package_def attribute_size_def)
  have "lower_copy ` set full_files \<subseteq> lower_copy ` set required_files"
    by (rule image_mono) (simp add: full_files_def required_files_def)
  moreover have "set (manifest_keys full_entries) = lower_copy ` set required_files"
    by (simp add: manifest_keys_def full_entries_def image_image)
  moreover have "length full_files = length full_entries"
    using required_distinct by (simp add: full_entries_def full_files_def)
  moreover have "\<forall>m \<in> set full_entries. entry_matches full_package package_root m"
    using full_hash full_entry by (simp add: entry_matches_def size)
  moreover have "total_size full_package package_root full_entries = 0"
    by (induction full_entries) (simp_all add: total_size_def size)
  moreover have "package_root \<noteq> []" "path_is_absolute_local (\<lambda>_. 3) package_root"
    by (simp_all add: package_root_def path_is_absolute_local_def)
  ultimately show ?thesis
    using full_manifest_read parse_print_manifest[OF full_entries_ok] full_enumeration
    by (simp add: exact_package_def)
qed

text \<open>Locking succeeds, whatever is locked.\<close>

lemma full_lock_path:
  assumes "relative_ok r" and "rl_root s = package_root"
  shows "lock_path full_package (join_path package_root r) d True s
    = Inr (s\<lparr>rl_handles := rl_handles s @ [(join_path package_root r, d)]\<rparr>)"
proof -
  have p: "plain_path (join_path package_root r)" by (rule join_plain[OF assms(1)])
  then have "fs_lock full_package (c_str (join_path package_root r)) d = Some (on_disk d (join_path package_root r))"
    by (simp add: plain_path_def c_str_id full_package_def)
  moreover have "package_root \<noteq> []" by (simp add: package_root_def)
  moreover have "\<not> wf_reparse (on_disk d q)" "wf_directory (on_disk d q) = d" for q by (simp_all add: on_disk_def)
  ultimately show ?thesis
    using final_on_disk[of "join_path package_root r" d] p join_within[OF assms(1)] assms(2)
    by (cases s) (simp add: lock_path_def or_fail_def require_def)
qed

lemma full_lock_folders:
  assumes "list_all relative_ok ds" and "rl_root s = package_root"
  shows "\<exists>locked' s'. lock_folders full_package package_root ds locked s = Inr (locked', s') \<and> rl_root s' = package_root"
  using assms by (induction ds arbitrary: locked s) (auto simp: full_lock_path)

lemma prefixes_ok: "relative_ok r \<Longrightarrow> hd r \<noteq> 0x5C \<Longrightarrow> list_all relative_ok (folder_prefixes r)"
  by (cases r) (auto simp: folder_prefixes_def relative_ok_def list_all_iff Suc_le_eq nth_Cons' dest!: in_set_takeD split: if_splits)

lemma full_lock_entries:
  assumes "\<forall>m \<in> set ms. relative_ok (me_relative_path m) \<and> hd (me_relative_path m) \<noteq> 0x5C" and "rl_root s = package_root"
  shows "\<exists>s'. lock_entries full_package package_root ms locked s = Inr s'"
  using assms
proof (induction ms arbitrary: locked s)
  case (Cons m ms)
  then have "list_all relative_ok (folder_prefixes (me_relative_path m))" by (simp add: prefixes_ok)
  from full_lock_folders[OF this Cons.prems(2)] obtain locked' s' where
    "lock_folders full_package package_root (folder_prefixes (me_relative_path m)) locked s = Inr (locked', s')"
    "rl_root s' = package_root" by blast
  with Cons.prems(1) show ?case
    by (auto simp: full_lock_path intro!: Cons.IH)
qed simp

lemma full_package_locked: "\<exists>handles. acquire_package_read_lock full_package full_layout [] = (None, handles)"
proof -
  have "fs_lock full_package (c_str package_root) True = Some (on_disk True package_root)"
    using root_plain by (simp add: plain_path_def c_str_id full_package_def)
  then have root: "lock_path full_package package_root True False \<lparr>rl_handles = [], rl_root = []\<rparr>
      = Inr \<lparr>rl_handles = [(package_root, True)], rl_root = package_root\<rparr>"
    using final_on_disk[of package_root True] root_plain
    by (simp add: lock_path_def or_fail_def require_def) (simp add: on_disk_def package_root_def path_is_absolute_local_def)
  have "list_all (\<lambda>r. hd r \<noteq> 0x5C) required_files" by code_simp
  then have "\<forall>m \<in> set full_entries. relative_ok (me_relative_path m) \<and> hd (me_relative_path m) \<noteq> 0x5C"
    using full_entry(1) by (auto simp: full_entries_def list_all_iff)
  from full_lock_entries[OF this, of "\<lparr>rl_handles = [(package_root, True), (full_manifest, False)], rl_root = package_root\<rparr>" "{}"]
  obtain s where "lock_entries full_package package_root full_entries {}
       \<lparr>rl_handles = [(package_root, True), (full_manifest, False)], rl_root = package_root\<rparr> = Inr s" by auto
  moreover have "path_is_absolute_local (\<lambda>_. 3) package_root" by (simp add: package_root_def path_is_absolute_local_def)
  ultimately show ?thesis
    by (simp add: acquire_package_read_lock_def lock_package_def root full_manifest_entries
        full_lock_path[OF manifest_name_ok, folded full_manifest_def])
qed

lemma full_evidence:
  assumes "plain_path p"
  shows "accepted_evidence sample_policy (replicate 64 0x61) (verify_trusted_signature full_package l p True)"
proof -
  have t: "fs_trust full_package b q = (True, replicate 64 0x41)" for b q by (simp add: full_package_def)
  have v: "valid_sha256_text (replicate 64 0x41)" by (simp add: valid_sha256_text_def list_all_iff)
  show ?thesis using assms v
    by (simp add: accepted_evidence_def verify_trusted_signature_def file_is_regular_def open_plain t
        sample_policy_def lower_copy_def wlower_def)
qed

lemma full_package_signed:
  assumes "plain_path manager"
  shows "sr_allowed (verify_package_signatures full_package full_layout manager sample_policy)"
proof -
  let ?start = "({lower_copy manager}, [verify_trusted_signature full_package manager_label manager True])"
  let ?files = "signed_files full_layout full_entries"
  obtain seen ev where f: "foldl (add_evidence full_package True) ?start ?files = (seen, ev)" by fastforce
  from add_evidence_fold[OF f] obtain more where
    ev: "ev = map (\<lambda>(l, p). verify_trusted_signature full_package l p True) ((manager_label, manager) # more)"
    and more: "set more \<subseteq> set ?files" by auto
  have "\<forall>(l, p) \<in> set ?files. plain_path p" using full_entry(1) by (auto simp: signed_files_def join_plain)
  then have "\<forall>(l, p) \<in> set ((manager_label, manager) # more). plain_path p" using more assms by auto
  then have "\<forall>i \<in> set ev. accepted_evidence sample_policy (replicate 64 0x61) i"
    unfolding ev using full_evidence by auto
  moreover have "ev \<noteq> []" by (simp add: ev)
  moreover have req: "sp_required sample_policy" "sp_expected_signer_sha256 sample_policy = []"
    by (simp_all add: sample_policy_def)
  ultimately have "sr_allowed (evaluate_signature_policy sample_policy ev)"
    unfolding policy_allows[OF req(1)] by blast
  moreover have "add_evidence full_package True ({}, []) (manager_label, manager) = ?start"
    by (simp add: add_evidence_def)
  ultimately show ?thesis using f req
    by (simp only: verify_package_signatures_def full_manifest_entries sum.case Let_def simp_thms snd_conv)
qed

end
