(* ===== verification/Elevated_Run.thy ===== *)
theory Elevated_Run imports Package_Sample begin

text \<open>
  What the elevated helper does with a request: \<open>executable_path\<close>, the path functions,
  \<open>run_sanitized_system_power_shell\<close> and \<open>run_elevated_plugin_operation\<close> of
  \<open>src/launcher/manager_main.cpp\<close>.  The package, the shell, its environment and its command line come
  together here.
\<close>

section \<open>Paths\<close>

text \<open>\<open>own\<close> is the path that \<open>GetModuleFileNameW\<close> knows, empty when it fails; it writes what fits.\<close>

function manager_path_in :: "wstring \<Rightarrow> nat \<Rightarrow> wstring" where
  "manager_path_in own size_b =
     (let written = min size_b (length own) in
      if written = 0 then []
      else if written < size_b - 1 then take written own
      else if 32768 \<le> size_b then []
      else manager_path_in own (size_b * 2))"
  by auto
termination by (relation "measure (\<lambda>(own, n). 32768 - n)") auto

declare manager_path_in.simps [simp del]

definition manager_path :: "wstring \<Rightarrow> wstring" where
  "manager_path own = manager_path_in own 260"

definition main_parent_path :: "wstring \<Rightarrow> wstring" where
  "main_parent_path path = (case find_last_of separator path of None \<Rightarrow> [] | Some slash \<Rightarrow> take slash path)"

definition main_join_path :: "wstring \<Rightarrow> wstring \<Rightarrow> wstring" where
  "main_join_path left right =
     (if left = [] then right
      else if separator (last left) then left @ right
      else left @ [0x5C] @ right)"

definition system_directory_for_power_shell :: "wstring \<Rightarrow> wstring" where
  "system_directory_for_power_shell power_shell = main_parent_path (main_parent_path (main_parent_path power_shell))"

section \<open>The shell as a process\<close>

record shell_start =
  ss_application :: wstring
  ss_command :: wstring
  ss_block :: wstring
  ss_directory :: wstring

text \<open>What Windows answers: whether the process could be created, whether waiting for it worked, the
  exit codes seen while polling and the one that is read at the end.\<close>

record shell_child =
  sc_created :: bool
  sc_waited :: bool
  sc_polls :: "u32 option list"
  sc_exit :: "u32 option"

definition STILL_ACTIVE :: u32 where "STILL_ACTIVE = 259"

text \<open>The loop that polls a process that cannot be waited for; \<open>False\<close> when it has not ended within
  the answers.\<close>

fun poll_until_gone :: "u32 option list \<Rightarrow> bool" where
  "poll_until_gone [] = False"
| "poll_until_gone (a # as) =
     (case a of
        None \<Rightarrow> poll_until_gone as
      | Some observed \<Rightarrow> if observed = STILL_ACTIVE then poll_until_gone as else True)"

datatype shell_outcome =
    NotRun helper_error
  | StillRunning shell_start
  | Ended shell_start "u32 option"

definition run_sanitized_system_power_shell ::
  "system_env \<Rightarrow> wstring \<Rightarrow> wstring list \<Rightarrow> shell_child \<Rightarrow> shell_outcome" where
  "run_sanitized_system_power_shell y power_shell arguments child =
     (case manager_command power_shell arguments of
        None \<Rightarrow> NotRun CommandTooLong
      | Some command \<Rightarrow>
     (case build_sanitized_powershell_environment y power_shell of
        Inl err \<Rightarrow> NotRun err
      | Inr block \<Rightarrow>
          if \<not> sc_created child then NotRun ShellNotStarted
          else
            let s = \<lparr>ss_application = power_shell, ss_command = command, ss_block = block,
                  ss_directory = main_parent_path power_shell\<rparr>
            in if \<not> sc_waited child \<and> \<not> poll_until_gone (sc_polls child) then StillRunning s
               else Ended s (sc_exit child)))"

section \<open>The operation\<close>

text \<open>\<open>he_event\<close> opens an event: \<open>None\<close> when that fails, else whether waiting for it times out at once.
  The files are looked at twice: where the helper lies (\<open>he_start\<close>) and, once the package is locked,
  through \<open>sy_files\<close> of the system.\<close>

record helper_env =
  he_elevation :: "bool option"
  he_own_path :: wstring
  he_start :: package_env
  he_event :: "wstring \<Rightarrow> bool option"
  he_system :: system_env
  he_stable_build :: bool
  he_signer :: "byte list"
  he_child :: shell_child

definition script_arguments :: "wstring \<Rightarrow> ElevatedPluginRequest \<Rightarrow> wstring list" where
  "script_arguments script request =
     [wide ''-NoProfile'', wide ''-NonInteractive'', wide ''-ExecutionPolicy'', wide ''Bypass'', wide ''-File'', script,
      wide ''-NoPause'', wide ''-ManagerInvocationEvent'', er_manager_invocation_event request]
     @ (if er_operation request = InstallOperation \<and> er_simhub_install_path request \<noteq> []
        then [wide ''-SimHubInstallPath'', er_simhub_install_path request] else [])"

definition script_of :: "PackageLayout \<Rightarrow> ElevatedPluginOperation \<Rightarrow> wstring" where
  "script_of layout op = (if op = InstallOperation then pl_installer_script layout else pl_uninstaller_script layout)"

text \<open>Whether the package is the manager's own and may be used: the checks before the shell.\<close>

definition helper_package :: "helper_env \<Rightarrow> ElevatedPluginRequest \<Rightarrow> PackageLayout option" where
  "helper_package h request =
     (if he_elevation h \<noteq> Some True then None
      else
        let own = manager_path (he_own_path h);
            bundle_root = locate_bundle_root (he_start h) own;
            expected_manager = main_join_path bundle_root (wide ''FFBInterceptor.Manager.exe'')
        in if own = [] \<or> bundle_root = [] \<or> \<not> wcsicmp_eq own expected_manager then None
        else if he_event h (c_str (er_manager_invocation_event request)) \<noteq> Some True then None
        else
          let layout = make_package_layout bundle_root;
              e = sy_files (he_system h)
          in if fst (acquire_package_read_lock e layout []) \<noteq> None then None
          else if \<not> ir_valid (verify_package_integrity e layout)
            \<or> \<not> sr_allowed (verify_package_signatures e layout own
                  (build_signature_policy (he_stable_build h) (he_signer h))) then None
          else Some layout)"

text \<open>The exit code (\<open>None\<close> while the shell has not ended), and the shell that was started.\<close>

definition run_elevated_plugin_operation ::
  "helper_env \<Rightarrow> ElevatedPluginRequest \<Rightarrow> nat option \<times> shell_start option" where
  "run_elevated_plugin_operation h request =
     (case helper_package h request of
        None \<Rightarrow> (Some 1, None)
      | Some layout \<Rightarrow>
     (case locate_system_windows_powershell (he_system h) of
        Inl _ \<Rightarrow> (Some 1, None)
      | Inr power_shell \<Rightarrow>
          let script = script_of layout (er_operation request) in
          (case run_sanitized_system_power_shell (he_system h) power_shell
                  (script_arguments script request) (he_child h) of
             NotRun _ \<Rightarrow> (Some 1, None)
           | StillRunning s \<Rightarrow> (None, Some s)
           | Ended s None \<Rightarrow> (Some 1, Some s)
           | Ended s (Some code) \<Rightarrow> (Some (if code = 0 then 0 else 1), Some s))))"

section \<open>Lemmas\<close>

lemma manager_path_in_or: "manager_path_in own n = own \<or> manager_path_in own n = []"
proof (induction own n rule: manager_path_in.induct)
  case (1 own n)
  then show ?case by (subst (1 2) manager_path_in.simps) (auto simp: Let_def min_def split: if_splits)
qed

text \<open>A package that may be used: locked, then verified, then its signatures accepted.\<close>

definition trusted_package ::
  "package_env \<Rightarrow> PackageLayout \<Rightarrow> wstring \<Rightarrow> SignaturePolicy \<Rightarrow> (wstring \<times> bool) list \<Rightarrow> bool" where
  "trusted_package e layout manager policy handles \<longleftrightarrow>
     acquire_package_read_lock e layout [] = (None, handles)
     \<and> ir_valid (verify_package_integrity e layout)
     \<and> sr_allowed (verify_package_signatures e layout manager policy)"

lemma layout_root [simp]: "pl_root (make_package_layout root) = root"
  by (simp add: make_package_layout_def)

lemma helper_package_Some:
  assumes "helper_package h request = Some layout"
  shows "he_elevation h = Some True" and "he_event h (c_str (er_manager_invocation_event request)) = Some True"
    and "layout = make_package_layout (locate_bundle_root (he_start h) (he_own_path h))"
    and "wcsicmp_eq (he_own_path h) (main_join_path (pl_root layout) (wide ''FFBInterceptor.Manager.exe''))"
    and "\<exists>handles. trusted_package (sy_files (he_system h)) layout (he_own_path h)
          (build_signature_policy (he_stable_build h) (he_signer h)) handles"
proof -
  have own: "manager_path (he_own_path h) = he_own_path h" if "manager_path (he_own_path h) \<noteq> []"
    using that manager_path_in_or[of "he_own_path h" 260] by (auto simp: manager_path_def)
  have "\<exists>handles. a = (None, handles)" if "fst a = None" for a :: "package_error option \<times> (wstring \<times> bool) list"
    using that by (cases a) simp
  with assms own show "he_elevation h = Some True" "he_event h (c_str (er_manager_invocation_event request)) = Some True"
    "layout = make_package_layout (locate_bundle_root (he_start h) (he_own_path h))"
    "wcsicmp_eq (he_own_path h) (main_join_path (pl_root layout) (wide ''FFBInterceptor.Manager.exe''))"
    "\<exists>handles. trusted_package (sy_files (he_system h)) layout (he_own_path h)
          (build_signature_policy (he_stable_build h) (he_signer h)) handles"
    by (auto simp: helper_package_def trusted_package_def Let_def split: if_splits)
qed

text \<open>A file of a verified and locked package, up to the case of its name: it is listed, its digest is
  that of the manifest, and the lock holds it.\<close>

definition verified_file :: "package_env \<Rightarrow> PackageLayout \<Rightarrow> (wstring \<times> bool) list \<Rightarrow> wstring \<Rightarrow> bool" where
  "verified_file e layout handles name \<longleftrightarrow>
     (\<exists>entries m final. read_manifest e layout = Inr entries \<and> m \<in> set entries
        \<and> lower_copy (me_relative_path m) = lower_copy name \<and> entry_matches e (pl_root layout) m
        \<and> (join_path (pl_root layout) (me_relative_path m), False) \<in> set handles
        \<and> held e final (join_path (pl_root layout) (me_relative_path m), False)
        \<and> path_is_absolute_local (fs_drive e) final)"

lemma required_file_verified:
  assumes "trusted_package e layout manager policy handles" and "name \<in> set required_files"
  shows "verified_file e layout handles name"
proof -
  from assms(1) obtain entries files where x: "exact_package e layout entries files"
    by (auto simp: trusted_package_def valid_package_iff)
  then have entries: "read_manifest e layout = Inr entries"
    by (auto simp: exact_package_def read_manifest_def)
  from acquired_lock_complete[of e layout "[]" None handles] assms(1) entries obtain final where
    "path_is_absolute_local (fs_drive e) final" "\<forall>h \<in> set handles. held e final h"
    "\<forall>m \<in> set entries. (join_path (pl_root layout) (me_relative_path m), False) \<in> set handles"
    by (auto simp: trusted_package_def)
  moreover from x assms(2) obtain m where "m \<in> set entries" "lower_copy (me_relative_path m) = lower_copy name"
    by (force simp: exact_package_def manifest_keys_def)
  moreover from x this(1) have "entry_matches e (pl_root layout) m" by (simp add: exact_package_def)
  ultimately show ?thesis using entries unfolding verified_file_def by blast
qed

lemma script_required:
  "script_of (make_package_layout root) op = join_path root
     (if op = InstallOperation then installer_name else wide ''Uninstall-SimHubPlugin.ps1'')"
  "(if op = InstallOperation then installer_name else wide ''Uninstall-SimHubPlugin.ps1'') \<in> set required_files"
  by (simp_all add: script_of_def make_package_layout_def required_files_def installer_name_def)

lemma operation_started:
  assumes "run_elevated_plugin_operation h request = (code, Some s)"
  obtains layout shell where "helper_package h request = Some layout"
    "locate_system_windows_powershell (he_system h) = Inr shell"
    "ss_application s = shell"
    "manager_command shell (script_arguments (script_of layout (er_operation request)) request) = Some (ss_command s)"
    "build_sanitized_powershell_environment (he_system h) shell = Inr (ss_block s)"
    "code = Some 0 \<longleftrightarrow> (sc_waited (he_child h) \<or> poll_until_gone (sc_polls (he_child h))) \<and> sc_exit (he_child h) = Some 0"
  using assms
  by (force simp: run_elevated_plugin_operation_def run_sanitized_system_power_shell_def Let_def
      split: option.splits sum.splits if_splits)

section \<open>The property\<close>

text \<open>C31: When the helper starts a shell, it is elevated, runs from the package it belongs to and its
  manager still waits on the event of the request; the package was locked and, locked, verified and
  accepted by the signature policy of the build, and the script that is run is a file of it, listed with
  its digest and held by the lock; the shell is the PowerShell of Windows, in a fresh environment, and its
  command line consists of the fixed arguments, that script and what the request names.  The helper
  reports success exactly when the shell has ended with success.\<close>

theorem helper_runs_the_verified_script:
  assumes "run_elevated_plugin_operation h request = (code, Some s)"
    and "\<forall>shell. locate_system_windows_powershell (he_system h) = Inr shell \<longrightarrow> file_path shell"
  shows "he_elevation h = Some True \<and> he_event h (c_str (er_manager_invocation_event request)) = Some True
    \<and> (\<exists>layout handles name shell vars.
        layout = make_package_layout (locate_bundle_root (he_start h) (he_own_path h))
        \<and> wcsicmp_eq (he_own_path h) (main_join_path (pl_root layout) (wide ''FFBInterceptor.Manager.exe''))
        \<and> trusted_package (sy_files (he_system h)) layout (he_own_path h)
            (build_signature_policy (he_stable_build h) (he_signer h)) handles
        \<and> name = (if er_operation request = InstallOperation then installer_name else wide ''Uninstall-SimHubPlugin.ps1'')
        \<and> verified_file (sy_files (he_system h)) layout handles name
        \<and> locate_system_windows_powershell (he_system h) = Inr shell \<and> ss_application s = shell
        \<and> split_command_line (ss_command s) = shell # script_arguments (join_path (pl_root layout) name) request
        \<and> read_block (length (ss_block s)) (ss_block s) = Some vars \<and> fixed_environment (he_system h) shell vars)
    \<and> (code = Some 0 \<longleftrightarrow> (sc_waited (he_child h) \<or> poll_until_gone (sc_polls (he_child h))) \<and> sc_exit (he_child h) = Some 0)"
proof -
  from operation_started[OF assms(1)] obtain layout shell where
    hp: "helper_package h request = Some layout" and l: "locate_system_windows_powershell (he_system h) = Inr shell"
    and app: "ss_application s = shell"
    and c: "manager_command shell (script_arguments (script_of layout (er_operation request)) request) = Some (ss_command s)"
    and b: "build_sanitized_powershell_environment (he_system h) shell = Inr (ss_block s)"
    and code: "code = Some 0 \<longleftrightarrow>
       (sc_waited (he_child h) \<or> poll_until_gone (sc_polls (he_child h))) \<and> sc_exit (he_child h) = Some 0"
    by blast
  note p = helper_package_Some[OF hp]
  from p(5) obtain handles where t: "trusted_package (sy_files (he_system h)) layout (he_own_path h)
      (build_signature_policy (he_stable_build h) (he_signer h)) handles" by blast
  let ?name = "if er_operation request = InstallOperation then installer_name else wide ''Uninstall-SimHubPlugin.ps1''"
  have v: "verified_file (sy_files (he_system h)) layout handles ?name"
    by (rule required_file_verified[OF t script_required(2)])
  have "script_of layout (er_operation request) = join_path (pl_root layout) ?name"
    unfolding p(3) by (simp add: script_required(1))
  then have sp: "split_command_line (ss_command s) = shell # script_arguments (join_path (pl_root layout) ?name) request"
    using manager_command_eq[OF c] split_quoted[of shell] assms(2) l by simp
  from block_is_fresh[OF b] l obtain vars where "read_block (length (ss_block s)) (ss_block s) = Some vars"
    "fixed_environment (he_system h) shell vars" by auto
  then have "layout = make_package_layout (locate_bundle_root (he_start h) (he_own_path h))
        \<and> wcsicmp_eq (he_own_path h) (main_join_path (pl_root layout) (wide ''FFBInterceptor.Manager.exe''))
        \<and> trusted_package (sy_files (he_system h)) layout (he_own_path h)
            (build_signature_policy (he_stable_build h) (he_signer h)) handles
        \<and> ?name = ?name
        \<and> verified_file (sy_files (he_system h)) layout handles ?name
        \<and> locate_system_windows_powershell (he_system h) = Inr shell \<and> ss_application s = shell
        \<and> split_command_line (ss_command s) = shell # script_arguments (join_path (pl_root layout) ?name) request
        \<and> read_block (length (ss_block s)) (ss_block s) = Some vars \<and> fixed_environment (he_system h) shell vars"
    using p(3,4) t v l app sp by (intro conjI refl)
  then show ?thesis using p(1,2) code by blast
qed


section \<open>A run\<close>

definition sample_manager :: wstring where
  "sample_manager = join_path package_root (wide ''FFBInterceptor.Manager.exe'')"

definition full_system :: system_env where
  "full_system = sample_system\<lparr>sy_files := full_package\<rparr>"

definition sample_helper :: helper_env where
  "sample_helper = \<lparr>he_elevation = Some True, he_own_path = sample_manager, he_start = full_package,
     he_event = (\<lambda>_. Some True), he_system = full_system, he_stable_build = True, he_signer = [],
     he_child = \<lparr>sc_created = True, sc_waited = True, sc_polls = [], sc_exit = Some 0\<rparr>\<rparr>"

definition sample_request :: ElevatedPluginRequest where
  "sample_request = \<lparr>er_operation = UninstallOperation,
     er_manager_invocation_event = kManagerInvocationEventPrefix @ replicate 64 0x30, er_simhub_install_path = []\<rparr>"

lemma shell_plain: "plain_path sample_shell"
  by (simp add: plain_path_def sample_shell_def sample_system_directory_def sample_windows_def relative_parts wide_def)

lemma full_locate: "locate_system_windows_powershell full_system = Inr sample_shell"
proof -
  have j: "join_path sample_system_directory power_shell_relative = sample_shell"
    by (simp add: join_path_def sample_shell_def sample_system_directory_def sample_windows_def relative_parts
        separator_def wide_def)
  have "0 \<notin> set sample_system_directory" "sample_system_directory \<noteq> []" "length sample_system_directory < 32768"
    "path_is_absolute_local (\<lambda>_. 3) sample_system_directory"
    by (simp_all add: sample_system_directory_def sample_windows_def wide_def path_is_absolute_local_def)
  moreover have "fs_open full_package sample_system_directory = Some (on_disk True sample_system_directory)"
    by (simp add: full_package_def)
  moreover have "\<not> wf_reparse (on_disk d p)" "wf_directory (on_disk d p) = d" for d p by (simp_all add: on_disk_def)
  ultimately show ?thesis
    using open_plain[OF shell_plain] final_on_disk[of sample_shell] final_on_disk[of sample_system_directory] shell_plain
    by (simp add: locate_system_windows_powershell_def full_system_def sample_system_def j c_str_id
        or_fail_def require_def)
qed

lemma manager_plain: "plain_path sample_manager"
  unfolding sample_manager_def by (rule join_plain) (simp add: relative_ok_def wide_def)

lemma sample_bundle: "locate_bundle_root full_package sample_manager = package_root"
proof -
  have "parent_path sample_manager = package_root" by code_simp
  moreover have "file_is_regular full_package (join_path package_root kManifestName)"
    "file_is_regular full_package (join_path package_root installer_name)"
    using manifest_name_ok required_ok
    by (simp_all add: file_is_regular_def open_plain join_plain required_files_def)
  moreover have "package_root \<noteq> []" by (simp add: package_root_def)
  ultimately show ?thesis by (simp add: locate_bundle_root_def numeral_eq_Suc)
qed

lemma full_trusted: "\<exists>handles. trusted_package full_package full_layout sample_manager sample_policy handles"
  using full_package_locked full_package_signed[OF manager_plain] full_package_exact
  by (auto simp: trusted_package_def valid_package_iff)

lemma sample_helper_package: "helper_package sample_helper sample_request = Some full_layout"
proof -
  have "manager_path sample_manager = sample_manager" "sample_manager \<noteq> []"
    "wcsicmp_eq sample_manager (main_join_path package_root (wide ''FFBInterceptor.Manager.exe''))"
    "package_root \<noteq> []"
    by (code_simp, code_simp, code_simp, code_simp)
  moreover have "build_signature_policy True [] = sample_policy"
    by (simp add: build_signature_policy_def compile_time_signer_thumbprint_def sample_policy_def)
  moreover from full_trusted obtain handles where
    "acquire_package_read_lock full_package full_layout [] = (None, handles)"
    "ir_valid (verify_package_integrity full_package full_layout)"
    "sr_allowed (verify_package_signatures full_package full_layout sample_manager sample_policy)"
    unfolding trusted_package_def by blast
  ultimately show ?thesis
    by (simp add: helper_package_def sample_helper_def full_system_def sample_system_def sample_bundle Let_def
        full_layout_def[symmetric])
qed

text \<open>A short command fits.\<close>

lemma length_quote_argument: "length (quote_argument a) \<le> 2 * length a + 2"
  using length_quote_rest[of 0 a] by (auto simp: quote_argument_eq)

lemma length_quoted_tail: "length (quoted_tail as) \<le> sum_list (map (\<lambda>a. 2 * length a + 3) as)"
proof (induction as)
  case (Cons a as)
  then show ?case using length_quote_argument[of a] by simp
qed simp

lemma short_command:
  assumes "2 * length e + 2 + sum_list (map (\<lambda>a. 2 * length a + 3) as) < 32767"
  shows "manager_command e as \<noteq> None"
  using assms length_quote_argument[of e] length_quoted_tail[of as] command_fold[of "quote_argument e" as]
  by (simp add: manager_command_def quote_command_argument_same Let_def)

theorem helper_runs_the_verified_script_witness:
  "\<exists>s handles. run_elevated_plugin_operation sample_helper sample_request = (Some 0, Some s)
     \<and> verified_file full_package full_layout handles (wide ''Uninstall-SimHubPlugin.ps1'')"
proof -
  let ?arguments = "script_arguments (script_of full_layout UninstallOperation) sample_request"
  have "length sample_shell < 100" "length (er_manager_invocation_event sample_request) = 105"
    "length (script_of full_layout UninstallOperation) < 100"
    using shell_plain
    by (simp_all add: plain_path_def sample_request_def kManagerInvocationEventPrefix_def full_layout_def script_required(1)
        package_root_def join_path_def separator_def wide_def)
  then have "manager_command sample_shell ?arguments \<noteq> None"
    by (intro short_command) (simp add: script_arguments_def sample_request_def)
  then obtain command where c: "manager_command sample_shell ?arguments = Some command" by blast
  obtain block where b: "build_sanitized_powershell_environment full_system sample_shell = Inr block"
    using sample_block[OF full_locate] by (auto simp: full_system_def sample_system_def)
  have e: "er_operation sample_request = UninstallOperation" by (simp add: sample_request_def)
  obtain s where s: "run_elevated_plugin_operation sample_helper sample_request = (Some 0, Some s)"
    using c b full_locate e
    by (simp add: run_elevated_plugin_operation_def sample_helper_package sample_helper_def[THEN arg_cong[where f = he_system]]
        sample_helper_def[THEN arg_cong[where f = he_child]] run_sanitized_system_power_shell_def)
  have f: "file_path sample_shell" by code_simp
  then have sh: "\<forall>shell. locate_system_windows_powershell (he_system sample_helper) = Inr shell \<longrightarrow> file_path shell"
    by (simp add: sample_helper_def full_locate)
  from helper_runs_the_verified_script[OF s sh] obtain handles where
    "verified_file full_package full_layout handles (wide ''Uninstall-SimHubPlugin.ps1'')"
    by (auto simp: e sample_helper_def full_system_def sample_bundle full_layout_def)
  with s show ?thesis by blast
qed

end
