(* ===== verification/Manager_Process.thy ===== *)
theory Manager_Process imports Elevated_Run begin

text \<open>
  How the manager starts programs and waits for them: \<open>process_running\<close>, \<open>wait_for_process\<close>,
  \<open>wait_for_elevated_process\<close>, \<open>run_elevated_process\<close> and \<open>run_process\<close> of
  \<open>src/launcher/manager_main.cpp\<close>.  A round of a wait is what Windows answers in it; \<open>None\<close> is a wait
  that has not ended within the rounds given.
\<close>

section \<open>Processes that run\<close>

fun process_listed :: "wstring \<Rightarrow> wstring option \<Rightarrow> wstring list \<Rightarrow> bool" where
  "process_listed first second [] = False"
| "process_listed first second (n # ns) =
     (if wcsicmp_eq n first \<or> (\<exists>s. second = Some s \<and> wcsicmp_eq n s) then True else process_listed first second ns)"

text \<open>The names of a snapshot; without one no process is known to run.\<close>

definition process_running :: "wstring list option \<Rightarrow> wstring \<Rightarrow> wstring option \<Rightarrow> bool" where
  "process_running snapshot first second =
     (case snapshot of None \<Rightarrow> False | Some names \<Rightarrow> process_listed first second names)"

section \<open>Waiting\<close>

text \<open>A round: the result of \<open>MsgWaitForMultipleObjects\<close>, the exit code, whether the event of the
  invocation is signalled, whether the messages were pumped without a request to quit, and the clock at
  the check of the deadline.\<close>

record wait_round =
  wr_waited :: u32
  wr_exit :: "u32 option"
  wr_signalled :: bool
  wr_pumped :: bool
  wr_now :: u64

definition WAIT_FAILED :: u32 where "WAIT_FAILED = 0xFFFFFFFF"

datatype wait_end = Exited u32 | WaitTimedOut | WaitBroken

text \<open>How long a round waits; the clock is read again between the test and the difference.\<close>

definition wait_slice :: "u64 \<Rightarrow> u64 \<Rightarrow> u64 \<Rightarrow> u32" where
  "wait_slice deadline now later = (if deadline \<le> now then 0 else ucast (min (deadline - later) 250))"

fun wait_for_process :: "u64 \<Rightarrow> wait_round list \<Rightarrow> wait_end option" where
  "wait_for_process deadline [] = None"
| "wait_for_process deadline (k # ks) =
     (if wr_waited k = 0 then
        (case wr_exit k of None \<Rightarrow> Some WaitBroken | Some code \<Rightarrow> Some (Exited code))
      else if wr_waited k = 1 \<and> \<not> wr_pumped k then Some WaitBroken
      else if deadline \<le> wr_now k then Some WaitTimedOut
      else if wr_waited k = WAIT_FAILED then Some WaitBroken
      else wait_for_process deadline ks)"

text \<open>The elevated wait also waits for the event; it returns whether that was seen, where the code
  reports it.\<close>

fun wait_for_elevated_process :: "u64 \<Rightarrow> bool \<Rightarrow> wait_round list \<Rightarrow> (wait_end \<times> bool) option" where
  "wait_for_elevated_process deadline confirmed [] = None"
| "wait_for_elevated_process deadline confirmed (k # ks) =
     (if wr_waited k = 0 then
        (case wr_exit k of
           None \<Rightarrow> Some (WaitBroken, False)
         | Some code \<Rightarrow> Some (Exited code, confirmed \<or> wr_signalled k))
      else if \<not> confirmed \<and> wr_waited k = 1 then wait_for_elevated_process deadline True ks
      else if wr_waited k = (if confirmed then 1 else 2) then
        (if \<not> wr_pumped k then Some (WaitBroken, False) else wait_for_elevated_process deadline confirmed ks)
      else if deadline \<le> wr_now k then Some (WaitTimedOut, confirmed)
      else if wr_waited k = WAIT_FAILED then Some (WaitBroken, False)
      else wait_for_elevated_process deadline confirmed ks)"

section \<open>Starting\<close>

text \<open>What was started: the program, its command line (or its parameters) and its folder.\<close>

record process_start =
  ps_program :: wstring
  ps_command :: wstring
  ps_directory :: wstring

record process_answers =
  pa_created :: bool
  pa_clock :: u64
  pa_rounds :: "wait_round list"

text \<open>The result and the out parameters.\<close>

record run_result =
  rr_ok :: bool
  rr_exit :: "u32 option"
  rr_timed_out :: bool
  rr_may_be_running :: bool
  rr_started :: "process_start option"

definition not_started :: run_result where
  "not_started = \<lparr>rr_ok = False, rr_exit = None, rr_timed_out = False, rr_may_be_running = False, rr_started = None\<rparr>"

definition waited_result :: "process_start \<Rightarrow> wait_end \<Rightarrow> bool \<Rightarrow> run_result" where
  "waited_result s w accepted =
     (case w of
        Exited code \<Rightarrow> \<lparr>rr_ok = accepted, rr_exit = Some code, rr_timed_out = False, rr_may_be_running = False,
          rr_started = Some s\<rparr>
      | _ \<Rightarrow> \<lparr>rr_ok = False, rr_exit = None, rr_timed_out = (w = WaitTimedOut), rr_may_be_running = True,
          rr_started = Some s\<rparr>)"

definition run_elevated_process ::
  "package_env \<Rightarrow> wstring \<Rightarrow> wstring \<Rightarrow> wstring list \<Rightarrow> bool \<Rightarrow> u32 \<Rightarrow> process_answers \<Rightarrow> run_result option" where
  "run_elevated_process e executable working_directory arguments event_valid timeout a =
     (if \<not> event_valid \<or> \<not> file_is_regular e executable \<or> \<not> path_is_absolute_local (fs_drive e) executable
        \<or> \<not> path_is_absolute_local (fs_drive e) working_directory then Some not_started
      else case build_parameter_text arguments of
        None \<Rightarrow> Some not_started
      | Some parameters \<Rightarrow>
          if \<not> pa_created a then Some not_started
          else map_option (\<lambda>(w, confirmed). waited_result
                 \<lparr>ps_program = executable, ps_command = parameters, ps_directory = working_directory\<rparr> w confirmed)
               (wait_for_elevated_process (pa_clock a + ucast timeout) False (pa_rounds a)))"

definition run_process ::
  "package_env \<Rightarrow> wstring \<Rightarrow> wstring list \<Rightarrow> u32 \<Rightarrow> process_answers \<Rightarrow> run_result option" where
  "run_process e executable arguments timeout a =
     (if \<not> file_is_regular e executable then Some not_started
      else case manager_command executable arguments of
        None \<Rightarrow> Some not_started
      | Some command \<Rightarrow>
          if \<not> pa_created a then Some not_started
          else map_option (\<lambda>w. waited_result
                 \<lparr>ps_program = executable, ps_command = command, ps_directory = main_parent_path executable\<rparr> w True)
               (wait_for_process (pa_clock a + ucast timeout) (pa_rounds a)))"

section \<open>Lemmas\<close>

lemma wait_slice_bounded: "wait_slice deadline now later \<le> 250"
proof -
  have "unat (ucast x :: u32) \<le> 250" if "unat x \<le> 250" for x :: u64
    using that by (simp add: unsigned_ucast_eq take_bit_nat_eq_self)
  moreover have "unat (min x 250) \<le> 250" for x :: u64
    unfolding min_def by (simp add: word_le_nat_alt)
  ultimately have "unat (ucast (min x 250 :: u64) :: u32) \<le> 250" for x by blast
  then show ?thesis unfolding wait_slice_def word_le_nat_alt by simp
qed

lemma wait_exit:
  "wait_for_process d ks = Some (Exited code) \<Longrightarrow> \<exists>k \<in> set ks. wr_waited k = 0 \<and> wr_exit k = Some code"
  by (induction d ks rule: wait_for_process.induct) (auto split: if_splits option.splits)

lemma wait_ends:
  "\<exists>k \<in> set ks. d \<le> wr_now k \<Longrightarrow> wait_for_process d ks \<noteq> None"
  by (induction d ks rule: wait_for_process.induct) (auto split: option.splits)

text \<open>A round that a wait for \<open>n\<close> handles did not end by a message or the event.\<close>

definition quiet_round :: "wait_round \<Rightarrow> bool" where
  "quiet_round k \<longleftrightarrow> wr_waited k \<noteq> 1 \<and> wr_waited k \<noteq> 2"

lemma elevated_wait_exit:
  "wait_for_elevated_process d c ks = Some (Exited code, confirmed) \<Longrightarrow>
     (\<exists>k \<in> set ks. wr_waited k = 0 \<and> wr_exit k = Some code)
     \<and> (confirmed \<longrightarrow> c \<or> (\<exists>k \<in> set ks. wr_waited k = 1 \<or> wr_waited k = 0 \<and> wr_signalled k))"
  by (induction d c ks rule: wait_for_elevated_process.induct) (auto split: if_splits option.splits)

lemma elevated_wait_ends:
  "\<exists>k \<in> set ks. quiet_round k \<and> d \<le> wr_now k \<Longrightarrow> wait_for_elevated_process d c ks \<noteq> None"
proof (induction ks arbitrary: c)
  case (Cons k ks)
  show ?case
  proof (cases "quiet_round k \<and> d \<le> wr_now k")
    case True
    then show ?thesis by (auto simp: quiet_round_def split: option.split)
  next
    case False
    with Cons.prems have "\<exists>k \<in> set ks. quiet_round k \<and> d \<le> wr_now k" by simp
    note IH = Cons.IH[OF this]
    then show ?thesis by (auto split: option.split)
  qed
qed simp

lemma waited_result_simps [simp]:
  "rr_ok (waited_result s w a) \<longleftrightarrow> a \<and> (\<exists>code. w = Exited code)"
  "rr_exit (waited_result s w a) = (case w of Exited code \<Rightarrow> Some code | _ \<Rightarrow> None)"
  "rr_may_be_running (waited_result s w a) \<longleftrightarrow> (\<forall>code. w \<noteq> Exited code)"
  "rr_timed_out (waited_result s w a) \<longleftrightarrow> w = WaitTimedOut"
  "rr_started (waited_result s w a) = Some s"
  by (cases w; simp add: waited_result_def)+

lemma not_started_simps [simp]:
  "\<not> rr_ok not_started" "rr_exit not_started = None" "\<not> rr_may_be_running not_started"
  "\<not> rr_timed_out not_started" "rr_started not_started = None"
  by (simp_all add: not_started_def)


section \<open>The property\<close>

text \<open>A result that was observed: the process may be running exactly when one was started and its exit
  code was not read; success has an exit code that was read in a round.\<close>

definition observed_result :: "process_answers \<Rightarrow> run_result \<Rightarrow> bool" where
  "observed_result a result \<longleftrightarrow>
     rr_may_be_running result = (rr_started result \<noteq> None \<and> rr_exit result = None)
     \<and> (rr_ok result \<longrightarrow> rr_exit result \<noteq> None)
     \<and> (rr_timed_out result \<longrightarrow> rr_may_be_running result)
     \<and> (\<forall>code. rr_exit result = Some code \<longrightarrow> rr_started result \<noteq> None
          \<and> (\<exists>k \<in> set (pa_rounds a). wr_waited k = 0 \<and> wr_exit k = Some code))"

lemma run_process_observed:
  assumes "run_process e program arguments timeout a = Some result"
  shows "observed_result a result" and "rr_started result = Some s \<Longrightarrow> file_path program \<Longrightarrow>
    ps_program s = program \<and> file_is_regular e program \<and> split_command_line (ps_command s) = program # arguments"
proof -
  consider "result = not_started"
    | command w where "file_is_regular e program" "manager_command program arguments = Some command"
        "wait_for_process (pa_clock a + ucast timeout) (pa_rounds a) = Some w"
        "result = waited_result \<lparr>ps_program = program, ps_command = command,
           ps_directory = main_parent_path program\<rparr> w True"
    using assms by (auto simp: run_process_def split: if_splits option.splits)
  then have "observed_result a result \<and> (rr_started result = Some s \<longrightarrow> file_path program \<longrightarrow>
      ps_program s = program \<and> file_is_regular e program \<and> split_command_line (ps_command s) = program # arguments)"
  proof cases
    case 2
    then have "file_path program \<Longrightarrow> split_command_line command = program # arguments"
      using manager_command_eq[of program arguments command] split_quoted[of program arguments] by simp
    with 2 show ?thesis using wait_exit[of _ "pa_rounds a"]
      by (cases w) (auto simp: observed_result_def)
  qed (simp add: observed_result_def)
  then show "observed_result a result" "rr_started result = Some s \<Longrightarrow> file_path program \<Longrightarrow>
    ps_program s = program \<and> file_is_regular e program \<and> split_command_line (ps_command s) = program # arguments"
    by blast+
qed

lemma run_elevated_observed:
  assumes "run_elevated_process e program folder arguments event_valid timeout a = Some result"
  shows "observed_result a result"
    and "rr_ok result \<Longrightarrow> \<exists>k \<in> set (pa_rounds a). wr_waited k = 1 \<or> wr_waited k = 0 \<and> wr_signalled k"
    and "rr_started result = Some s \<Longrightarrow> ps_program s = program \<and> event_valid
      \<and> build_parameter_text arguments = Some (ps_command s)"
proof -
  consider "result = not_started"
    | parameters w confirmed where "event_valid" "build_parameter_text arguments = Some parameters"
        "wait_for_elevated_process (pa_clock a + ucast timeout) False (pa_rounds a) = Some (w, confirmed)"
        "result = waited_result \<lparr>ps_program = program, ps_command = parameters, ps_directory = folder\<rparr> w confirmed"
    using assms by (auto simp: run_elevated_process_def split: if_splits option.splits)
  then have "observed_result a result
     \<and> (rr_ok result \<longrightarrow> (\<exists>k \<in> set (pa_rounds a). wr_waited k = 1 \<or> wr_waited k = 0 \<and> wr_signalled k))
     \<and> (rr_started result = Some s \<longrightarrow> ps_program s = program \<and> event_valid
          \<and> build_parameter_text arguments = Some (ps_command s))"
  proof cases
    case 2
    then show ?thesis using elevated_wait_exit[of _ False "pa_rounds a" _ confirmed]
      by (cases w) (auto simp: observed_result_def)
  qed (simp add: observed_result_def)
  then show "observed_result a result"
    "rr_ok result \<Longrightarrow> \<exists>k \<in> set (pa_rounds a). wr_waited k = 1 \<or> wr_waited k = 0 \<and> wr_signalled k"
    "rr_started result = Some s \<Longrightarrow> ps_program s = program \<and> event_valid
      \<and> build_parameter_text arguments = Some (ps_command s)"
    by blast+
qed



end
