(* ===== verification/Profile_Store.thy ===== *)
theory Profile_Store imports Win_Text begin

text \<open>
  The profiles of games in the registry of the user: \<open>ProfileStore\<close> and its helpers of
  \<open>src/launcher/manager_model.cpp\<close>.  The interface that the window of the manager relies on is a locale,
  a map from identifiers to settings; the registry is shown to implement it.
\<close>

section \<open>Profiles and the registry\<close>

record Profile =
  pf_id :: wstring
  pf_name :: wstring
  pf_game_path :: wstring
  pf_game_arguments :: wstring
  pf_simhub_path :: wstring
  pf_auto_start_simhub :: bool

text \<open>A string value is the characters that are stored, with or without a terminator.\<close>

datatype reg_value = RegSz wstring | RegDword u32 | RegOther

type_synonym reg_values = "wstring \<Rightarrow> reg_value option"

text \<open>The root key, its value \<open>ActiveProfile\<close>, and the keys below \<open>Profiles\<close>, when that exists, in the
  order in which Windows enumerates them.  Names of keys differ in more than case.\<close>

record user_registry =
  rg_root :: bool
  rg_active :: "reg_value option"
  rg_profiles :: "(wstring \<times> reg_values) list option"

definition kMaximumProfiles :: nat where "kMaximumProfiles = 64"
definition kMaximumProfileSubkeys :: nat where "kMaximumProfileSubkeys = 256"
definition kMaximumRegistryStringBytes :: nat where "kMaximumRegistryStringBytes = 64 * 1024"

text \<open>\<open>guid\<close> is \<open>StringFromGUID2\<close> of what \<open>CLSIDFromString\<close> reads, \<open>None\<close> when it reads nothing.\<close>

definition valid_profile_id :: "(wstring \<Rightarrow> wstring option) \<Rightarrow> wstring \<Rightarrow> bool" where
  "valid_profile_id guid i =
     (if length i \<noteq> 38 \<or> hd i \<noteq> 0x7B \<or> last i \<noteq> 0x7D then False
      else case guid (c_str i) of None \<Rightarrow> False | Some canonical \<Rightarrow> wcsicmp_eq i canonical)"

text \<open>\<open>RegGetValueW\<close> ends a string that is stored without a terminator.\<close>

definition terminated :: "wstring \<Rightarrow> wstring" where
  "terminated raw = (if raw = [] \<or> last raw \<noteq> 0 then raw @ [0] else raw)"

definition read_registry_string :: "reg_value option \<Rightarrow> wstring option" where
  "read_registry_string v =
     (case v of
        None \<Rightarrow> Some []
      | Some (RegSz raw) \<Rightarrow>
          let buffer = terminated raw in
          if kMaximumRegistryStringBytes < 2 * length buffer then None
          else if 0 \<in> set (butlast buffer) then None
          else Some (butlast buffer)
      | Some _ \<Rightarrow> None)"

definition write_registry_string :: "bool \<Rightarrow> wstring \<Rightarrow> reg_value option" where
  "write_registry_string ok value =
     (if kMaximumRegistryStringBytes div 2 \<le> length value \<or> 0 \<in> set value then None
      else if ok then Some (RegSz (value @ [0])) else None)"

section \<open>Loading\<close>

datatype load_error =
  RootUnreadable | ActiveInvalid | ProfilesUnreadable | EnumerationFailed | TooManySubkeys | TooManyProfiles
  | InvalidString | InvalidPreference

text \<open>What Windows answers: whether the keys can be opened, at which index the enumeration fails.\<close>

record load_answers =
  la_root_fails :: bool
  la_profiles_fails :: bool
  la_enumeration_fails :: "nat \<Rightarrow> bool"
  la_opens :: "wstring \<Rightarrow> bool"

definition unnamed_game :: wstring where "unnamed_game = [0x672A, 0x547D, 0x540D, 0x904A, 0x6232]"

definition read_auto_start :: "reg_value option \<Rightarrow> bool option" where
  "read_auto_start v =
     (case v of None \<Rightarrow> Some True | Some (RegDword d) \<Rightarrow> Some (d \<noteq> 0) | Some _ \<Rightarrow> None)"

definition read_profile :: "wstring \<Rightarrow> reg_values \<Rightarrow> load_error + Profile" where
  "read_profile i vals =
     and_then (or_fail (read_registry_string (vals (wide ''Name''))) InvalidString) (\<lambda>name.
     and_then (or_fail (read_registry_string (vals (wide ''GamePath''))) InvalidString) (\<lambda>game_path.
     and_then (or_fail (read_registry_string (vals (wide ''Arguments''))) InvalidString) (\<lambda>game_arguments.
     and_then (or_fail (read_registry_string (vals (wide ''SimHubPath''))) InvalidString) (\<lambda>simhub_path.
     and_then (or_fail (read_auto_start (vals (wide ''AutoStartSimHub''))) InvalidPreference) (\<lambda>auto_start.
     Inr \<lparr>pf_id = i, pf_name = (if name = [] then unnamed_game else name), pf_game_path = game_path,
       pf_game_arguments = game_arguments, pf_simhub_path = simhub_path, pf_auto_start_simhub = auto_start\<rparr>)))))"

text \<open>The buffer for the name of a key has 64 characters.\<close>

fun load_profiles ::
  "(wstring \<Rightarrow> wstring option) \<Rightarrow> load_answers \<Rightarrow> nat \<Rightarrow> (wstring \<times> reg_values) list \<Rightarrow> Profile list
     \<Rightarrow> load_error + Profile list" where
  "load_profiles guid a index [] profiles = Inr profiles"
| "load_profiles guid a index ((i, vals) # keys) profiles =
     (if la_enumeration_fails a index \<or> 64 \<le> length i then Inl EnumerationFailed
      else if kMaximumProfileSubkeys \<le> index then Inl TooManySubkeys
      else if \<not> valid_profile_id guid i then load_profiles guid a (Suc index) keys profiles
      else if kMaximumProfiles \<le> length profiles then Inl TooManyProfiles
      else if \<not> la_opens a i then load_profiles guid a (Suc index) keys profiles
      else case read_profile i vals of
        Inl err \<Rightarrow> Inl err
      | Inr p \<Rightarrow> load_profiles guid a (Suc index) keys (profiles @ [p]))"

definition profile_load ::
  "(wstring \<Rightarrow> wstring option) \<Rightarrow> load_answers \<Rightarrow> user_registry \<Rightarrow> load_error + Profile list \<times> wstring" where
  "profile_load guid a r =
     (if la_root_fails a then Inl RootUnreadable
      else if \<not> rg_root r then Inr ([], [])
      else
        and_then (or_fail (read_registry_string (rg_active r)) ActiveInvalid) (\<lambda>active.
        case rg_profiles r of
          None \<Rightarrow> Inr ([], [])
        | Some keys \<Rightarrow>
            if la_profiles_fails a then Inl ProfilesUnreadable
            else and_then (load_profiles guid a 0 keys []) (\<lambda>profiles.
            Inr (profiles, if active \<noteq> [] \<and> \<not> valid_profile_id guid active then [] else active))))"

section \<open>Changing\<close>

text \<open>\<open>ok\<close> says of each call of Windows, in order, whether it succeeds.\<close>

definition same_key :: "wstring \<Rightarrow> wstring \<Rightarrow> bool" where
  "same_key a b \<longleftrightarrow> lower_copy a = lower_copy b"

definition create_key :: "wstring \<Rightarrow> (wstring \<times> reg_values) list \<Rightarrow> (wstring \<times> reg_values) list" where
  "create_key i keys = (if \<exists>k \<in> set keys. same_key (fst k) i then keys else keys @ [(i, \<lambda>_. None)])"

definition set_value :: "wstring \<Rightarrow> wstring \<Rightarrow> reg_value \<Rightarrow> (wstring \<times> reg_values) list \<Rightarrow> (wstring \<times> reg_values) list" where
  "set_value i name v keys = map (\<lambda>(k, vals). if same_key k i then (k, vals(name \<mapsto> v)) else (k, vals)) keys"

fun write_strings ::
  "(nat \<Rightarrow> bool) \<Rightarrow> nat \<Rightarrow> wstring \<Rightarrow> (wstring \<times> wstring) list \<Rightarrow> (wstring \<times> reg_values) list
     \<Rightarrow> bool \<times> (wstring \<times> reg_values) list" where
  "write_strings ok n i [] keys = (True, keys)"
| "write_strings ok n i ((name, text) # rest) keys =
     (case write_registry_string (ok n) text of
        None \<Rightarrow> (False, keys)
      | Some v \<Rightarrow> write_strings ok (Suc n) i rest (set_value i name v keys))"

definition set_active ::
  "(wstring \<Rightarrow> wstring option) \<Rightarrow> (nat \<Rightarrow> bool) \<Rightarrow> wstring \<Rightarrow> user_registry \<Rightarrow> bool \<times> user_registry" where
  "set_active guid ok i r =
     (if \<not> valid_profile_id guid i then (False, r)
      else if \<not> ok 0 then (False, r)
      else case write_registry_string (ok 1) i of
        None \<Rightarrow> (False, r\<lparr>rg_root := True\<rparr>)
      | Some v \<Rightarrow> (True, r\<lparr>rg_root := True, rg_active := Some v\<rparr>))"

definition profile_acceptable :: "(wstring \<Rightarrow> wstring option) \<Rightarrow> Profile \<Rightarrow> bool" where
  "profile_acceptable guid p \<longleftrightarrow>
     \<not> (\<not> valid_profile_id guid (pf_id p) \<or> pf_name p = [] \<or> 200 < length (pf_name p) \<or> 32767 < length (pf_game_path p)
        \<or> 32767 < length (pf_game_arguments p) \<or> 32767 < length (pf_simhub_path p)
        \<or> 0 \<in> set (pf_name p) \<or> 0 \<in> set (pf_game_path p) \<or> 0 \<in> set (pf_game_arguments p) \<or> 0 \<in> set (pf_simhub_path p))"

definition profile_save ::
  "(wstring \<Rightarrow> wstring option) \<Rightarrow> (nat \<Rightarrow> bool) \<Rightarrow> Profile \<Rightarrow> bool \<Rightarrow> user_registry \<Rightarrow> bool \<times> user_registry" where
  "profile_save guid ok p make_active r =
     (if \<not> profile_acceptable guid p \<or> \<not> ok 0 then (False, r)
      else
        let i = pf_id p;
            keys = create_key i (case rg_profiles r of None \<Rightarrow> [] | Some keys \<Rightarrow> keys);
            root = r\<lparr>rg_root := True\<rparr>
        in case write_strings ok 1 i
             [(wide ''Name'', pf_name p), (wide ''GamePath'', pf_game_path p), (wide ''Arguments'', pf_game_arguments p),
              (wide ''SimHubPath'', pf_simhub_path p)] keys of
           (False, keys) \<Rightarrow> (False, root\<lparr>rg_profiles := Some keys\<rparr>)
         | (True, keys) \<Rightarrow>
             if \<not> ok 5 then (False, root\<lparr>rg_profiles := Some keys\<rparr>)
             else
               let auto_start = (if pf_auto_start_simhub p then 1 else 0);
                   r = root\<lparr>rg_profiles := Some (set_value i (wide ''AutoStartSimHub'') (RegDword auto_start) keys)\<rparr>
               in if make_active then set_active guid (\<lambda>n. ok (6 + n)) i r else (True, r))"

text \<open>\<open>deleted\<close>: \<open>RegDeleteTreeW\<close> succeeds or finds nothing.\<close>

definition profile_erase :: "(wstring \<Rightarrow> wstring option) \<Rightarrow> bool \<Rightarrow> wstring \<Rightarrow> user_registry \<Rightarrow> bool \<times> user_registry" where
  "profile_erase guid deleted i r =
     (if \<not> valid_profile_id guid i \<or> \<not> deleted then (False, r)
      else (True, r\<lparr>rg_profiles := map_option (filter (\<lambda>k. \<not> same_key (fst k) i)) (rg_profiles r)\<rparr>))"

text \<open>\<open>created\<close> is the text of a fresh identifier, \<open>None\<close> when Windows cannot make one.\<close>

definition create_id :: "wstring option \<Rightarrow> wstring" where
  "create_id created = (case created of None \<Rightarrow> [] | Some i \<Rightarrow> c_str i)"

section \<open>The interface\<close>

text \<open>What the window relies on: a map from identifiers, in any case, to settings.\<close>

definition settings :: "Profile \<Rightarrow> Profile" where
  "settings p = p\<lparr>pf_id := []\<rparr>"

definition ids_distinct :: "Profile list \<Rightarrow> bool" where
  "ids_distinct ps \<longleftrightarrow> distinct (map (\<lambda>p. lower_copy (pf_id p)) ps)"

lemma same_key_simps [simp]: "same_key a a"
  and same_key_sym: "same_key a b \<Longrightarrow> same_key b a"
  and same_key_trans: "same_key a b \<Longrightarrow> same_key b c \<Longrightarrow> same_key a c"
  by (simp_all add: same_key_def)

definition agrees :: "(wstring \<Rightarrow> Profile option) \<Rightarrow> Profile list \<Rightarrow> bool" where
  "agrees f ps \<longleftrightarrow> (\<forall>p \<in> set ps. f (pf_id p) = Some (settings p))"

text \<open>All but the profile at \<open>n\<close>, which the user may have edited.\<close>

definition agrees_but :: "(wstring \<Rightarrow> Profile option) \<Rightarrow> Profile list \<Rightarrow> nat \<Rightarrow> bool" where
  "agrees_but f ps n \<longleftrightarrow> (\<forall>m < length ps. m \<noteq> n \<longrightarrow> f (pf_id (ps ! m)) = Some (settings (ps ! m)))"

lemma agrees_nth: "agrees f ps \<longleftrightarrow> (\<forall>m < length ps. f (pf_id (ps ! m)) = Some (settings (ps ! m)))"
  unfolding agrees_def by (rule all_set_conv_all_nth)

lemma agrees_weaken: "agrees f ps \<Longrightarrow> agrees_but f ps n"
  by (simp add: agrees_nth agrees_but_def)

lemma ids_distinct_nth:
  "ids_distinct ps \<Longrightarrow> m < length ps \<Longrightarrow> n < length ps \<Longrightarrow> m \<noteq> n \<Longrightarrow> \<not> same_key (pf_id (ps ! m)) (pf_id (ps ! n))"
  by (auto simp: ids_distinct_def same_key_def distinct_conv_nth)

text \<open>\<open>put_part\<close> is a put that failed part way.\<close>

locale profile_map =
  fixes good :: "'s \<Rightarrow> bool"
    and lookup :: "'s \<Rightarrow> wstring \<Rightarrow> Profile option"
    and put :: "Profile \<Rightarrow> 's \<Rightarrow> 's \<Rightarrow> bool"
    and put_part :: "Profile \<Rightarrow> 's \<Rightarrow> 's \<Rightarrow> bool"
    and del :: "wstring \<Rightarrow> 's \<Rightarrow> 's \<Rightarrow> bool"
  assumes good_put: "good s \<Longrightarrow> put p s s' \<Longrightarrow> good s'"
    and good_part: "good s \<Longrightarrow> put_part p s s' \<Longrightarrow> good s'"
    and good_del: "good s \<Longrightarrow> del i s s' \<Longrightarrow> good s'"
    and lookup_put: "good s \<Longrightarrow> put p s s' \<Longrightarrow>
      lookup s' j = (if same_key j (pf_id p) then Some (settings p) else lookup s j)"
    and lookup_part: "good s \<Longrightarrow> put_part p s s' \<Longrightarrow> \<not> same_key j (pf_id p) \<Longrightarrow> lookup s' j = lookup s j"
    and lookup_del: "good s \<Longrightarrow> del i s s' \<Longrightarrow> lookup s' j = (if same_key j i then None else lookup s j)"
begin

lemma put_current:
  assumes "good s" and "put p s s'" and "ids_distinct ps" and "n < length ps" and "pf_id p = pf_id (ps ! n)"
    and "agrees_but (lookup s) ps n"
  shows "agrees (lookup s') (ps[n := p])"
  unfolding agrees_nth
proof (intro allI impI)
  fix m assume m: "m < length (ps[n := p])"
  show "lookup s' (pf_id (ps[n := p] ! m)) = Some (settings (ps[n := p] ! m))"
  proof (cases "m = n")
    case False
    with m assms(4-6) ids_distinct_nth[OF assms(3), of m n] show ?thesis
      by (simp add: lookup_put[OF assms(1,2)] agrees_but_def)
  qed (use m in \<open>simp add: lookup_put[OF assms(1,2)]\<close>)
qed

lemma part_current:
  assumes "good s" and "put_part p s s'" and "ids_distinct ps" and "n < length ps" and "pf_id p = pf_id (ps ! n)"
    and "agrees_but (lookup s) ps n"
  shows "agrees_but (lookup s') ps n"
  using assms(4-6) ids_distinct_nth[OF assms(3)] lookup_part[OF assms(1,2)] by (simp add: agrees_but_def)

lemma put_new:
  assumes "good s" and "put p s s'" and "\<forall>q \<in> set ps. \<not> same_key (pf_id q) (pf_id p)" and "agrees (lookup s) ps"
  shows "agrees (lookup s') (ps @ [p])"
  using assms(3,4) by (auto simp: agrees_def lookup_put[OF assms(1,2)])

lemma part_new:
  assumes "good s" and "put_part p s s'" and "\<forall>q \<in> set ps. \<not> same_key (pf_id q) (pf_id p)" and "agrees (lookup s) ps"
  shows "agrees (lookup s') ps"
  using assms(3,4) by (simp add: agrees_def lookup_part[OF assms(1,2)])

lemma del_current:
  assumes "good s" and "del (pf_id (ps ! n)) s s'" and "ids_distinct ps" and "n < length ps"
    and "agrees_but (lookup s) ps n"
  shows "agrees (lookup s') (take n ps @ drop (Suc n) ps)"
proof -
  have "\<exists>m < length ps. m \<noteq> n \<and> q = ps ! m" if q: "q \<in> set (take n ps @ drop (Suc n) ps)" for q
  proof -
    from q consider "q \<in> set (take n ps)" | "q \<in> set (drop (Suc n) ps)" by auto
    then show ?thesis
    proof cases
      case 1
      then obtain m where "m < n" "m < length ps" "q = ps ! m" by (auto simp: in_set_conv_nth)
      then show ?thesis by auto
    next
      case 2
      then obtain m where "m < length (drop (Suc n) ps)" "q = drop (Suc n) ps ! m" by (auto simp: in_set_conv_nth)
      then show ?thesis by (intro exI[of _ "Suc n + m"]) auto
    qed
  qed
  with assms(5) ids_distinct_nth[OF assms(3) _ assms(4)] show ?thesis
    unfolding agrees_def lookup_del[OF assms(1,2)] agrees_but_def by metis
qed

end

section \<open>The registry as such a map\<close>

definition key_list :: "user_registry \<Rightarrow> (wstring \<times> reg_values) list" where
  "key_list r = (case rg_profiles r of None \<Rightarrow> [] | Some keys \<Rightarrow> keys)"

definition values_at :: "wstring \<Rightarrow> (wstring \<times> reg_values) list \<Rightarrow> reg_values option" where
  "values_at i keys = map_option snd (find (\<lambda>k. same_key (fst k) i) keys)"

definition stored :: "user_registry \<Rightarrow> wstring \<Rightarrow> Profile option" where
  "stored r i = (case values_at i (key_list r) of
       None \<Rightarrow> None
     | Some vals \<Rightarrow> (case read_profile [] vals of Inl _ \<Rightarrow> None | Inr p \<Rightarrow> Some p))"

definition keys_ok :: "(wstring \<times> reg_values) list \<Rightarrow> bool" where
  "keys_ok keys \<longleftrightarrow> distinct (map (\<lambda>k. lower_copy (fst k)) keys)"

definition registry_ok :: "user_registry \<Rightarrow> bool" where
  "registry_ok r \<longleftrightarrow> keys_ok (key_list r) \<and> (\<not> rg_root r \<longrightarrow> rg_profiles r = None)"

lemma values_at_simps [simp]:
  "values_at i [] = None"
  "values_at i ((k, vals) # keys) = (if same_key k i then Some vals else values_at i keys)"
  by (simp_all add: values_at_def)

lemma values_at_set_value:
  "values_at j (set_value i name v keys) =
     (if same_key j i then map_option (\<lambda>vals. vals(name \<mapsto> v)) (values_at j keys) else values_at j keys)"
  by (induction keys) (auto simp: set_value_def same_key_def fun_upd_def)

lemma values_at_None: "values_at j keys = None \<longleftrightarrow> \<not> (\<exists>k \<in> set keys. same_key (fst k) j)"
  by (induction keys) (auto split: if_splits)

lemma values_at_append: "values_at j (keys @ others) = (case values_at j keys of None \<Rightarrow> values_at j others | Some v \<Rightarrow> Some v)"
  by (induction keys) auto

lemma values_at_create_key:
  "values_at j (create_key i keys) =
     (if same_key j i \<and> values_at j keys = None then Some (\<lambda>_. None) else values_at j keys)"
proof (cases "\<exists>k \<in> set keys. same_key (fst k) i")
  case True
  then have "same_key j i \<Longrightarrow> values_at j keys \<noteq> None" by (auto simp: values_at_None same_key_def)
  with True show ?thesis by (auto simp: create_key_def)
next
  case False
  then show ?thesis
    by (auto simp: create_key_def values_at_append same_key_def values_at_None[symmetric] split: option.split)
qed

lemma keys_ok_simps:
  "keys_ok (set_value i name v keys) = keys_ok keys" "keys_ok keys \<Longrightarrow> keys_ok (create_key i keys)"
  "keys_ok keys \<Longrightarrow> keys_ok (filter P keys)" "map fst (set_value i name v keys) = map fst keys"
proof -
  show "map fst (set_value i name v keys) = map fst keys"
    by (induction keys) (auto simp: set_value_def)
  then have "map (\<lambda>k. lower_copy (fst k)) (set_value i name v keys) = map (\<lambda>k. lower_copy (fst k)) keys"
    using map_map[of lower_copy fst "set_value i name v keys"] map_map[of lower_copy fst keys] by (simp add: comp_def)
  then show "keys_ok (set_value i name v keys) = keys_ok keys" by (simp add: keys_ok_def)
  show "keys_ok keys \<Longrightarrow> keys_ok (create_key i keys)"
    by (auto simp: keys_ok_def create_key_def same_key_def)
  show "keys_ok keys \<Longrightarrow> keys_ok (filter P keys)" by (simp add: keys_ok_def distinct_map_filter)
qed

lemma write_strings_keys:
  "write_strings ok n i texts keys = (b, keys') \<Longrightarrow> map fst keys' = map fst keys \<and>
     (\<forall>j. \<not> same_key j i \<longrightarrow> values_at j keys' = values_at j keys)"
proof (induction ok n i texts keys rule: write_strings.induct)
  case (2 ok n i name t rest keys)
  then show ?case
    by (auto simp: values_at_set_value keys_ok_simps(4) split: option.splits)
qed simp

definition put_text :: "reg_values \<Rightarrow> wstring \<times> wstring \<Rightarrow> reg_values" where
  "put_text vals x = vals(fst x \<mapsto> RegSz (snd x @ [0]))"

lemma write_strings_values:
  "write_strings ok n i texts keys = (True, keys') \<Longrightarrow> values_at i keys = Some vals \<Longrightarrow>
     values_at i keys' = Some (foldl put_text vals texts) \<and> (\<forall>x \<in> set texts. length (snd x) < 32768 \<and> 0 \<notin> set (snd x))"
proof (induction ok n i texts keys arbitrary: vals rule: write_strings.induct)
  case (2 ok n i name t rest keys)
  then have w: "write_registry_string (ok n) t = Some (RegSz (t @ [0]))" "length t < 32768" "0 \<notin> set t"
    by (auto simp: write_registry_string_def kMaximumRegistryStringBytes_def split: option.splits if_splits)
  with 2(2) have "write_strings ok (Suc n) i rest (set_value i name (RegSz (t @ [0])) keys) = (True, keys')" by simp
  moreover have "values_at i (set_value i name (RegSz (t @ [0])) keys) = Some (put_text vals (name, t))"
    using 2(3) by (simp add: values_at_set_value put_text_def)
  ultimately show ?case using 2(1)[OF w(1)] w(2,3) by simp
qed simp

lemma read_written:
  "length t < 32768 \<Longrightarrow> 0 \<notin> set t \<Longrightarrow> read_registry_string (Some (RegSz (t @ [0]))) = Some t"
  by (simp add: read_registry_string_def terminated_def kMaximumRegistryStringBytes_def)


text \<open>What is written is read back.\<close>

definition profile_texts :: "Profile \<Rightarrow> (wstring \<times> wstring) list" where
  "profile_texts p = [(wide ''Name'', pf_name p), (wide ''GamePath'', pf_game_path p), (wide ''Arguments'', pf_game_arguments p),
     (wide ''SimHubPath'', pf_simhub_path p)]"

definition auto_start_value :: "Profile \<Rightarrow> reg_value" where
  "auto_start_value p = RegDword (if pf_auto_start_simhub p then 1 else 0)"

lemma read_profile_written:
  assumes "\<forall>x \<in> set (profile_texts p). length (snd x) < 32768 \<and> 0 \<notin> set (snd x)" and "pf_name p \<noteq> []"
  shows "read_profile i ((foldl put_text vals (profile_texts p))(wide ''AutoStartSimHub'' \<mapsto> auto_start_value p)) = Inr (p\<lparr>pf_id := i\<rparr>)"
proof -
  let ?v = "(foldl put_text vals (profile_texts p))(wide ''AutoStartSimHub'' \<mapsto> auto_start_value p)"
  have "?v (wide ''Name'') = Some (RegSz (pf_name p @ [0]))" "?v (wide ''GamePath'') = Some (RegSz (pf_game_path p @ [0]))"
    "?v (wide ''Arguments'') = Some (RegSz (pf_game_arguments p @ [0]))" "?v (wide ''SimHubPath'') = Some (RegSz (pf_simhub_path p @ [0]))"
    "?v (wide ''AutoStartSimHub'') = Some (auto_start_value p)"
    by (simp_all add: profile_texts_def put_text_def) (simp_all add: wide_def)
  moreover have "read_auto_start (Some (auto_start_value p)) = Some (pf_auto_start_simhub p)"
    by (simp add: read_auto_start_def auto_start_value_def)
  ultimately show ?thesis using assms
    by (cases p) (simp add: read_profile_def read_written profile_texts_def or_fail_def)
qed

text \<open>Only the key of the profile is written; other keys stay as they are, whatever fails.\<close>

lemma set_active_keys:
  "set_active guid ok i r = (b, r') \<Longrightarrow> rg_profiles r' = rg_profiles r"
  "set_active guid ok i r = (True, r') \<Longrightarrow> rg_root r' \<and> rg_active r' = Some (RegSz (i @ [0]))
     \<and> valid_profile_id guid i \<and> length i < 32768 \<and> 0 \<notin> set i"
  by (auto simp: set_active_def write_registry_string_def kMaximumRegistryStringBytes_def
      split: if_splits option.splits)

lemma set_active_key_list: "set_active guid ok i r = (b, r') \<Longrightarrow> key_list r' = key_list r"
  by (simp add: key_list_def set_active_keys(1))

lemma stored_keys: "key_list r' = key_list r \<Longrightarrow> stored r' = stored r"
  by (simp add: stored_def fun_eq_iff)

definition save_start :: "Profile \<Rightarrow> user_registry \<Rightarrow> (wstring \<times> reg_values) list" where
  "save_start p r = create_key (pf_id p) (key_list r)"

lemma profile_save_eq:
  "profile_save guid ok p act r =
     (if \<not> profile_acceptable guid p \<or> \<not> ok 0 then (False, r)
      else case write_strings ok 1 (pf_id p) (profile_texts p) (save_start p r) of
        (done, keys) \<Rightarrow>
          if \<not> done \<or> \<not> ok 5 then (False, r\<lparr>rg_root := True, rg_profiles := Some keys\<rparr>)
          else
            let r = r\<lparr>rg_root := True,
                  rg_profiles := Some (set_value (pf_id p) (wide ''AutoStartSimHub'') (auto_start_value p) keys)\<rparr>
            in if act then set_active guid (\<lambda>n. ok (6 + n)) (pf_id p) r else (True, r))"
  by (simp add: profile_save_def save_start_def profile_texts_def key_list_def auto_start_value_def Let_def
      split: prod.split bool.split)

lemma key_list_set [simp]: "key_list (r\<lparr>rg_root := x, rg_profiles := Some ks\<rparr>) = ks"
  by (simp add: key_list_def)

lemma save_key_list:
  assumes "profile_save guid ok p act r = (b, r')"
    and "write_strings ok (Suc 0) (pf_id p) (profile_texts p) (save_start p r) = (b1, keys)"
  shows "\<not> b \<and> (r' = r \<or> key_list r' = keys) \<or> b1 \<and> profile_acceptable guid p
    \<and> key_list r' = set_value (pf_id p) (wide ''AutoStartSimHub'') (auto_start_value p) keys"
proof -
  let ?r = "r\<lparr>rg_root := True,
      rg_profiles := Some (set_value (pf_id p) (wide ''AutoStartSimHub'') (auto_start_value p) keys)\<rparr>"
  show ?thesis
  proof (cases "profile_acceptable guid p \<and> ok 0")
    case False
    then have "profile_save guid ok p act r = (False, r)" by (auto simp: profile_save_eq)
    with assms(1) show ?thesis by simp
  next
    case start: True
    show ?thesis
    proof (cases "b1 \<and> ok 5")
      case False
      then have "profile_save guid ok p act r = (False, r\<lparr>rg_root := True, rg_profiles := Some keys\<rparr>)"
        using start assms(2) by (auto simp: profile_save_eq)
      with assms(1) have "\<not> b" "key_list r' = keys" by auto
      then show ?thesis by simp
    next
      case True
      then have "profile_save guid ok p act r = (if act then set_active guid (\<lambda>n. ok (6 + n)) (pf_id p) ?r else (True, ?r))"
        using start assms(2) by (simp add: profile_save_eq Let_def)
      with assms(1) have "key_list r' = key_list ?r"
        using set_active_key_list[of guid _ "pf_id p" ?r b r'] by (cases act) simp_all
      with start True show ?thesis by simp
    qed
  qed
qed

lemma save_keys:
  assumes "profile_save guid ok p act r = (b, r')"
  shows "keys_ok (key_list r) \<Longrightarrow> keys_ok (key_list r')"
    and "\<not> same_key j (pf_id p) \<Longrightarrow> values_at j (key_list r') = values_at j (key_list r)"
proof -
  obtain b1 keys where w: "write_strings ok (Suc 0) (pf_id p) (profile_texts p) (save_start p r) = (b1, keys)" by fastforce
  note k = write_strings_keys[OF w]
  have d: "map (\<lambda>k. lower_copy (fst k)) keys = map (\<lambda>k. lower_copy (fst k)) (save_start p r)"
    using k map_map[of lower_copy fst keys] map_map[of lower_copy fst "save_start p r"] by (simp add: comp_def)
  have ok: "keys_ok keys" if "keys_ok (key_list r)"
    using keys_ok_simps(2)[OF that, of "pf_id p"] d by (simp add: save_start_def keys_ok_def)
  have at: "values_at j keys = values_at j (key_list r)" if "\<not> same_key j (pf_id p)"
    using k that by (simp add: save_start_def values_at_create_key)
  have cases: "r' = r \<or> key_list r' = keys
      \<or> key_list r' = set_value (pf_id p) (wide ''AutoStartSimHub'') (auto_start_value p) keys"
    using save_key_list[OF assms w] by (elim disjE conjE) simp_all
  show "keys_ok (key_list r')" if "keys_ok (key_list r)"
    using cases that ok[OF that] by (elim disjE) (simp_all add: keys_ok_simps(1))
  show "values_at j (key_list r') = values_at j (key_list r)" if "\<not> same_key j (pf_id p)"
    using cases that at[OF that] by (elim disjE) (simp_all add: values_at_set_value)
qed

lemma save_stored:
  assumes "profile_save guid ok p act r = (True, r')" and "same_key j (pf_id p)"
  shows "\<exists>vals. values_at j (key_list r') = Some vals \<and> (\<forall>i. read_profile i vals = Inr (p\<lparr>pf_id := i\<rparr>))"
    and "profile_acceptable guid p"
proof -
  obtain b1 keys where w: "write_strings ok (Suc 0) (pf_id p) (profile_texts p) (save_start p r) = (b1, keys)" by fastforce
  have b1: "b1" "profile_acceptable guid p"
    and k: "key_list r' = set_value (pf_id p) (wide ''AutoStartSimHub'') (auto_start_value p) keys"
    using save_key_list[OF assms(1) w] by blast+
  obtain vals where "values_at (pf_id p) (save_start p r) = Some vals"
    by (cases "values_at (pf_id p) (key_list r)") (auto simp: save_start_def values_at_create_key)
  from write_strings_values[OF _ this] w b1 have
    v: "values_at (pf_id p) keys = Some (foldl put_text vals (profile_texts p))"
      "\<forall>x \<in> set (profile_texts p). length (snd x) < 32768 \<and> 0 \<notin> set (snd x)" by auto
  have same: "values_at j ks = values_at (pf_id p) ks" for ks
    using assms(2) by (simp add: values_at_def same_key_def)
  have "pf_name p \<noteq> []" using b1(2) by (simp add: profile_acceptable_def)
  from read_profile_written[OF v(2) this] v(1)
  show "\<exists>vals. values_at j (key_list r') = Some vals \<and> (\<forall>i. read_profile i vals = Inr (p\<lparr>pf_id := i\<rparr>))"
    using assms(2) by (simp add: k values_at_set_value same)
  show "profile_acceptable guid p" by (rule b1(2))
qed

lemma erase_values:
  "profile_erase guid deleted i r = (True, r') \<Longrightarrow>
     values_at j (key_list r') = (if same_key j i then None else values_at j (key_list r))"
proof -
  assume "profile_erase guid deleted i r = (True, r')"
  then have k: "key_list r' = filter (\<lambda>k. \<not> same_key (fst k) i) (key_list r)"
    by (auto simp: profile_erase_def key_list_def split: if_splits option.splits)
  have "values_at j (filter (\<lambda>k. \<not> same_key (fst k) i) ks) = (if same_key j i then None else values_at j ks)" for ks
    by (induction ks) (auto simp: same_key_def)
  then show ?thesis by (simp add: k)
qed

lemma erase_keys: "profile_erase guid deleted i r = (b, r') \<Longrightarrow> keys_ok (key_list r) \<Longrightarrow> keys_ok (key_list r')"
  by (auto simp: profile_erase_def key_list_def keys_ok_simps split: if_splits option.splits)

lemma save_root: "profile_save guid ok p act r = (b, r') \<Longrightarrow> r' = r \<or> rg_root r'"
  by (auto simp: profile_save_eq set_active_def Let_def split: if_splits prod.splits option.splits)

lemma save_registry_ok: "profile_save guid ok p act r = (b, r') \<Longrightarrow> registry_ok r \<Longrightarrow> registry_ok r'"
  using save_keys(1)[of guid ok p act r b r'] save_root[of guid ok p act r b r'] by (auto simp: registry_ok_def)

lemma erase_registry_ok: "profile_erase guid deleted i r = (b, r') \<Longrightarrow> registry_ok r \<Longrightarrow> registry_ok r'"
  using erase_keys[of guid deleted i r b r'] by (auto simp: registry_ok_def profile_erase_def split: if_splits)

text \<open>The registry implements the interface.\<close>

definition saved_partly :: "(wstring \<Rightarrow> wstring option) \<Rightarrow> Profile \<Rightarrow> user_registry \<Rightarrow> user_registry \<Rightarrow> bool" where
  "saved_partly guid p r r' \<longleftrightarrow> (\<exists>ok act. profile_save guid ok p act r = (False, r'))"

definition saved :: "(wstring \<Rightarrow> wstring option) \<Rightarrow> Profile \<Rightarrow> user_registry \<Rightarrow> user_registry \<Rightarrow> bool" where
  "saved guid p r r' \<longleftrightarrow> (\<exists>ok act. profile_save guid ok p act r = (True, r'))"

definition erased :: "(wstring \<Rightarrow> wstring option) \<Rightarrow> wstring \<Rightarrow> user_registry \<Rightarrow> user_registry \<Rightarrow> bool" where
  "erased guid i r r' \<longleftrightarrow> (\<exists>deleted. profile_erase guid deleted i r = (True, r'))"

lemma stored_after_save:
  assumes "profile_save guid ok p act r = (True, r')"
  shows "stored r' j = (if same_key j (pf_id p) then Some (settings p) else stored r j)"
  using save_keys(2)[OF assms, of j] save_stored(1)[OF assms, of j]
  by (auto simp: stored_def settings_def)

lemma stored_after_erase:
  "profile_erase guid deleted i r = (True, r') \<Longrightarrow> stored r' j = (if same_key j i then None else stored r j)"
  by (simp add: stored_def erase_values)

interpretation store: profile_map registry_ok stored "saved guid" "saved_partly guid" "erased guid" for guid
proof unfold_locales
  show "registry_ok s \<Longrightarrow> saved guid p s s' \<Longrightarrow> registry_ok s'" for s p s'
    using save_registry_ok by (auto simp: saved_def)
  show "registry_ok s \<Longrightarrow> saved_partly guid p s s' \<Longrightarrow> registry_ok s'" for s p s'
    using save_registry_ok by (auto simp: saved_partly_def)
  show "saved_partly guid p s s' \<Longrightarrow> \<not> same_key j (pf_id p) \<Longrightarrow> stored s' j = stored s j" for s p s' j
    using save_keys(2) by (auto simp: saved_partly_def stored_def)
  show "registry_ok s \<Longrightarrow> erased guid i s s' \<Longrightarrow> registry_ok s'" for s i s'
    using erase_registry_ok by (auto simp: erased_def)
  show "saved guid p s s' \<Longrightarrow> stored s' j = (if same_key j (pf_id p) then Some (settings p) else stored s j)" for s p s' j
    using stored_after_save by (auto simp: saved_def)
  show "erased guid i s s' \<Longrightarrow> stored s' j = (if same_key j i then None else stored s j)" for s i s' j
    using stored_after_erase by (auto simp: erased_def)
qed

section \<open>Loading reads the map\<close>

text \<open>\<open>CLSIDFromString\<close> does not tell upper from lower case.\<close>

definition guid_ok :: "(wstring \<Rightarrow> wstring option) \<Rightarrow> bool" where
  "guid_ok guid \<longleftrightarrow> (\<forall>i j. same_key i j \<longrightarrow> guid i = guid j)"

definition listed :: "Profile list \<Rightarrow> wstring \<Rightarrow> Profile option" where
  "listed ps i = map_option settings (find (\<lambda>p. same_key (pf_id p) i) ps)"

definition readable :: "reg_values \<Rightarrow> bool" where
  "readable vals \<longleftrightarrow> (\<exists>p. read_profile [] vals = Inr p)"

definition profile_at :: "wstring \<times> reg_values \<Rightarrow> Profile" where
  "profile_at k = (projr (read_profile [] (snd k)))\<lparr>pf_id := fst k\<rparr>"

lemma read_profile_id: "read_profile i vals = map_sum id (\<lambda>p. p\<lparr>pf_id := i\<rparr>) (read_profile [] vals)"
  by (simp add: read_profile_def and_then_def or_fail_def split: option.split)

lemma read_profile_at: "readable vals \<Longrightarrow> read_profile i vals = Inr (profile_at (i, vals))"
  by (auto simp: readable_def profile_at_def read_profile_id[of i])

lemma stored_eq: "stored r i = (case values_at i (key_list r) of None \<Rightarrow> None
    | Some vals \<Rightarrow> if readable vals then Some (settings (profile_at (i, vals))) else None)"
proof -
  have "settings (profile_at (i, vals)) = projr (read_profile [] vals)" if "readable vals" for vals
  proof -
    from that obtain p where p: "read_profile [] vals = Inr p" by (auto simp: readable_def)
    then have "pf_id p = []" by (auto simp: read_profile_def result)
    with p show ?thesis by (simp add: settings_def profile_at_def)
  qed
  then show ?thesis by (auto simp: stored_def readable_def split: option.split sum.split)
qed

lemma wlower_mark:
  assumes "d = 0 \<or> d = 0x7B \<or> d = 0x7D" shows "wlower c = d \<longleftrightarrow> c = d"
proof -
  have "c = d" if "0x41 \<le> c" "c \<le> 0x5A" "c + 32 = d"
  proof -
    have "c = d - 32" using that(3) by (simp add: algebra_simps)
    with assms that(1,2) show ?thesis by auto
  qed
  with assms show ?thesis by (auto simp: wlower_def)
qed

lemma lower_c_str: "lower_copy (c_str i) = c_str (lower_copy i)"
  by (induction i) (simp_all add: c_str_def lower_copy_def wlower_mark)

lemma valid_same:
  assumes "guid_ok guid" and "same_key i j"
  shows "valid_profile_id guid i = valid_profile_id guid j"
proof (cases "i = []")
  case True
  then have "j = []" using assms(2) by (simp add: same_key_def lower_copy_def)
  with True show ?thesis by simp
next
  case ne: False
  have l: "map wlower i = map wlower j" using assms(2) by (simp add: same_key_def lower_copy_def)
  then have len: "length i = length j" by (metis length_map)
  with ne have "j \<noteq> []" by auto
  then have "wlower (hd i) = wlower (hd j)" "wlower (last i) = wlower (last j)"
    using l ne by (metis hd_map, metis last_map)
  then have ends: "hd i = 0x7B \<longleftrightarrow> hd j = 0x7B" "last i = 0x7D \<longleftrightarrow> last j = 0x7D"
    using wlower_mark[of "0x7B"] wlower_mark[of "0x7D"] by metis+
  have k: "same_key (c_str i) (c_str j)" using assms(2) by (simp add: same_key_def lower_c_str)
  then have "guid (c_str i) = guid (c_str j)" using assms(1) by (simp add: guid_ok_def)
  moreover have "wcsicmp_eq i x = wcsicmp_eq j x" for x using k by (simp add: wcsicmp_eq_def same_key_def)
  ultimately show ?thesis by (simp add: valid_profile_id_def len ends split: option.split)
qed

lemma load_profiles_reads:
  "load_profiles guid a n keys acc = Inr ps \<Longrightarrow>
     ps = acc @ map profile_at (filter (\<lambda>k. valid_profile_id guid (fst k) \<and> la_opens a (fst k)) keys)
     \<and> (\<forall>k \<in> set keys. length (fst k) < 64
          \<and> (valid_profile_id guid (fst k) \<and> la_opens a (fst k) \<longrightarrow> readable (snd k)))"
proof (induction keys arbitrary: n acc)
  case (Cons k keys)
  obtain i vals where k: "k = (i, vals)" by (cases k)
  show ?case
  proof (cases "valid_profile_id guid i \<and> la_opens a i")
    case True
    with Cons.prems k obtain p where p: "read_profile i vals = Inr p"
      and r: "load_profiles guid a (Suc n) keys (acc @ [p]) = Inr ps" "length i < 64"
      by (auto split: if_splits sum.splits)
    have "readable vals"
      using p by (cases "read_profile [] vals") (simp_all add: read_profile_id[of i] readable_def)
    with p have "p = profile_at (i, vals)" by (simp add: read_profile_at)
    with Cons.IH[OF r(1)] True k r(2) \<open>readable vals\<close> show ?thesis by simp
  next
    case False
    with Cons.prems k have "load_profiles guid a (Suc n) keys acc = Inr ps" "length i < 64" by (auto split: if_splits)
    with Cons.IH[OF this(1)] False k show ?thesis by auto
  qed
qed simp

lemma load_profiles_succeeds:
  assumes "\<forall>i. la_opens a i" and "\<forall>n. \<not> la_enumeration_fails a n"
  shows "\<forall>k \<in> set keys. length (fst k) < 64 \<and> (valid_profile_id guid (fst k) \<longrightarrow> readable (snd k)) \<Longrightarrow>
     n + length keys \<le> 256 \<Longrightarrow> length acc + length (filter (\<lambda>k. valid_profile_id guid (fst k)) keys) \<le> 64 \<Longrightarrow>
     load_profiles guid a n keys acc = Inr (acc @ map profile_at (filter (\<lambda>k. valid_profile_id guid (fst k)) keys))"
proof (induction keys arbitrary: n acc)
  case (Cons k keys)
  obtain i vals where k: "k = (i, vals)" by (cases k)
  show ?case
    using Cons.prems assms k Cons.IH[of "Suc n" acc] Cons.IH[of "Suc n" "acc @ [profile_at k]"]
    by (auto simp: kMaximumProfileSubkeys_def kMaximumProfiles_def read_profile_at)
qed simp

lemma listed_profiles:
  assumes "guid_ok guid" and "\<forall>k \<in> set keys. valid_profile_id guid (fst k) \<longrightarrow> readable (snd k)"
  shows "listed (map profile_at (filter (\<lambda>k. valid_profile_id guid (fst k)) keys)) i =
     (if valid_profile_id guid i
      then (case values_at i keys of None \<Rightarrow> None | Some vals \<Rightarrow> Some (settings (profile_at (i, vals)))) else None)"
  using assms(2)
proof (induction keys)
  case (Cons k keys)
  obtain j vals where k: "k = (j, vals)" by (cases k)
  have s: "settings (profile_at (j, vals)) = settings (profile_at (i, vals))" by (simp add: settings_def profile_at_def)
  have "pf_id (profile_at (j, vals)) = j" by (simp add: profile_at_def)
  with Cons k s valid_same[OF assms(1), of j i] show ?case by (auto simp: listed_def)
qed (simp add: listed_def)

lemma values_at_member: "keys_ok keys \<Longrightarrow> (k, vals) \<in> set keys \<Longrightarrow> values_at k keys = Some vals"
  by (induction keys) (auto simp: keys_ok_def same_key_def image_iff)

lemma member_values_at: "values_at k keys = Some vals \<Longrightarrow> \<exists>k0. (k0, vals) \<in> set keys \<and> same_key k0 k"
  by (induction keys) (auto split: if_splits)

lemma load_keys:
  assumes "profile_load guid a r = Inr (ps, act)" and "registry_ok r"
  shows "ps = map profile_at (filter (\<lambda>k. valid_profile_id guid (fst k) \<and> la_opens a (fst k)) (key_list r))
    \<and> (\<forall>k \<in> set (key_list r). length (fst k) < 64
         \<and> (valid_profile_id guid (fst k) \<and> la_opens a (fst k) \<longrightarrow> readable (snd k)))"
proof (cases "rg_profiles r")
  case None
  with assms(1) show ?thesis by (auto simp: profile_load_def key_list_def result split: if_splits)
next
  case (Some keys)
  with assms have "load_profiles guid a 0 keys [] = Inr ps"
    by (auto simp: profile_load_def registry_ok_def result split: if_splits)
  from load_profiles_reads[OF this] Some show ?thesis by (simp add: key_list_def)
qed

text \<open>Loaded identifiers are GUIDs, each listed once; what is listed is what is stored.\<close>

lemma load_ids:
  assumes "profile_load guid a r = Inr (ps, act)" and "registry_ok r"
  shows "ids_distinct ps" and "\<forall>p \<in> set ps. valid_profile_id guid (pf_id p)"
proof -
  have id: "pf_id (profile_at k) = fst k" for k by (simp add: profile_at_def)
  note l = load_keys[OF assms]
  have "distinct (map (\<lambda>k. lower_copy (fst k)) (filter P (key_list r)))" for P
    using assms(2) by (simp add: registry_ok_def keys_ok_def distinct_map_filter)
  then show "ids_distinct ps" using l by (simp add: ids_distinct_def comp_def id)
  show "\<forall>p \<in> set ps. valid_profile_id guid (pf_id p)" using l by (auto simp: id)
qed

lemma load_count: "load_profiles guid a n keys acc = Inr ps \<Longrightarrow> length acc \<le> kMaximumProfiles \<Longrightarrow> length ps \<le> kMaximumProfiles"
  by (induction guid a n keys acc rule: load_profiles.induct) (auto split: if_splits sum.splits)

lemma load_at_most:
  "profile_load guid a r = Inr (ps, act) \<Longrightarrow> length ps \<le> kMaximumProfiles"
  using load_count[of guid a 0 _ "[]" ps]
  by (auto simp: profile_load_def result or_fail_def split: if_splits option.splits)

lemma load_agrees:
  assumes "profile_load guid a r = Inr (ps, act)" and "registry_ok r"
  shows "agrees (stored r) ps"
  unfolding agrees_def
proof
  fix p assume p: "p \<in> set ps"
  from load_keys[OF assms(1,2)] p obtain k where k: "k \<in> set (key_list r)" "p = profile_at k" "readable (snd k)"
    by auto
  then have "values_at (fst k) (key_list r) = Some (snd k)"
    using assms(2) values_at_member[of "key_list r" "fst k" "snd k"] by (simp add: registry_ok_def)
  with k show "stored r (pf_id p) = Some (settings p)" by (simp add: stored_eq profile_at_def)
qed

lemma load_lists:
  assumes "profile_load guid a r = Inr (ps, act)" and "\<forall>i. la_opens a i" and "registry_ok r" and "guid_ok guid"
  shows "listed ps = (\<lambda>i. if valid_profile_id guid i then stored r i else None)"
proof
  fix i
  have l: "ps = map profile_at (filter (\<lambda>k. valid_profile_id guid (fst k)) (key_list r))"
    "\<forall>k \<in> set (key_list r). valid_profile_id guid (fst k) \<longrightarrow> readable (snd k)"
    using load_keys[OF assms(1,3)] assms(2) by simp_all
  have "readable vals" if "valid_profile_id guid i" "values_at i (key_list r) = Some vals" for vals
    using member_values_at[OF that(2)] l valid_same[OF assms(4)] that(1) by fastforce
  then show "listed ps i = (if valid_profile_id guid i then stored r i else None)"
    using l listed_profiles[OF assms(4), of "key_list r" i] by (auto simp: stored_eq split: option.split)
qed

lemma save_active:
  assumes "profile_save guid ok p True r = (True, r')"
  shows "rg_root r'" and "rg_active r' = Some (RegSz (pf_id p @ [0]))" and "length (pf_id p) < 32768" and "0 \<notin> set (pf_id p)"
    and "\<exists>keys. rg_profiles r' = Some keys"
proof -
  obtain b1 keys where w: "write_strings ok (Suc 0) (pf_id p) (profile_texts p) (save_start p r) = (b1, keys)" by fastforce
  let ?r = "r\<lparr>rg_root := True,
      rg_profiles := Some (set_value (pf_id p) (wide ''AutoStartSimHub'') (auto_start_value p) keys)\<rparr>"
  have s: "set_active guid (\<lambda>n. ok (6 + n)) (pf_id p) ?r = (True, r')"
    using assms w by (simp add: profile_save_eq Let_def split: if_splits)
  from set_active_keys(2)[OF s] show "rg_root r'" "rg_active r' = Some (RegSz (pf_id p @ [0]))"
    "length (pf_id p) < 32768" "0 \<notin> set (pf_id p)" by simp_all
  from set_active_keys(1)[OF s] show "\<exists>keys. rg_profiles r' = Some keys" by simp
qed

lemma save_names:
  assumes "profile_save guid ok p act r = (True, r')"
  shows "map fst (key_list r') = map fst (save_start p r)"
proof -
  obtain b1 keys where w: "write_strings ok (Suc 0) (pf_id p) (profile_texts p) (save_start p r) = (b1, keys)" by fastforce
  from save_key_list[OF assms w] write_strings_keys[OF w] show ?thesis by (simp add: keys_ok_simps(4))
qed

lemma save_readable:
  assumes "profile_save guid ok p act r = (True, r')" and "registry_ok r" and "guid_ok guid"
    and "\<forall>k \<in> set (key_list r). valid_profile_id guid (fst k) \<longrightarrow> readable (snd k)"
    and "(i, vals) \<in> set (key_list r')" and "valid_profile_id guid i"
  shows "readable vals"
proof -
  have v: "values_at i (key_list r') = Some vals"
    using save_registry_ok[OF assms(1,2)] assms(5) by (simp add: registry_ok_def values_at_member)
  show ?thesis
  proof (cases "same_key i (pf_id p)")
    case True
    with save_stored(1)[OF assms(1) True] v show ?thesis by (auto simp: readable_def)
  next
    case False
    with save_keys(2)[OF assms(1)] v obtain k0 where "(k0, vals) \<in> set (key_list r)" "same_key k0 i"
      using member_values_at[of i "key_list r" vals] by auto
    with assms(4,6) valid_same[OF assms(3)] show ?thesis by fastforce
  qed
qed

section \<open>The properties\<close>

text \<open>C38: The registry is a map from identifiers, in any case, to the settings of profiles.  A save that
  succeeds changes the map at its profile, a save that fails at any call changes it nowhere else, an
  erased profile is gone and the others stay, making a profile the active one changes none; and loading
  lists exactly the map, for identifiers that are GUIDs.\<close>

theorem profile_store_refines_a_map:
  assumes "registry_ok r" and "guid_ok guid"
  shows "(\<forall>ok p act b r'. profile_save guid ok p act r = (b, r') \<longrightarrow> registry_ok r'
       \<and> (b \<longrightarrow> stored r' = (\<lambda>j. if same_key j (pf_id p) then Some (settings p) else stored r j))
       \<and> (\<forall>j. \<not> same_key j (pf_id p) \<longrightarrow> stored r' j = stored r j))
    \<and> (\<forall>deleted i b r'. profile_erase guid deleted i r = (b, r') \<longrightarrow> registry_ok r'
       \<and> stored r' = (\<lambda>j. if b \<and> same_key j i then None else stored r j))
    \<and> (\<forall>ok i b r'. set_active guid ok i r = (b, r') \<longrightarrow> stored r' = stored r)
    \<and> (\<forall>a ps act. (\<forall>i. la_opens a i) \<longrightarrow> profile_load guid a r = Inr (ps, act) \<longrightarrow>
         listed ps = (\<lambda>i. if valid_profile_id guid i then stored r i else None))"
proof (intro conjI allI impI)
  fix ok p act b r' assume s: "profile_save guid ok p act r = (b, r')"
  show "registry_ok r'" by (rule save_registry_ok[OF s assms(1)])
  show "b \<Longrightarrow> stored r' = (\<lambda>j. if same_key j (pf_id p) then Some (settings p) else stored r j)"
    using s by (simp add: fun_eq_iff stored_after_save)
  show "stored r' j = stored r j" if "\<not> same_key j (pf_id p)" for j
    using save_keys(2)[OF s that] by (simp add: stored_def)
next
  fix deleted i b r' assume e: "profile_erase guid deleted i r = (b, r')"
  show "registry_ok r'" by (rule erase_registry_ok[OF e assms(1)])
  show "stored r' = (\<lambda>j. if b \<and> same_key j i then None else stored r j)"
  proof (cases b)
    case True
    with e show ?thesis by (simp add: fun_eq_iff stored_after_erase)
  next
    case False
    with e have "r' = r" by (auto simp: profile_erase_def split: if_splits)
    with False show ?thesis by simp
  qed
next
  fix ok i b r' assume "set_active guid ok i r = (b, r')"
  from set_active_key_list[OF this] show "stored r' = stored r" by (rule stored_keys)
next
  fix a ps act assume "\<forall>i. la_opens a i" "profile_load guid a r = Inr (ps, act)"
  then show "listed ps = (\<lambda>i. if valid_profile_id guid i then stored r i else None)"
    using load_lists assms by blast
qed

text \<open>C39: What is saved is loaded again.  After a successful save of the active profile, into a registry
  that could be loaded and has room for one more, loading succeeds, gives that profile every text up to
  32767 characters and the preference as saved, leaves all other profiles as they were, and names the
  profile as the active one.\<close>

theorem saved_profiles_are_loaded:
  assumes "registry_ok r" and "guid_ok guid"
    and "profile_load guid a r = Inr (ps, act)" and "\<forall>i. la_opens a i"
    and "profile_save guid ok p True r = (True, r')"
    and "length (key_list r) < 256" and "length ps < 64"
    and "\<not> la_root_fails a'" and "\<not> la_profiles_fails a'" and "\<forall>i. la_opens a' i" and "\<forall>n. \<not> la_enumeration_fails a' n"
  shows "\<exists>ps'. profile_load guid a' r' = Inr (ps', pf_id p)
    \<and> listed ps' = (\<lambda>i. if same_key i (pf_id p) then Some (settings p) else listed ps i)"
proof -
  have l: "ps = map profile_at (filter (\<lambda>k. valid_profile_id guid (fst k)) (key_list r))"
    "\<forall>k \<in> set (key_list r). length (fst k) < 64 \<and> (valid_profile_id guid (fst k) \<longrightarrow> readable (snd k))"
    using load_keys[OF assms(3,1)] assms(4) by simp_all
  note acc = save_stored(2)[OF assms(5) same_key_simps]
  have valid: "valid_profile_id guid (pf_id p)" using acc by (simp add: profile_acceptable_def)
  have ok': "registry_ok r'" by (rule save_registry_ok[OF assms(5,1)])
  let ?valid = "\<lambda>k :: wstring \<times> reg_values. valid_profile_id guid (fst k)"
  have count: "length (filter ?valid ks) = length (filter (valid_profile_id guid) (map fst ks))" for ks
    by (simp add: filter_map comp_def)
  have names: "map fst (key_list r') = map fst (key_list r) \<or> map fst (key_list r') = map fst (key_list r) @ [pf_id p]"
    using save_names[OF assms(5)] by (auto simp: save_start_def create_key_def)
  have "length (key_list r') \<le> 256" using arg_cong[OF save_names[OF assms(5)], of length] assms(6)
    by (simp add: save_start_def create_key_def split: if_splits)
  moreover have "length (filter ?valid (key_list r')) \<le> 64"
  proof -
    have "length (filter (valid_profile_id guid) (map fst (key_list r))) < 64" using l assms(7) count[of "key_list r"] by simp
    with names show ?thesis unfolding count by (elim disjE) (simp_all del: filter_map)
  qed
  moreover have "length (fst k) < 64" if "k \<in> set (key_list r')" for k
  proof -
    have "fst k \<in> insert (pf_id p) (fst ` set (key_list r))"
      using imageI[OF that, of fst] arg_cong[OF save_names[OF assms(5)], of set]
      by (auto simp: save_start_def create_key_def split: if_splits)
    moreover have "length (pf_id p) < 64" using valid by (simp add: valid_profile_id_def split: if_splits)
    ultimately show ?thesis using l by auto
  qed
  moreover have "readable (snd k)" if "k \<in> set (key_list r')" "?valid k" for k
    using save_readable[OF assms(5,1,2), of "fst k" "snd k"] l that by auto
  ultimately have loaded: "load_profiles guid a' 0 (key_list r') [] = Inr (map profile_at (filter ?valid (key_list r')))"
    using load_profiles_succeeds[OF assms(10,11), of "key_list r'" guid 0 "[]"] by simp
  note active = save_active[OF assms(5)]
  have "pf_id p \<noteq> []" using valid by (auto simp: valid_profile_id_def)
  obtain keys where keys: "rg_profiles r' = Some keys" using active(5) by blast
  then have "key_list r' = keys" by (simp add: key_list_def)
  with loaded active(1-4) valid assms(8,9) keys \<open>pf_id p \<noteq> []\<close>
  have load: "profile_load guid a' r' = Inr (map profile_at (filter ?valid (key_list r')), pf_id p)"
    by (simp add: profile_load_def read_written or_fail_def)
  have "listed (map profile_at (filter ?valid (key_list r'))) = (\<lambda>i. if valid_profile_id guid i then stored r' i else None)"
    by (rule load_lists[OF load assms(10) ok' assms(2)])
  also have "\<dots> = (\<lambda>i. if same_key i (pf_id p) then Some (settings p) else listed ps i)"
  proof
    fix i
    have "same_key i (pf_id p) \<Longrightarrow> valid_profile_id guid i" using valid valid_same[OF assms(2)] by blast
    then show "(if valid_profile_id guid i then stored r' i else None)
        = (if same_key i (pf_id p) then Some (settings p) else listed ps i)"
      by (simp add: stored_after_save[OF assms(5)] load_lists[OF assms(3,4,1,2)])
  qed
  finally show ?thesis using load by blast
qed

section \<open>A registry\<close>

definition empty_registry :: user_registry where
  "empty_registry = \<lparr>rg_root = False, rg_active = None, rg_profiles = None\<rparr>"

definition sample_guid :: "wstring \<Rightarrow> wstring option" where "sample_guid i = Some (lower_copy i)"

definition sample_profile :: Profile where
  "sample_profile = \<lparr>pf_id = [0x7B] @ replicate 36 0x30 @ [0x7D], pf_name = [0x67], pf_game_path = [0x70],
     pf_game_arguments = [], pf_simhub_path = [0x73], pf_auto_start_simhub = False\<rparr>"

definition all_opens :: load_answers where
  "all_opens = \<lparr>la_root_fails = False, la_profiles_fails = False, la_enumeration_fails = (\<lambda>_. False), la_opens = (\<lambda>_. True)\<rparr>"

lemma empty_registry_ok: "registry_ok empty_registry" "key_list empty_registry = []"
  "profile_load sample_guid all_opens empty_registry = Inr ([], [])"
  by (simp_all add: registry_ok_def keys_ok_def key_list_def empty_registry_def profile_load_def all_opens_def)

lemma sample_guid_ok: "guid_ok sample_guid"
  by (simp add: guid_ok_def sample_guid_def same_key_def)

lemma sample_valid: "valid_profile_id sample_guid (pf_id sample_profile)"
  by code_simp

lemma sample_saved: "\<exists>r'. profile_save sample_guid (\<lambda>_. True) sample_profile True empty_registry = (True, r')"
proof -
  have w: "write_registry_string True t = Some (RegSz (t @ [0]))" if "length t \<le> 38" "0 \<notin> set t" for t
    using that by (simp add: write_registry_string_def kMaximumRegistryStringBytes_def)
  have "write_registry_string True (f sample_profile) = Some (RegSz (f sample_profile @ [0]))"
    if "f \<in> {pf_id, pf_name, pf_game_path, pf_game_arguments, pf_simhub_path}" for f
    using that by (intro w) (auto simp: sample_profile_def)
  moreover have "profile_acceptable sample_guid sample_profile"
    using sample_valid by (simp add: profile_acceptable_def) (simp add: sample_profile_def)
  ultimately show ?thesis using sample_valid
    by (simp add: profile_save_def set_active_def Let_def)
qed

theorem profile_store_refines_a_map_witness:
  "\<exists>r'. profile_save sample_guid (\<lambda>_. True) sample_profile True empty_registry = (True, r')
     \<and> stored r' (pf_id sample_profile) = Some (settings sample_profile)"
proof -
  obtain r' where r: "profile_save sample_guid (\<lambda>_. True) sample_profile True empty_registry = (True, r')"
    using sample_saved by blast
  from profile_store_refines_a_map[OF empty_registry_ok(1) sample_guid_ok] r
  have "stored r' = (\<lambda>j. if same_key j (pf_id sample_profile) then Some (settings sample_profile) else stored empty_registry j)"
    by blast
  with r show ?thesis by simp
qed

theorem saved_profiles_are_loaded_witness:
  "\<exists>r' ps. profile_save sample_guid (\<lambda>_. True) sample_profile True empty_registry = (True, r')
     \<and> profile_load sample_guid all_opens r' = Inr (ps, pf_id sample_profile)
     \<and> listed ps (pf_id sample_profile) = Some (settings sample_profile)"
proof -
  obtain r' where r: "profile_save sample_guid (\<lambda>_. True) sample_profile True empty_registry = (True, r')"
    using sample_saved by blast
  have o: "\<forall>i. la_opens all_opens i" "\<forall>n. \<not> la_enumeration_fails all_opens n" "\<not> la_root_fails all_opens"
    "\<not> la_profiles_fails all_opens" by (simp_all add: all_opens_def)
  have "length (key_list empty_registry) < 256" "length ([] :: Profile list) < 64" by (simp_all add: empty_registry_ok)
  from saved_profiles_are_loaded[OF empty_registry_ok(1) sample_guid_ok empty_registry_ok(3) o(1) r this o(3,4,1,2)]
  obtain ps where "profile_load sample_guid all_opens r' = Inr (ps, pf_id sample_profile)"
    "listed ps = (\<lambda>i. if same_key i (pf_id sample_profile) then Some (settings sample_profile) else listed [] i)" by blast
  with r show ?thesis by auto
qed

end
