(* ===== verification/Manager_Readiness.thy ===== *)
theory Manager_Readiness imports Manager_Process Profile_Store Pe_Arch begin

text \<open>
  What the manager sees before it lets the user act: \<open>launcher_path_for\<close>, \<open>hook_path_for\<close> and
  \<open>find_simhub_executable\<close> of \<open>src/launcher/manager_model.cpp\<close>, \<open>default_simhub_path\<close>,
  \<open>installed_plugins_match\<close> and \<open>collect_readiness\<close> of \<open>src/launcher/manager_main.cpp\<close>.  The texts of the
  diagnostics are not modelled, only what they report.
\<close>

section \<open>Paths of a package\<close>

definition launcher_path_for :: "PackageLayout \<Rightarrow> PeArchitecture \<Rightarrow> wstring" where
  "launcher_path_for layout architecture =
     (if architecture = pe_x86 then pl_launcher_x86 layout
      else if architecture = pe_x64 then pl_launcher_x64 layout else [])"

definition hook_path_for :: "PackageLayout \<Rightarrow> PeArchitecture \<Rightarrow> wstring" where
  "hook_path_for layout architecture =
     (if architecture = pe_x86 then pl_hook_x86 layout
      else if architecture = pe_x64 then pl_hook_x64 layout else [])"

section \<open>SimHub\<close>

fun find_executable :: "package_env \<Rightarrow> wstring \<Rightarrow> wstring list \<Rightarrow> wstring" where
  "find_executable e directory [] = []"
| "find_executable e directory (name # names) =
     (let candidate = join_path directory name in
      if file_is_regular e candidate then candidate else find_executable e directory names)"

definition find_simhub_executable :: "package_env \<Rightarrow> wstring \<Rightarrow> wstring" where
  "find_simhub_executable e directory = find_executable e directory [wide ''SimHubWPF.exe'', wide ''SimHub.exe'']"

text \<open>A variable of the environment: the size that is needed, and what was written (empty when the
  second call fails).\<close>

fun default_simhub_from :: "package_env \<Rightarrow> (wstring \<Rightarrow> nat \<times> wstring) \<Rightarrow> wstring list \<Rightarrow> wstring" where
  "default_simhub_from e variable [] = []"
| "default_simhub_from e variable (v # vs) =
     (case variable v of
        (required, value) \<Rightarrow>
          if required = 0 \<or> 32768 < required \<or> value = [] then default_simhub_from e variable vs
          else let candidate = main_join_path (c_str value) (wide ''SimHub'') in
            if find_simhub_executable e candidate \<noteq> [] then candidate else default_simhub_from e variable vs)"

definition default_simhub_path :: "package_env \<Rightarrow> (wstring \<Rightarrow> nat \<times> wstring) \<Rightarrow> wstring" where
  "default_simhub_path e variable = default_simhub_from e variable [wide ''ProgramFiles(x86)'', wide ''ProgramFiles'']"

fun same_files :: "package_env \<Rightarrow> (wstring \<times> wstring) list \<Rightarrow> bool" where
  "same_files e [] = True"
| "same_files e ((source, destination) # pairs) =
     (case (file_sha256 e source, file_sha256 e destination) of
        (Inr source_hash, Inr destination_hash) \<Rightarrow>
          if \<not> wcsicmp_eq source_hash destination_hash then False else same_files e pairs
      | _ \<Rightarrow> False)"

definition installed_plugins_match :: "package_env \<Rightarrow> PackageLayout \<Rightarrow> Profile \<Rightarrow> bool" where
  "installed_plugins_match e layout profile =
     (if pf_simhub_path profile = [] then False
      else same_files e
        [(pl_simhub_core layout, main_join_path (pf_simhub_path profile) (wide ''FFBInterceptor.Core.dll'')),
         (pl_simhub_plugin layout, main_join_path (pf_simhub_path profile) (wide ''FFBInterceptor.SimHub.dll''))])"

section \<open>Readiness\<close>

text \<open>What is fixed while the manager runs, and what it sees at one moment.\<close>

record manager_consts =
  mc_executable :: wstring
  mc_layout :: PackageLayout
  mc_stable_build :: bool
  mc_signer :: "byte list"
  mc_split :: "wstring \<Rightarrow> wstring list option"
  mc_guid :: "wstring \<Rightarrow> wstring option"

definition mc_policy :: "manager_consts \<Rightarrow> SignaturePolicy" where
  "mc_policy mc = build_signature_policy (mc_stable_build mc) (mc_signer mc)"

record manager_view =
  mv_files :: package_env
  mv_bytes :: "wstring \<Rightarrow> byte list option"
  mv_elevation :: "bool option"
  mv_pipe :: bool
  mv_snapshot :: "wstring list option"

record Readiness =
  rd_package_ok :: bool
  rd_game_ok :: bool
  rd_simhub_installed :: bool
  rd_pipe_ready :: bool
  rd_elevated :: bool
  rd_privilege_ok :: bool
  rd_game_arch :: PeArchitecture
  rd_simhub_executable :: wstring

definition game_architecture :: "manager_view \<Rightarrow> wstring \<Rightarrow> PeArchitecture" where
  "game_architecture v game_path =
     (if \<not> path_is_absolute_local (fs_drive (mv_files v)) game_path then pe_unknown
      else fst (read_pe_architecture (mv_bytes v (c_str game_path))))"

definition collect_readiness :: "manager_consts \<Rightarrow> manager_view \<Rightarrow> Profile \<Rightarrow> Readiness" where
  "collect_readiness mc v profile =
     (let e = mv_files v; layout = mc_layout mc;
          integrity = verify_package_integrity e layout;
          signature_policy = mc_policy mc;
          signatures = verify_package_signatures e layout (mc_executable mc) signature_policy;
          package_ok = (if sp_required signature_policy \<and> \<not> sr_allowed signatures then False else ir_valid integrity);
          game_arch = game_architecture v (pf_game_path profile);
          game_ok = (if game_arch = pe_unknown then False
            else fst (read_pe_architecture (mv_bytes v (c_str (launcher_path_for layout game_arch)))) = game_arch
               \<and> fst (read_pe_architecture (mv_bytes v (c_str (hook_path_for layout game_arch)))) = game_arch)
      in \<lparr>rd_package_ok = package_ok, rd_game_ok = game_ok,
          rd_simhub_installed = installed_plugins_match e layout profile,
          rd_pipe_ready = mv_pipe v,
          rd_elevated = (case mv_elevation v of None \<Rightarrow> True | Some elevated \<Rightarrow> elevated),
          rd_privilege_ok = (case mv_elevation v of None \<Rightarrow> False | Some elevated \<Rightarrow> \<not> elevated),
          rd_game_arch = game_arch,
          rd_simhub_executable =
            (if path_is_absolute_local (fs_drive e) (pf_simhub_path profile)
             then find_simhub_executable e (pf_simhub_path profile) else [])\<rparr>)"

section \<open>Lemmas\<close>

lemma privilege_ok: "rd_privilege_ok (collect_readiness mc v p) \<longleftrightarrow> mv_elevation v = Some False"
  by (auto simp: collect_readiness_def Let_def split: option.split)

text \<open>A game that is ready has the architecture of the launcher and the hook that would be used.\<close>

lemma game_ok:
  assumes "rd_game_ok (collect_readiness mc v p)"
  obtains "rd_game_arch (collect_readiness mc v p) \<noteq> pe_unknown"
    "fst (read_pe_architecture (mv_bytes v (c_str (launcher_path_for (mc_layout mc) (rd_game_arch (collect_readiness mc v p)))))) =
       rd_game_arch (collect_readiness mc v p)"
    "fst (read_pe_architecture (mv_bytes v (c_str (pf_game_path p)))) = rd_game_arch (collect_readiness mc v p)"
  using assms by (auto simp: collect_readiness_def Let_def game_architecture_def split: if_splits)

end
