(* ===== verification/Manager_Window.thy ===== *)
theory Manager_Window imports Manager_Readiness begin

text \<open>
  The window of the manager: the state of \<open>ManagerWindow\<close> of \<open>src/launcher/manager_main.cpp\<close> and its
  operations, from \<open>initialize_state\<close> to \<open>handle_command\<close>.  A handler is a function from the state and the
  answers of Windows and the user to the new state; \<open>None\<close> is a handler that has not returned within the
  answers given.  While a handler runs, \<open>busy_\<close> makes the window ignore all other commands.
\<close>

section \<open>The state\<close>

text \<open>What was started: the process, the package and the locks it was started with, whether the
  manager was known to be elevated, and whether its end was seen.\<close>

record launched =
  ln_start :: process_start
  ln_files :: package_env
  ln_handles :: "(wstring \<times> bool) list"
  ln_elevation :: "bool option"
  ln_ended :: bool

text \<open>\<open>mw_form\<close> holds the texts of the controls, \<open>mw_log\<close> the helpers and launchers that were started.  The
  controls that change an installation or launch a game are enabled apart from the others.\<close>

record window =
  mw_profiles :: "Profile list"
  mw_current :: nat
  mw_form :: Profile
  mw_store :: user_registry
  mw_busy :: bool
  mw_in_doubt :: bool
  mw_lock :: "(wstring \<times> bool) list"
  mw_changes_enabled :: bool
  mw_others_enabled :: bool
  mw_log :: "launched list"
  mw_open :: bool

definition set_busy :: "bool \<Rightarrow> window \<Rightarrow> window" where
  "set_busy b w = w\<lparr>mw_busy := b, mw_others_enabled := \<not> b,
     mw_changes_enabled := (\<not> b \<and> \<not> mw_in_doubt w)\<rparr>"

definition profile_from_form :: "window \<Rightarrow> Profile" where
  "profile_from_form w = (mw_form w)\<lparr>pf_id := pf_id (mw_profiles w ! mw_current w)\<rparr>"

definition load_profile_to_form :: "Profile \<Rightarrow> window \<Rightarrow> window" where
  "load_profile_to_form p w = w\<lparr>mw_form := p\<rparr>"

section \<open>Profiles\<close>

text \<open>The last profile with the identifier, the first profile if there is none.\<close>

fun select_loop :: "wstring \<Rightarrow> nat \<Rightarrow> nat \<Rightarrow> Profile list \<Rightarrow> nat" where
  "select_loop selected_id index selected [] = selected"
| "select_loop selected_id index selected (p # ps) =
     select_loop selected_id (Suc index) (if wcsicmp_eq (pf_id p) selected_id then index else selected) ps"

definition refresh_profile_combo :: "wstring \<Rightarrow> window \<Rightarrow> window" where
  "refresh_profile_combo selected_id w =
     (let selected = select_loop selected_id 0 0 (mw_profiles w) in
      load_profile_to_form (mw_profiles w ! selected) (w\<lparr>mw_current := selected\<rparr>))"

definition save_current :: "manager_consts \<Rightarrow> (nat \<Rightarrow> bool) \<Rightarrow> window \<Rightarrow> bool \<times> window" where
  "save_current mc ok w =
     (let profile = profile_from_form w in
      if pf_name profile = [] then (False, w)
      else case profile_save (mc_guid mc) ok profile True (mw_store w) of
        (False, r) \<Rightarrow> (False, w\<lparr>mw_store := r\<rparr>)
      | (True, r) \<Rightarrow> (True, w\<lparr>mw_store := r, mw_profiles := (mw_profiles w)[mw_current w := profile]\<rparr>))"

definition select_profile :: "manager_consts \<Rightarrow> (nat \<Rightarrow> bool) \<Rightarrow> (nat \<Rightarrow> bool) \<Rightarrow> nat \<Rightarrow> window \<Rightarrow> window" where
  "select_profile mc ok ok_active selected w =
     (if length (mw_profiles w) \<le> selected then w
      else
        let previous = profile_from_form w in
        if pf_name previous = [] then w
        else case profile_save (mc_guid mc) ok previous False (mw_store w) of
          (False, r) \<Rightarrow> w\<lparr>mw_store := r\<rparr>
        | (True, r) \<Rightarrow>
            let profiles = (mw_profiles w)[mw_current w := previous];
                w = load_profile_to_form (profiles ! selected)
                      (w\<lparr>mw_store := r, mw_profiles := profiles, mw_current := selected\<rparr>)
            in w\<lparr>mw_store := snd (set_active (mc_guid mc) ok_active (pf_id (profiles ! selected)) (mw_store w))\<rparr>)"

definition new_game_name :: wstring where "new_game_name = [0x65B0, 0x7684, 0x96E2, 0x7DDA, 0x904A, 0x6232]"
definition my_game_name :: wstring where "my_game_name = [0x6211, 0x7684, 0x96E2, 0x7DDA, 0x904A, 0x6232]"

definition fresh_profile :: "wstring option \<Rightarrow> wstring \<Rightarrow> wstring \<Rightarrow> Profile" where
  "fresh_profile created name simhub_path = \<lparr>pf_id = create_id created, pf_name = name, pf_game_path = [],
     pf_game_arguments = [], pf_simhub_path = simhub_path, pf_auto_start_simhub = True\<rparr>"

definition new_profile ::
  "manager_consts \<Rightarrow> (nat \<Rightarrow> bool) \<Rightarrow> wstring option \<Rightarrow> (nat \<Rightarrow> bool) \<Rightarrow> window \<Rightarrow> window" where
  "new_profile mc ok created ok_new w =
     (if 64 \<le> length (mw_profiles w) then w
      else case save_current mc ok w of
        (False, w) \<Rightarrow> w
      | (True, w) \<Rightarrow>
          let profile = fresh_profile created new_game_name (pf_simhub_path (mw_form w)) in
          if pf_id profile = [] then w
          else case profile_save (mc_guid mc) ok_new profile True (mw_store w) of
            (False, r) \<Rightarrow> w\<lparr>mw_store := r\<rparr>
          | (True, r) \<Rightarrow> refresh_profile_combo (pf_id profile)
              (w\<lparr>mw_store := r, mw_profiles := mw_profiles w @ [profile],
                 mw_current := length (mw_profiles w)\<rparr>))"

text \<open>Without a profile left a default one is made; when that fails the window closes.\<close>

definition delete_profile ::
  "manager_consts \<Rightarrow> bool \<Rightarrow> wstring option \<Rightarrow> wstring \<Rightarrow> (nat \<Rightarrow> bool) \<Rightarrow> (nat \<Rightarrow> bool) \<Rightarrow> window \<Rightarrow> window" where
  "delete_profile mc deleted created simhub_path ok ok_active w =
     (case profile_erase (mc_guid mc) deleted (pf_id (mw_profiles w ! mw_current w)) (mw_store w) of
        (False, r) \<Rightarrow> w\<lparr>mw_store := r\<rparr>
      | (True, r) \<Rightarrow>
          let profiles = take (mw_current w) (mw_profiles w) @ drop (Suc (mw_current w)) (mw_profiles w);
              finish = (\<lambda>w. let first_id = pf_id (hd (mw_profiles w)); w = refresh_profile_combo first_id w
                in w\<lparr>mw_store := snd (set_active (mc_guid mc) ok_active first_id (mw_store w))\<rparr>)
          in if profiles \<noteq> [] then finish (w\<lparr>mw_store := r, mw_profiles := profiles\<rparr>)
          else
            let profile = fresh_profile created my_game_name simhub_path in
            if pf_id profile = [] then w\<lparr>mw_store := r, mw_profiles := [], mw_open := False\<rparr>
            else case profile_save (mc_guid mc) ok profile True r of
              (False, r) \<Rightarrow> w\<lparr>mw_store := r, mw_profiles := [], mw_open := False\<rparr>
            | (True, r) \<Rightarrow> finish (w\<lparr>mw_store := r, mw_profiles := [profile]\<rparr>))"

definition file_name_without_extension :: "wstring \<Rightarrow> wstring" where
  "file_name_without_extension path =
     (let name = (case find_last_of separator path of None \<Rightarrow> path | Some slash \<Rightarrow> drop (Suc slash) path) in
      case find_last_of (\<lambda>c. c = dot) name of None \<Rightarrow> name | Some d \<Rightarrow> take d name)"

definition browse_game :: "wstring option \<Rightarrow> window \<Rightarrow> window" where
  "browse_game selected w =
     (case selected of
        None \<Rightarrow> w
      | Some path \<Rightarrow>
          let form = (mw_form w)\<lparr>pf_game_path := path\<rparr> in
          w\<lparr>mw_form := (if pf_name form = my_game_name \<or> pf_name form = new_game_name
                        then form\<lparr>pf_name := file_name_without_extension path\<rparr> else form)\<rparr>)"

definition browse_simhub :: "wstring option \<Rightarrow> window \<Rightarrow> window" where
  "browse_simhub selected w =
     (case selected of None \<Rightarrow> w | Some path \<Rightarrow> w\<lparr>mw_form := (mw_form w)\<lparr>pf_simhub_path := path\<rparr>\<rparr>)"

section \<open>The start\<close>

definition initialize_state ::
  "manager_consts \<Rightarrow> load_answers \<Rightarrow> wstring option \<Rightarrow> wstring \<Rightarrow> (nat \<Rightarrow> bool) \<Rightarrow> user_registry \<Rightarrow> window option" where
  "initialize_state mc a created simhub_path ok r =
     (case profile_load (mc_guid mc) a r of
        Inl _ \<Rightarrow> None
      | Inr (profiles, active_id) \<Rightarrow>
          let window = (\<lambda>profiles r. \<lparr>mw_profiles = profiles, mw_current = 0, mw_form = hd profiles, mw_store = r,
                mw_busy = False, mw_in_doubt = False, mw_lock = [], mw_changes_enabled = True, mw_others_enabled = True,
                mw_log = [], mw_open = True\<rparr>)
          in if profiles \<noteq> [] then Some (refresh_profile_combo active_id (window profiles r))
          else
            let profile = fresh_profile created my_game_name simhub_path in
            if pf_id profile = [] then None
            else case profile_save (mc_guid mc) ok profile True r of
              (False, _) \<Rightarrow> None
            | (True, r) \<Rightarrow> Some (refresh_profile_combo (pf_id profile) (window [profile] r)))"

section \<open>Scripts\<close>

record script_answers =
  sa_elevation :: "bool option"
  sa_system :: system_env
  sa_descriptor :: bool
  sa_attempts :: "nat \<Rightarrow> event_attempt"
  sa_process :: process_answers

text \<open>What is kept of a process: the log, and the lock when it may still be running.\<close>

definition log_start ::
  "package_env \<Rightarrow> (wstring \<times> bool) list \<Rightarrow> bool option \<Rightarrow> run_result \<Rightarrow> window \<Rightarrow> window" where
  "log_start e handles elevation r w =
     (case rr_started r of
        None \<Rightarrow> w
      | Some s \<Rightarrow> w\<lparr>mw_log := mw_log w @ [\<lparr>ln_start = s, ln_files = e, ln_handles = handles,
          ln_elevation = elevation, ln_ended = (\<not> rr_may_be_running r)\<rparr>]\<rparr>)"

definition keep_in_doubt :: "(wstring \<times> bool) list \<Rightarrow> run_result \<Rightarrow> window \<Rightarrow> window" where
  "keep_in_doubt handles r w =
     (if rr_may_be_running r then w\<lparr>mw_in_doubt := True, mw_lock := handles\<rparr> else w)"

text \<open>The result: whether the script was run to its end, its exit code (1 when none was read), and the
  state.\<close>

definition run_script ::
  "manager_consts \<Rightarrow> wstring \<Rightarrow> Profile \<Rightarrow> script_answers \<Rightarrow> window \<Rightarrow> (bool \<times> u32 \<times> window) option" where
  "run_script mc script profile a w =
     (let layout = mc_layout mc; e = sy_files (sa_system a);
          is_installer = wcsicmp_eq script (pl_installer_script layout);
          is_uninstaller = wcsicmp_eq script (pl_uninstaller_script layout)
      in if \<not> is_installer \<and> \<not> is_uninstaller then Some (False, 1, w)
      else if sa_elevation a \<noteq> Some False then Some (False, 1, w)
      else case acquire_package_read_lock e layout [] of
        (Some _, _) \<Rightarrow> Some (False, 1, w)
      | (None, handles) \<Rightarrow>
          if \<not> ir_valid (verify_package_integrity e layout)
            \<or> \<not> sr_allowed (verify_package_signatures e layout (mc_executable mc) (mc_policy mc))
          then Some (False, 1, w)
          else case locate_system_windows_powershell (sa_system a) of
            Inl _ \<Rightarrow> Some (False, 1, w)
          | Inr power_shell \<Rightarrow>
              (case create_manager_invocation_event (sa_descriptor a) (sa_attempts a) of
                 Inl _ \<Rightarrow> Some (False, 1, w)
               | Inr event_name \<Rightarrow>
                   let op = (if is_installer then InstallOperation else UninstallOperation) in
                   map_option
                     (\<lambda>r. (rr_ok r, (case rr_exit r of None \<Rightarrow> 1 | Some code \<Rightarrow> code),
                        (if \<not> rr_ok r then keep_in_doubt handles r else id)
                          (log_start e handles (sa_elevation a) r w)))
                     (run_elevated_process e (mc_executable mc) (system_directory_for_power_shell power_shell)
                       (helper_arguments op event_name (pf_simhub_path profile)) True 600000 (sa_process a))))"

section \<open>Installing\<close>

text \<open>The answers to an attempt to install: the view, the script, whether the user wants an upgrade to
  be retried and the script that removes the old version.\<close>

record install_answers =
  ia_view :: manager_view
  ia_script :: script_answers
  ia_retry :: bool
  ia_remove :: script_answers

definition simhub_running :: "manager_view \<Rightarrow> bool" where
  "simhub_running v = process_running (mv_snapshot v) (wide ''SimHub.exe'') (Some (wide ''SimHubWPF.exe''))"

fun install_plugin ::
  "manager_consts \<Rightarrow> bool \<Rightarrow> install_answers list \<Rightarrow> window \<Rightarrow> (bool \<times> window) option" where
  "install_plugin mc allow_upgrade_retry [] w = None"
| "install_plugin mc allow_upgrade_retry (a # as) w =
     (let profile = profile_from_form w; readiness = collect_readiness mc (ia_view a) profile in
      if \<not> rd_package_ok readiness \<or> \<not> rd_privilege_ok readiness \<or> rd_simhub_executable readiness = []
        \<or> simhub_running (ia_view a) then Some (False, w)
      else case run_script mc (pl_installer_script (mc_layout mc)) profile (ia_script a) (set_busy True w) of
        None \<Rightarrow> None
      | Some (invoked, exit_code, w1) \<Rightarrow>
          let w2 = set_busy False w1 in
          if mw_in_doubt w2 then Some (False, w2)
          else if invoked \<and> exit_code = 0 then Some (True, w2)
          else if allow_upgrade_retry \<and> ia_retry a then
            (case run_script mc (pl_uninstaller_script (mc_layout mc)) profile (ia_remove a) (set_busy True w2) of
               None \<Rightarrow> None
             | Some (removed, uninstall_exit, w3) \<Rightarrow>
                 let w4 = set_busy False w3 in
                 if removed \<and> uninstall_exit = 0 then install_plugin mc False as w4 else Some (False, w4))
          else Some (False, w2))"

definition uninstall_plugin ::
  "manager_consts \<Rightarrow> manager_view \<Rightarrow> bool \<Rightarrow> script_answers \<Rightarrow> window \<Rightarrow> window option" where
  "uninstall_plugin mc v confirmed a w =
     (let profile = profile_from_form w; readiness = collect_readiness mc v profile in
      if \<not> rd_package_ok readiness \<or> \<not> rd_privilege_ok readiness \<or> simhub_running v \<or> \<not> confirmed then Some w
      else map_option (\<lambda>(invoked, exit_code, w1). set_busy False w1)
             (run_script mc (pl_uninstaller_script (mc_layout mc)) profile a (set_busy True w)))"

section \<open>Launching\<close>

text \<open>The wait for the pipe of the plugin: the clock before a poll, whether the pipe is ready, and
  whether the messages were pumped without a request to quit.\<close>

fun await_pipe :: "u64 \<Rightarrow> (u64 \<times> bool \<times> bool) list \<Rightarrow> bool option" where
  "await_pipe deadline [] = None"
| "await_pipe deadline ((now, ready, pumped) # polls) =
     (if deadline \<le> now then Some False
      else if ready then Some True
      else if \<not> pumped then Some False
      else await_pipe deadline polls)"

record pipe_answers =
  pp_started :: bool
  pp_clock :: u64
  pp_polls :: "(u64 \<times> bool \<times> bool) list"

definition ensure_pipe :: "Readiness \<Rightarrow> pipe_answers \<Rightarrow> window \<Rightarrow> (bool \<times> window) option" where
  "ensure_pipe initial a w =
     (let profile = profile_from_form w in
      if rd_pipe_ready initial then Some (True, w)
      else if \<not> pf_auto_start_simhub profile \<or> rd_simhub_executable initial = [] \<or> \<not> pp_started a then Some (False, w)
      else map_option (\<lambda>ready. (ready, set_busy False (set_busy True w)))
             (await_pipe (pp_clock a + 30000) (pp_polls a)))"

record launch_answers =
  la_view :: manager_view
  la_install :: bool
  la_installs :: "install_answers list"
  la_after :: manager_view
  la_pipe :: pipe_answers
  la_files :: package_env
  la_process :: process_answers

text \<open>From the arguments on: \<open>view\<close> is what the checks saw.\<close>

definition start_game ::
  "manager_consts \<Rightarrow> manager_view \<Rightarrow> Readiness \<Rightarrow> launch_answers \<Rightarrow> window \<Rightarrow> window option" where
  "start_game mc v readiness a w =
     (let profile = profile_from_form w; layout = mc_layout mc; e = la_files a in
      case split_game_arguments (mc_split mc) (pf_game_arguments profile) of
        None \<Rightarrow> Some w
      | Some game_arguments \<Rightarrow>
          (case acquire_package_read_lock e layout [] of
             (Some _, _) \<Rightarrow> Some w
           | (None, handles) \<Rightarrow>
               if \<not> ir_valid (verify_package_integrity e layout)
                 \<or> \<not> sr_allowed (verify_package_signatures e layout (mc_executable mc) (mc_policy mc)) then Some w
               else map_option
                 (\<lambda>r. set_busy False (keep_in_doubt handles r
                    (log_start e handles (mv_elevation v) r (set_busy True w))))
                 (run_process e (launcher_path_for layout (rd_game_arch readiness))
                   (launcher_arguments (pf_game_path profile) game_arguments) 120000 (la_process a))))"

definition launch_game :: "manager_consts \<Rightarrow> launch_answers \<Rightarrow> window \<Rightarrow> window option" where
  "launch_game mc a w =
     (let readiness = collect_readiness mc (la_view a) (profile_from_form w);
          go = (\<lambda>readiness w.
            case ensure_pipe readiness (la_pipe a) w of
              None \<Rightarrow> None
            | Some (False, w) \<Rightarrow> Some w
            | Some (True, w) \<Rightarrow> start_game mc (la_view a) readiness a w)
      in if \<not> rd_package_ok readiness \<or> \<not> rd_privilege_ok readiness \<or> \<not> rd_game_ok readiness then Some w
      else if rd_simhub_installed readiness then go readiness w
      else if \<not> la_install a then Some w
      else case install_plugin mc True (la_installs a) w of
        None \<Rightarrow> None
      | Some (False, w) \<Rightarrow> Some w
      | Some (True, w) \<Rightarrow> go (collect_readiness mc (la_after a) (profile_from_form w)) w)"

section \<open>Commands\<close>

datatype command =
    SelectProfile nat "nat \<Rightarrow> bool" "nat \<Rightarrow> bool"
  | NewProfile "nat \<Rightarrow> bool" "wstring option" "nat \<Rightarrow> bool"
  | SaveProfile "nat \<Rightarrow> bool"
  | DeleteProfile bool bool "wstring option" wstring "nat \<Rightarrow> bool" "nat \<Rightarrow> bool"
  | BrowseGame "wstring option"
  | BrowseSimHub "wstring option"
  | CheckEnvironment "nat \<Rightarrow> bool"
  | InstallPlugin "nat \<Rightarrow> bool" "install_answers list"
  | UninstallPlugin "nat \<Rightarrow> bool" manager_view bool script_answers
  | LaunchGame "nat \<Rightarrow> bool" launch_answers

definition after_save ::
  "manager_consts \<Rightarrow> (nat \<Rightarrow> bool) \<Rightarrow> (window \<Rightarrow> window option) \<Rightarrow> window \<Rightarrow> window option" where
  "after_save mc ok f w = (case save_current mc ok w of (False, w) \<Rightarrow> Some w | (True, w) \<Rightarrow> f w)"

definition handle_command :: "manager_consts \<Rightarrow> command \<Rightarrow> window \<Rightarrow> window option" where
  "handle_command mc c w =
     (if mw_busy w then Some w
      else case c of
        SelectProfile selected ok ok_active \<Rightarrow> Some (select_profile mc ok ok_active selected w)
      | NewProfile ok created ok_new \<Rightarrow> Some (new_profile mc ok created ok_new w)
      | SaveProfile ok \<Rightarrow> Some (snd (save_current mc ok w))
      | DeleteProfile confirmed deleted created simhub_path ok ok_active \<Rightarrow>
          Some (if confirmed then delete_profile mc deleted created simhub_path ok ok_active w else w)
      | BrowseGame selected \<Rightarrow> Some (browse_game selected w)
      | BrowseSimHub selected \<Rightarrow> Some (browse_simhub selected w)
      | CheckEnvironment ok \<Rightarrow> Some (snd (save_current mc ok w))
      | InstallPlugin ok as \<Rightarrow> after_save mc ok (\<lambda>w. map_option snd (install_plugin mc True as w)) w
      | UninstallPlugin ok v confirmed a \<Rightarrow> after_save mc ok (uninstall_plugin mc v confirmed a) w
      | LaunchGame ok a \<Rightarrow> after_save mc ok (launch_game mc a) w)"

text \<open>A disabled control sends no command.\<close>

fun changes_installation :: "command \<Rightarrow> bool" where
  "changes_installation (InstallPlugin _ _) = True"
| "changes_installation (UninstallPlugin _ _ _ _) = True"
| "changes_installation (LaunchGame _ _) = True"
| "changes_installation _ = False"

definition command_enabled :: "command \<Rightarrow> window \<Rightarrow> bool" where
  "command_enabled c w \<longleftrightarrow> (if changes_installation c then mw_changes_enabled w else mw_others_enabled w)"

text \<open>\<open>WM_CLOSE\<close>.\<close>

definition handle_close :: "window \<Rightarrow> window" where
  "handle_close w = (if mw_busy w then w else w\<lparr>mw_open := False\<rparr>)"

text \<open>A step of the window: a command of an enabled control, text that the user types, or closing.\<close>

inductive window_step :: "manager_consts \<Rightarrow> window \<Rightarrow> command option \<Rightarrow> window \<Rightarrow> bool" for mc :: manager_consts where
  command: "mw_open w \<Longrightarrow> command_enabled c w \<Longrightarrow> handle_command mc c w = Some w' \<Longrightarrow> window_step mc w (Some c) w'"
| typing: "mw_open w \<Longrightarrow> mw_others_enabled w \<Longrightarrow> window_step mc w None (w\<lparr>mw_form := form\<rparr>)"
| closing: "mw_open w \<Longrightarrow> window_step mc w None (handle_close w)"

inductive_cases window_stepE: "window_step mc w c w'"

end
