(* ===== verification/Window_Invariants.thy ===== *)
theory Window_Invariants imports Manager_Window begin

text \<open>
  What holds of the window of the manager in every state that it can reach: the profiles in memory are
  those of the store, and a process that may still be running keeps the package locked.
\<close>

section \<open>What profile operations leave alone\<close>

definition processes :: "window \<Rightarrow> launched list \<times> bool \<times> (wstring \<times> bool) list" where
  "processes w = (mw_log w, mw_in_doubt w, mw_lock w)"

definition controls :: "window \<Rightarrow> bool \<times> bool \<times> bool" where
  "controls w = (mw_busy w, mw_changes_enabled w, mw_others_enabled w)"

definition profile_part :: "window \<Rightarrow> Profile list \<times> nat \<times> user_registry \<times> Profile \<times> bool" where
  "profile_part w = (mw_profiles w, mw_current w, mw_store w, mw_form w, mw_open w)"

lemmas parts = processes_def controls_def profile_part_def

lemma part_updates [simp]:
  "processes (w\<lparr>mw_profiles := a\<rparr>) = processes w" "processes (w\<lparr>mw_current := n\<rparr>) = processes w"
  "processes (w\<lparr>mw_store := r\<rparr>) = processes w" "processes (w\<lparr>mw_form := f\<rparr>) = processes w"
  "processes (w\<lparr>mw_open := b\<rparr>) = processes w" "processes (set_busy b w) = processes w"
  "controls (w\<lparr>mw_profiles := a\<rparr>) = controls w" "controls (w\<lparr>mw_current := n\<rparr>) = controls w"
  "controls (w\<lparr>mw_store := r\<rparr>) = controls w" "controls (w\<lparr>mw_form := f\<rparr>) = controls w"
  "controls (w\<lparr>mw_open := b\<rparr>) = controls w"
  "profile_part (set_busy b w) = profile_part w"
  by (simp_all add: parts set_busy_def)

lemma refresh_parts [simp]:
  "processes (refresh_profile_combo i w) = processes w" "controls (refresh_profile_combo i w) = controls w"
  by (simp_all add: refresh_profile_combo_def load_profile_to_form_def Let_def)

lemma save_current_parts:
  "save_current mc ok w = (b, w') \<Longrightarrow> processes w' = processes w \<and> controls w' = controls w"
  by (auto simp: save_current_def Let_def split: if_splits prod.splits bool.splits)

lemma select_profile_parts:
  "processes (select_profile mc ok ok_active n w) = processes w \<and> controls (select_profile mc ok ok_active n w) = controls w"
  by (simp add: select_profile_def load_profile_to_form_def Let_def split: prod.split bool.split)

lemma new_profile_parts:
  "processes (new_profile mc ok created ok_new w) = processes w \<and> controls (new_profile mc ok created ok_new w) = controls w"
proof -
  obtain b w1 where s: "save_current mc ok w = (b, w1)" by fastforce
  with save_current_parts[OF s] show ?thesis
    by (simp add: new_profile_def Let_def split: prod.split bool.split)
qed

lemma delete_profile_parts:
  "processes (delete_profile mc deleted created sp ok oka w) = processes w
   \<and> controls (delete_profile mc deleted created sp ok oka w) = controls w"
  by (simp add: delete_profile_def Let_def split: prod.split bool.split)

lemma browse_parts:
  "processes (browse_game s w) = processes w" "controls (browse_game s w) = controls w"
  "processes (browse_simhub s w) = processes w" "controls (browse_simhub s w) = controls w"
  by (simp_all add: browse_game_def browse_simhub_def Let_def split: option.split)

section \<open>Processes\<close>

definition trusted_start :: "manager_consts \<Rightarrow> launched \<Rightarrow> bool" where
  "trusted_start mc l \<longleftrightarrow>
     trusted_package (ln_files l) (mc_layout mc) (mc_executable mc) (mc_policy mc) (ln_handles l)
     \<and> ln_elevation l = Some False
     \<and> ps_program (ln_start l) \<in> insert (mc_executable mc) (range (launcher_path_for (mc_layout mc)))"

definition processes_ok :: "manager_consts \<Rightarrow> window \<Rightarrow> bool" where
  "processes_ok mc w \<longleftrightarrow>
     (\<forall>l \<in> set (mw_log w). trusted_start mc l)
     \<and> (\<forall>l \<in> set (butlast (mw_log w)). ln_ended l)
     \<and> (mw_in_doubt w \<longleftrightarrow> mw_log w \<noteq> [] \<and> \<not> ln_ended (last (mw_log w)))
     \<and> (mw_in_doubt w \<longrightarrow> mw_lock w = ln_handles (last (mw_log w)))"

definition idle :: "window \<Rightarrow> bool" where
  "idle w \<longleftrightarrow> controls w = (False, \<not> mw_in_doubt w, True)"

lemma processes_ok_cong: "processes w' = processes w \<Longrightarrow> processes_ok mc w' = processes_ok mc w"
  by (simp add: processes_ok_def processes_def)

lemma idle_cong: "processes w' = processes w \<Longrightarrow> controls w' = controls w \<Longrightarrow> idle w' = idle w"
  by (simp add: idle_def processes_def)

lemma set_busy_idle [simp]: "idle (set_busy False w)"
  by (simp add: idle_def controls_def set_busy_def)

lemma set_busy_simps [simp]: "mw_in_doubt (set_busy b w) = mw_in_doubt w" "mw_log (set_busy b w) = mw_log w"
  "profile_from_form (set_busy b w) = profile_from_form w"
  by (simp_all add: set_busy_def profile_from_form_def)

lemma ended_all: "processes_ok mc w \<Longrightarrow> \<not> mw_in_doubt w \<Longrightarrow> l \<in> set (mw_log w) \<Longrightarrow> ln_ended l"
  by (cases "mw_log w" rule: rev_cases) (auto simp: processes_ok_def)

text \<open>A process is logged with the lock it was started under, and the lock kept if its end was not seen.\<close>

lemma logged:
  assumes "processes_ok mc w" and "\<not> mw_in_doubt w"
    and "rr_may_be_running r \<Longrightarrow> rr_started r \<noteq> None"
    and "\<And>s. rr_started r = Some s \<Longrightarrow> trusted_start mc
      \<lparr>ln_start = s, ln_files = e, ln_handles = handles, ln_elevation = el, ln_ended = \<not> rr_may_be_running r\<rparr>"
  shows "processes_ok mc (keep_in_doubt handles r (log_start e handles el r w))"
proof (cases "rr_started r")
  case None
  with assms(3) have "\<not> rr_may_be_running r" by auto
  with None assms(1) show ?thesis by (simp add: keep_in_doubt_def log_start_def)
next
  case (Some s)
  note t = assms(4)[OF Some] and old = ended_all[OF assms(1,2)]
  show ?thesis
    using t old assms(1,2) by (auto simp: processes_ok_def keep_in_doubt_def log_start_def Some)
qed

lemma logged_profiles [simp]: "profile_part (keep_in_doubt handles r (log_start e handles el r w)) = profile_part w"
  by (simp add: profile_part_def keep_in_doubt_def log_start_def split: option.split)

lemma run_script_ok:
  assumes "run_script mc script profile a w = Some (b, code, w')" and "processes_ok mc w" and "\<not> mw_in_doubt w"
  shows "processes_ok mc w' \<and> profile_part w' = profile_part w \<and> (b \<longrightarrow> \<not> mw_in_doubt w')"
proof (cases "w' = w")
  case False
  let ?e = "sy_files (sa_system a)"
  from assms(1) False obtain handles folder arguments r where b: "b = rr_ok r" and
    t: "trusted_package ?e (mc_layout mc) (mc_executable mc) (mc_policy mc) handles" "sa_elevation a = Some False"
    and r: "run_elevated_process ?e (mc_executable mc) folder arguments True 600000 (sa_process a) = Some r"
    and w': "w' = (if \<not> rr_ok r then keep_in_doubt handles r else id) (log_start ?e handles (sa_elevation a) r w)"
    unfolding run_script_def Let_def trusted_package_def
    by (auto split: if_splits option.splits sum.splits prod.splits)
  note o = run_elevated_observed(1,3)[OF r]
  have "rr_ok r \<Longrightarrow> \<not> rr_may_be_running r" using o(1) by (auto simp: observed_result_def)
  then have w'': "w' = keep_in_doubt handles r (log_start ?e handles (sa_elevation a) r w)"
    by (simp add: w' keep_in_doubt_def)
  have "processes_ok mc w'" unfolding w''
    by (rule logged[OF assms(2,3)]) (use o t in \<open>auto simp: observed_result_def trusted_start_def\<close>)
  moreover have "mw_in_doubt w' \<Longrightarrow> rr_may_be_running r"
    using assms(3) by (auto simp: w'' keep_in_doubt_def log_start_def split: if_splits option.splits)
  ultimately show ?thesis using \<open>rr_ok r \<Longrightarrow> \<not> rr_may_be_running r\<close> b by (auto simp: w'')
qed (use assms in simp)

text \<open>What every handler that may start a process does to a window that is idle and not in doubt.\<close>

definition handled :: "manager_consts \<Rightarrow> window \<Rightarrow> window \<Rightarrow> bool" where
  "handled mc w w' \<longleftrightarrow> processes_ok mc w' \<and> idle w' \<and> profile_part w' = profile_part w"

definition may_start :: "manager_consts \<Rightarrow> window \<Rightarrow> bool" where
  "may_start mc w \<longleftrightarrow> processes_ok mc w \<and> idle w \<and> \<not> mw_in_doubt w"

lemma handled_refl: "may_start mc w \<Longrightarrow> handled mc w w"
  by (simp add: handled_def may_start_def)

lemma handled_trans: "handled mc w w1 \<Longrightarrow> handled mc w1 w2 \<Longrightarrow> handled mc w w2"
  by (simp add: handled_def)

lemma may_start_after: "handled mc w w' \<Longrightarrow> \<not> mw_in_doubt w' \<Longrightarrow> may_start mc w'"
  by (simp add: handled_def may_start_def)

lemma run_script_handled:
  assumes "run_script mc script profile a (set_busy True w) = Some (b, code, w1)" and "may_start mc w"
  shows "handled mc w (set_busy False w1)" and "b \<Longrightarrow> \<not> mw_in_doubt w1"
proof -
  have "processes_ok mc (set_busy True w)" "\<not> mw_in_doubt (set_busy True w)"
    using assms(2) processes_ok_cong[of "set_busy True w" w] by (simp_all add: may_start_def)
  from run_script_ok[OF assms(1) this] show "handled mc w (set_busy False w1)" "b \<Longrightarrow> \<not> mw_in_doubt w1"
    using processes_ok_cong[of "set_busy False w1" w1] by (simp_all add: handled_def)
qed

lemma install_plugin_handled:
  "install_plugin mc up as w = Some (b, w') \<Longrightarrow> may_start mc w \<Longrightarrow> handled mc w w' \<and> (b \<longrightarrow> \<not> mw_in_doubt w')"
proof (induction as arbitrary: up w)
  case (Cons a as)
  let ?p = "profile_from_form w"
  show ?case
  proof (cases "(b, w') = (False, w)")
    case True
    with Cons.prems(2) show ?thesis by (simp add: handled_refl)
  next
    case False
    with Cons.prems(1) obtain invoked code w1 where
      s: "run_script mc (pl_installer_script (mc_layout mc)) ?p (ia_script a) (set_busy True w) = Some (invoked, code, w1)"
      by (auto simp: Let_def split: if_splits option.splits)
    note h = run_script_handled(1)[OF s Cons.prems(2)]
    let ?w2 = "set_busy False w1"
    show ?thesis
    proof (cases "(b, w') = (False, ?w2) \<or> (b, w') = (True, ?w2) \<and> \<not> mw_in_doubt w1")
      case True
      with h show ?thesis by auto
    next
      case False
      with Cons.prems(1) s \<open>(b, w') \<noteq> (False, w)\<close> have nd: "\<not> mw_in_doubt w1"
        by (auto simp: Let_def split: if_splits)
      from False Cons.prems(1) s nd \<open>(b, w') \<noteq> (False, w)\<close> obtain removed code' w3 where
        r: "run_script mc (pl_uninstaller_script (mc_layout mc)) ?p (ia_remove a) (set_busy True ?w2) = Some (removed, code', w3)"
        and rest: "(if removed \<and> code' = 0 then install_plugin mc False as (set_busy False w3)
             else Some (False, set_busy False w3)) = Some (b, w')"
        by (auto simp: Let_def split: if_splits option.splits)
      have m: "may_start mc ?w2" using may_start_after[OF h] nd by simp
      have h3: "handled mc w (set_busy False w3)" by (rule handled_trans[OF h run_script_handled(1)[OF r m]])
      show ?thesis
      proof (cases "removed \<and> code' = 0")
        case True
        with run_script_handled(2)[OF r m] have "may_start mc (set_busy False w3)" using may_start_after[OF h3] by simp
        from Cons.IH[OF _ this] rest True handled_trans[OF h3] show ?thesis by auto
      next
        case False
        with rest h3 show ?thesis by auto
      qed
    qed
  qed
qed simp

lemma uninstall_plugin_handled:
  assumes "uninstall_plugin mc v confirmed a w = Some w'" and "may_start mc w"
  shows "handled mc w w'"
proof (cases "w' = w")
  case False
  with assms(1) obtain b code w1 where
    "run_script mc (pl_uninstaller_script (mc_layout mc)) (profile_from_form w) a (set_busy True w) = Some (b, code, w1)"
    and "w' = set_busy False w1"
    by (auto simp: uninstall_plugin_def Let_def split: if_splits)
  with run_script_handled(1)[OF _ assms(2)] show ?thesis by blast
qed (use handled_refl[OF assms(2)] in simp)

lemma ensure_pipe_handled:
  assumes "ensure_pipe readiness a w = Some (b, w')" and "may_start mc w"
  shows "handled mc w w' \<and> \<not> mw_in_doubt w'"
proof -
  have c: "w' = w \<or> w' = set_busy False (set_busy True w)"
    using assms(1) by (auto simp: ensure_pipe_def Let_def split: if_splits)
  have "processes (set_busy False (set_busy True w)) = processes w" by simp
  from processes_ok_cong[OF this, of mc] have "handled mc w (set_busy False (set_busy True w))"
    using assms(2) by (simp add: handled_def may_start_def)
  with c show ?thesis using assms(2) handled_refl[OF assms(2)] by (elim disjE) (simp_all add: may_start_def)
qed

lemma run_process_program: "run_process e program arguments timeout a = Some r \<Longrightarrow> rr_started r = Some s \<Longrightarrow> ps_program s = program"
  by (auto simp: run_process_def split: if_splits option.splits)

lemma start_game_handled:
  assumes "start_game mc v readiness a w = Some w'" and "may_start mc w" and "mv_elevation v = Some False"
  shows "handled mc w w'"
proof (cases "w' = w")
  case False
  let ?e = "la_files a"
  from assms(1) False obtain handles arguments r where
    t: "trusted_package ?e (mc_layout mc) (mc_executable mc) (mc_policy mc) handles"
    and r: "run_process ?e (launcher_path_for (mc_layout mc) (rd_game_arch readiness)) arguments 120000 (la_process a) = Some r"
    and w': "w' = set_busy False (keep_in_doubt handles r (log_start ?e handles (mv_elevation v) r (set_busy True w)))"
    unfolding start_game_def Let_def trusted_package_def
    by (auto split: if_splits option.splits prod.splits)
  let ?k = "keep_in_doubt handles r (log_start ?e handles (mv_elevation v) r (set_busy True w))"
  have b: "processes_ok mc (set_busy True w)" "\<not> mw_in_doubt (set_busy True w)"
    using assms(2) processes_ok_cong[of "set_busy True w" w] by (simp_all add: may_start_def)
  have "processes_ok mc ?k"
    by (rule logged[OF b])
      (use run_process_observed(1)[OF r] run_process_program[OF r] t assms(3) in
        \<open>auto simp: observed_result_def trusted_start_def\<close>)
  then show ?thesis using processes_ok_cong[of w' ?k] by (simp add: handled_def w')
qed (use handled_refl[OF assms(2)] in simp)

lemma launch_game_handled:
  assumes "launch_game mc a w = Some w'" and "may_start mc w"
  shows "handled mc w w'"
proof -
  let ?rd = "collect_readiness mc (la_view a) (profile_from_form w)"
  have go: "handled mc w0 w'" if "rd_privilege_ok ?rd" "may_start mc w0"
      "(case ensure_pipe rd (la_pipe a) w0 of None \<Rightarrow> None | Some (False, w) \<Rightarrow> Some w
         | Some (True, w) \<Rightarrow> start_game mc (la_view a) rd a w) = Some w'" for rd w0
  proof -
    from that(3) obtain b w1 where e: "ensure_pipe rd (la_pipe a) w0 = Some (b, w1)"
      and s: "w' = w1 \<or> start_game mc (la_view a) rd a w1 = Some w'"
      by (auto split: option.splits bool.splits)
    note h = ensure_pipe_handled[OF e that(2)]
    then have m: "may_start mc w1" using may_start_after by blast
    have el: "mv_elevation (la_view a) = Some False" using that(1) by (simp add: privilege_ok)
    from s h start_game_handled[OF _ m el] handled_trans show ?thesis by blast
  qed
  show ?thesis
  proof (cases "w' = w")
    case False
    show ?thesis
    proof (cases "rd_simhub_installed ?rd")
      case True
      with assms(1) False go[OF _ assms(2)] show ?thesis by (simp add: launch_game_def Let_def split: if_splits)
    next
      case False
      with assms(1) \<open>w' \<noteq> w\<close> obtain b w1 where i: "install_plugin mc True (la_installs a) w = Some (b, w1)"
        "rd_privilege_ok ?rd"
        by (auto simp: launch_game_def Let_def split: if_splits option.splits)
      note h = install_plugin_handled[OF i(1) assms(2)]
      show ?thesis
      proof (cases b)
        case True
        then have "may_start mc w1" using h may_start_after by blast
        from go[OF i(2) this] assms(1) False \<open>w' \<noteq> w\<close> i True h handled_trans show ?thesis
          by (simp add: launch_game_def Let_def split: if_splits)
      next
        case b: False
        with assms(1) False \<open>w' \<noteq> w\<close> i h show ?thesis
          by (simp add: launch_game_def Let_def split: if_splits)
      qed
    qed
  qed (use handled_refl[OF assms(2)] in simp)
qed

lemma changing_command:
  assumes "handle_command mc c w = Some w'" and "changes_installation c" and "may_start mc w"
  obtains ok b w1 where "save_current mc ok w = (b, w1)" and "handled mc w1 w'"
proof -
  note found = that
  have nb: "\<not> mw_busy w" using assms(3) by (simp add: may_start_def idle_def controls_def)
  have after: thesis if a: "after_save mc ok f w = Some w'"
    and f: "\<And>w0. f w0 = Some w' \<Longrightarrow> may_start mc w0 \<Longrightarrow> handled mc w0 w'" for ok f
  proof -
    obtain b w1 where s: "save_current mc ok w = (b, w1)" by fastforce
    note p = save_current_parts[OF s]
    have m: "may_start mc w1"
      using assms(3) p processes_ok_cong[of w1 w mc] idle_cong[of w1 w] by (simp add: may_start_def processes_def)
    from a s have "w' = w1 \<or> f w1 = Some w'" by (cases b) (auto simp: after_save_def)
    with f[OF _ m] handled_refl[OF m] have "handled mc w1 w'" by blast
    with s show thesis by (rule found)
  qed
  show thesis
  proof (cases c)
    case (InstallPlugin ok as)
    with assms(1) nb have a: "after_save mc ok (\<lambda>w. map_option snd (install_plugin mc True as w)) w = Some w'"
      by (simp add: handle_command_def)
    show thesis by (rule after[OF a]) (use install_plugin_handled in auto)
  next
    case (UninstallPlugin ok v confirmed a)
    with assms(1) nb have "after_save mc ok (uninstall_plugin mc v confirmed a) w = Some w'"
      by (simp add: handle_command_def)
    from this uninstall_plugin_handled show thesis by (rule after)
  next
    case (LaunchGame ok a)
    with assms(1) nb have "after_save mc ok (launch_game mc a) w = Some w'" by (simp add: handle_command_def)
    from this launch_game_handled show thesis by (rule after)
  qed (use assms(2) in auto)
qed

lemma other_command:
  assumes "handle_command mc c w = Some w'" and "\<not> changes_installation c"
  shows "processes w' = processes w \<and> controls w' = controls w"
proof -
  have s: "processes (snd (save_current mc ok w)) = processes w \<and> controls (snd (save_current mc ok w)) = controls w" for ok
    using save_current_parts[of mc ok w "fst (save_current mc ok w)" "snd (save_current mc ok w)"] by simp
  show ?thesis
    using assms s select_profile_parts new_profile_parts delete_profile_parts browse_parts
    by (cases c) (auto simp: handle_command_def split: if_splits)
qed

lemma step_processes:
  assumes "window_step mc w c w'" and "processes_ok mc w" and "idle w"
  shows "processes_ok mc w' \<and> idle w' \<and> (mw_in_doubt w \<longrightarrow> processes w' = processes w)"
proof -
  have same: ?thesis if "processes w' = processes w" "controls w' = controls w"
    using that assms(2,3) processes_ok_cong[OF that(1)] idle_cong[OF that] by simp
  from assms(1) show ?thesis
  proof (cases rule: window_step.cases)
    case (command c)
    show ?thesis
    proof (cases "changes_installation c")
      case True
      with command(3) assms(2,3) have m: "may_start mc w"
        by (auto simp: command_enabled_def may_start_def idle_def controls_def)
      from changing_command[OF command(4) True m] obtain ok b w1 where "save_current mc ok w = (b, w1)" "handled mc w1 w'" .
      with m show ?thesis by (simp add: handled_def may_start_def)
    next
      case False
      from other_command[OF command(4) this] same show ?thesis by blast
    qed
  next
    case (typing form)
    with same show ?thesis by simp
  next
    case closing
    with same show ?thesis by (simp add: handle_close_def split: if_splits)
  qed
qed

section \<open>Profiles\<close>

definition profiles_ok :: "manager_consts \<Rightarrow> window \<Rightarrow> bool" where
  "profiles_ok mc w \<longleftrightarrow>
     mw_current w < length (mw_profiles w) \<and> length (mw_profiles w) \<le> kMaximumProfiles
     \<and> ids_distinct (mw_profiles w) \<and> (\<forall>p \<in> set (mw_profiles w). valid_profile_id (mc_guid mc) (pf_id p))
     \<and> agrees_but (stored (mw_store w)) (mw_profiles w) (mw_current w)"

definition well_formed :: "manager_consts \<Rightarrow> window \<Rightarrow> bool" where
  "well_formed mc w \<longleftrightarrow> registry_ok (mw_store w) \<and> (mw_open w \<longrightarrow> profiles_ok mc w)"

lemma well_formed_cong: "profile_part w' = profile_part w \<Longrightarrow> well_formed mc w' = well_formed mc w"
  by (simp add: well_formed_def profiles_ok_def profile_part_def)

lemma form_ok [simp]: "well_formed mc (w\<lparr>mw_form := f\<rparr>) = well_formed mc w"
  by (simp add: well_formed_def profiles_ok_def)

lemma select_loop_range: "select_loop i n s ps = s \<or> n \<le> select_loop i n s ps \<and> select_loop i n s ps < n + length ps"
proof (induction ps arbitrary: n s)
  case (Cons p ps)
  from Cons.IH[of "Suc n" "if wcsicmp_eq (pf_id p) i then n else s"] show ?case by (auto split: if_splits)
qed simp

text \<open>A window whose profiles all agree with the store may edit any of them.\<close>

definition all_stored :: "manager_consts \<Rightarrow> Profile list \<Rightarrow> user_registry \<Rightarrow> bool" where
  "all_stored mc ps r \<longleftrightarrow> registry_ok r \<and> ps \<noteq> [] \<and> length ps \<le> kMaximumProfiles \<and> ids_distinct ps
     \<and> (\<forall>p \<in> set ps. valid_profile_id (mc_guid mc) (pf_id p)) \<and> agrees (stored r) ps"

lemma all_stored_ok:
  "all_stored mc (mw_profiles w) (mw_store w) \<Longrightarrow> mw_current w < length (mw_profiles w) \<Longrightarrow> well_formed mc w"
  by (simp add: all_stored_def well_formed_def profiles_ok_def agrees_weaken)

lemma refresh_fields [simp]:
  "mw_profiles (refresh_profile_combo i w) = mw_profiles w" "mw_store (refresh_profile_combo i w) = mw_store w"
  "mw_open (refresh_profile_combo i w) = mw_open w"
  by (simp_all add: refresh_profile_combo_def load_profile_to_form_def Let_def)

lemma refresh_current: "mw_profiles w \<noteq> [] \<Longrightarrow> mw_current (refresh_profile_combo i w) < length (mw_profiles w)"
  using select_loop_range[of i 0 0 "mw_profiles w"]
  by (auto simp: refresh_profile_combo_def load_profile_to_form_def Let_def)

lemma refresh_ok: "all_stored mc (mw_profiles w) (mw_store w) \<Longrightarrow> well_formed mc (refresh_profile_combo i w)"
  using refresh_current[of w i] by (intro all_stored_ok) (auto simp: all_stored_def)

text \<open>Marking a profile as active changes no profile.\<close>

lemma set_active_same:
  "stored (snd (set_active guid ok i r)) = stored r" "registry_ok r \<Longrightarrow> registry_ok (snd (set_active guid ok i r))"
proof -
  obtain b r' where s: "set_active guid ok i r = (b, r')" by fastforce
  note k = set_active_key_list[OF s]
  show "stored (snd (set_active guid ok i r)) = stored r" using stored_keys[OF k] by (simp add: s)
  have "rg_root r' \<or> r' = r" using s by (auto simp: set_active_def split: if_splits option.splits)
  then show "registry_ok r \<Longrightarrow> registry_ok (snd (set_active guid ok i r))" using k by (auto simp: s registry_ok_def)
qed

lemma active_ok: "well_formed mc (w\<lparr>mw_store := snd (set_active guid ok i (mw_store w))\<rparr>) \<longleftrightarrow> well_formed mc w"
  if "registry_ok (mw_store w)"
  using that set_active_same by (simp add: well_formed_def profiles_ok_def)

section \<open>Operations keep the window well formed\<close>

lemma form_id [simp]: "pf_id (profile_from_form w) = pf_id (mw_profiles w ! mw_current w)"
  by (simp add: profile_from_form_def)

lemma kept_ids:
  assumes "n < length ps" and "pf_id p = pf_id (ps ! n)"
  shows "map pf_id (ps[n := p]) = map pf_id ps" and "ids_distinct (ps[n := p]) = ids_distinct ps"
    and "(\<forall>q \<in> set (ps[n := p]). P (pf_id q)) = (\<forall>q \<in> set ps. P (pf_id q))"
proof -
  show m: "map pf_id (ps[n := p]) = map pf_id ps" using assms by (simp add: map_update list_update_same_conv)
  have "(\<forall>q \<in> set qs. P (pf_id q)) = list_all P (map pf_id qs)" for qs by (simp add: list_all_iff)
  from this[of "ps[n := p]"] this[of ps] m show "(\<forall>q \<in> set (ps[n := p]). P (pf_id q)) = (\<forall>q \<in> set ps. P (pf_id q))"
    by simp
  have "ids_distinct qs = distinct (map lower_copy (map pf_id qs))" for qs by (simp add: ids_distinct_def comp_def)
  from this[of "ps[n := p]"] this[of ps] m show "ids_distinct (ps[n := p]) = ids_distinct ps" by simp
qed

text \<open>Saving the form into the current profile.\<close>

lemma saved_form:
  assumes "profile_save (mc_guid mc) ok (profile_from_form w) act (mw_store w) = (b, r)"
    and "well_formed mc w" and "mw_open w"
  shows "b \<Longrightarrow> all_stored mc ((mw_profiles w)[mw_current w := profile_from_form w]) r"
    and "well_formed mc (w\<lparr>mw_store := r\<rparr>)"
proof -
  from assms(2,3) have ok: "registry_ok (mw_store w)" "mw_current w < length (mw_profiles w)"
    "length (mw_profiles w) \<le> kMaximumProfiles" "ids_distinct (mw_profiles w)"
    "\<forall>p \<in> set (mw_profiles w). valid_profile_id (mc_guid mc) (pf_id p)"
    "agrees_but (stored (mw_store w)) (mw_profiles w) (mw_current w)"
    by (simp_all add: well_formed_def profiles_ok_def)
  have r: "registry_ok r" using save_registry_ok[OF assms(1) ok(1)] .
  note k = kept_ids[OF ok(2) form_id]
  show full: "all_stored mc ((mw_profiles w)[mw_current w := profile_from_form w]) r" if b
  proof -
    have "saved (mc_guid mc) (profile_from_form w) (mw_store w) r" using assms(1) that by (auto simp: saved_def)
    from store.put_current[OF ok(1) this ok(4,2) form_id ok(6)] r ok k show ?thesis by (auto simp: all_stored_def)
  qed
  have "agrees_but (stored r) (mw_profiles w) (mw_current w)"
  proof (cases b)
    case True
    from full[OF this] have a: "agrees (stored r) ((mw_profiles w)[mw_current w := profile_from_form w])"
      by (simp add: all_stored_def)
    show ?thesis unfolding agrees_but_def
    proof (intro allI impI)
      fix m assume m: "m < length (mw_profiles w)" "m \<noteq> mw_current w"
      with a show "stored r (pf_id (mw_profiles w ! m)) = Some (settings (mw_profiles w ! m))"
        unfolding agrees_nth by (auto dest!: spec[of _ m])
    qed
  next
    case False
    then have "saved_partly (mc_guid mc) (profile_from_form w) (mw_store w) r" using assms(1) by (auto simp: saved_partly_def)
    from store.part_current[OF ok(1) this ok(4,2) form_id ok(6)] show ?thesis .
  qed
  with r ok show "well_formed mc (w\<lparr>mw_store := r\<rparr>)" by (simp add: well_formed_def profiles_ok_def)
qed

lemma save_current_profiles:
  assumes "save_current mc ok w = (b, w')" and "well_formed mc w" and "mw_open w"
  shows "well_formed mc w'" and "b \<Longrightarrow> all_stored mc (mw_profiles w') (mw_store w')"
    and "map pf_id (mw_profiles w') = map pf_id (mw_profiles w)" and "mw_open w'" and "mw_form w' = mw_form w"
proof -
  obtain b1 r where s: "profile_save (mc_guid mc) ok (profile_from_form w) True (mw_store w) = (b1, r)" by fastforce
  let ?w = "w\<lparr>mw_store := r, mw_profiles := (mw_profiles w)[mw_current w := profile_from_form w]\<rparr>"
  from assms(1) consider "\<not> b" "w' = w" | "\<not> b" "w' = w\<lparr>mw_store := r\<rparr>" | "b" "b1" "w' = ?w"
    by (cases b1) (auto simp: save_current_def Let_def s split: if_splits)
  note c = this
  have cur: "mw_current w < length (mw_profiles w)" using assms(2,3) by (simp add: well_formed_def profiles_ok_def)
  note f = saved_form[OF s assms(2,3)]
  have "well_formed mc ?w" if b1 using f(1)[OF that] cur by (intro all_stored_ok) simp_all
  with c f(2) assms(2) show "well_formed mc w'" by cases auto
  from c f(1) show "b \<Longrightarrow> all_stored mc (mw_profiles w') (mw_store w')" by cases auto
  from c kept_ids(1)[OF cur form_id] show "map pf_id (mw_profiles w') = map pf_id (mw_profiles w)" by cases auto
  from c assms(3) show "mw_open w'" by cases auto
  from c show "mw_form w' = mw_form w" by cases auto
qed

lemma select_profile_ok:
  assumes "well_formed mc w" and "mw_open w"
  shows "well_formed mc (select_profile mc ok ok_active n w)"
proof -
  obtain b r where s: "profile_save (mc_guid mc) ok (profile_from_form w) False (mw_store w) = (b, r)" by fastforce
  note f = saved_form[OF s assms]
  let ?ps = "(mw_profiles w)[mw_current w := profile_from_form w]"
  let ?w = "load_profile_to_form (?ps ! n) (w\<lparr>mw_store := r, mw_profiles := ?ps, mw_current := n\<rparr>)"
  show ?thesis
  proof (cases "length (mw_profiles w) \<le> n \<or> pf_name (profile_from_form w) = [] \<or> \<not> b")
    case True
    with s f(2) assms(1) show ?thesis by (auto simp: select_profile_def Let_def)
  next
    case False
    then have "well_formed mc ?w" using f(1) by (intro all_stored_ok) (simp_all add: load_profile_to_form_def)
    moreover have "registry_ok (mw_store ?w)" using calculation by (simp add: well_formed_def)
    ultimately have "well_formed mc (?w\<lparr>mw_store := snd (set_active (mc_guid mc) ok_active (pf_id (?ps ! n)) (mw_store ?w))\<rparr>)"
      by (simp only: active_ok)
    with False s show ?thesis by (simp add: select_profile_def Let_def)
  qed
qed

lemma fresh_id [simp]: "pf_id (fresh_profile created name path) = create_id created"
  by (simp add: fresh_profile_def)

text \<open>A new profile is added to profiles that are all stored.\<close>

lemma saved_new:
  assumes "profile_save (mc_guid mc) ok p act r = (b, r')" and "registry_ok r" and "agrees (stored r) ps"
    and "ids_distinct ps" and "\<forall>q \<in> set ps. valid_profile_id (mc_guid mc) (pf_id q)"
    and "\<forall>q \<in> set ps. \<not> same_key (pf_id q) (pf_id p)" and "length ps < kMaximumProfiles"
  shows "b \<Longrightarrow> all_stored mc (ps @ [p]) r'" and "ps \<noteq> [] \<Longrightarrow> all_stored mc ps r \<Longrightarrow> \<not> b \<Longrightarrow> all_stored mc ps r'"
    and "registry_ok r'"
proof -
  show r': "registry_ok r'" by (rule save_registry_ok[OF assms(1,2)])
  show "all_stored mc (ps @ [p]) r'" if b
  proof -
    have s: "saved (mc_guid mc) p r r'" using assms(1) that by (auto simp: saved_def)
    have "profile_acceptable (mc_guid mc) p" using save_stored(2)[of "mc_guid mc" ok p act r r' "pf_id p"] assms(1) that by simp
    then have "valid_profile_id (mc_guid mc) (pf_id p)" by (simp add: profile_acceptable_def)
    moreover have "ids_distinct (ps @ [p])" using assms(4,6) by (auto simp: ids_distinct_def same_key_def image_iff)
    ultimately show ?thesis
      using store.put_new[OF assms(2) s assms(6,3)] r' assms(5,7) by (auto simp: all_stored_def)
  qed
  show "all_stored mc ps r'" if "ps \<noteq> []" "all_stored mc ps r" "\<not> b"
  proof -
    have "saved_partly (mc_guid mc) p r r'" using assms(1) that(3) by (auto simp: saved_partly_def)
    from store.part_new[OF assms(2) this assms(6,3)] that(2) r' show ?thesis by (simp add: all_stored_def)
  qed
qed

lemma new_profile_ok:
  assumes "well_formed mc w" and "mw_open w"
    and "\<forall>p \<in> set (mw_profiles w). \<not> same_key (pf_id p) (create_id created)"
  shows "well_formed mc (new_profile mc ok created ok_new w)"
proof -
  obtain b w1 where s: "save_current mc ok w = (b, w1)" by fastforce
  note sc = save_current_profiles[OF s assms(1,2)]
  let ?p = "fresh_profile created new_game_name (pf_simhub_path (mw_form w1))"
  obtain b2 r where n: "profile_save (mc_guid mc) ok_new ?p True (mw_store w1) = (b2, r)" by fastforce
  show ?thesis
  proof (cases "64 \<le> length (mw_profiles w) \<or> \<not> b \<or> create_id created = []")
    case True
    with s sc(1) assms(1) show ?thesis by (auto simp: new_profile_def Let_def split: bool.split)
  next
    case False
    then have a: "all_stored mc (mw_profiles w1) (mw_store w1)" using sc(2) by simp
    have len: "length (mw_profiles w1) < kMaximumProfiles"
      using False sc(3) by (metis kMaximumProfiles_def length_map not_le)
    have "\<forall>i \<in> set (map pf_id (mw_profiles w1)). \<not> same_key i (pf_id ?p)" using assms(3) sc(3) by simp
    then have "\<forall>q \<in> set (mw_profiles w1). \<not> same_key (pf_id q) (pf_id ?p)" by simp
    note new = saved_new[OF n _ _ _ _ this len]
    have cur: "mw_current w1 < length (mw_profiles w1)" using sc(1,4) by (simp add: well_formed_def profiles_ok_def)
    show ?thesis
    proof (cases b2)
      case True
      then have "all_stored mc (mw_profiles w1 @ [?p]) r" using new(1) a by (simp add: all_stored_def)
      then have "well_formed mc (refresh_profile_combo (create_id created)
          (w1\<lparr>mw_store := r, mw_profiles := mw_profiles w1 @ [?p], mw_current := length (mw_profiles w1)\<rparr>))"
        by (intro refresh_ok) simp
      with False True s n show ?thesis by (simp add: new_profile_def Let_def)
    next
      case nb: False
      then have "all_stored mc (mw_profiles w1) r" using new(2) a by (simp add: all_stored_def)
      then have "well_formed mc (w1\<lparr>mw_store := r\<rparr>)" using cur by (intro all_stored_ok) simp_all
      with False nb s n show ?thesis by (simp add: new_profile_def Let_def)
    qed
  qed
qed

lemma first_active_ok:
  assumes "all_stored mc (mw_profiles w) (mw_store w)"
  shows "well_formed mc (let first_id = pf_id (hd (mw_profiles w)); w = refresh_profile_combo first_id w
     in w\<lparr>mw_store := snd (set_active guid ok first_id (mw_store w))\<rparr>)"
  using refresh_ok[OF assms] assms active_ok[of "refresh_profile_combo (pf_id (hd (mw_profiles w))) w"]
  by (simp add: Let_def all_stored_def)

lemma delete_profile_ok:
  assumes "well_formed mc w" and "mw_open w"
  shows "well_formed mc (delete_profile mc deleted created sp ok oka w)"
proof -
  let ?n = "mw_current w" and ?ps = "mw_profiles w"
  let ?rest = "take ?n ?ps @ drop (Suc ?n) ?ps" and ?p = "fresh_profile created my_game_name sp"
  from assms have w: "registry_ok (mw_store w)" "?n < length ?ps" "length ?ps \<le> kMaximumProfiles" "ids_distinct ?ps"
    "\<forall>p \<in> set ?ps. valid_profile_id (mc_guid mc) (pf_id p)" "agrees_but (stored (mw_store w)) ?ps ?n"
    by (simp_all add: well_formed_def profiles_ok_def)
  obtain b r where e: "profile_erase (mc_guid mc) deleted (pf_id (?ps ! ?n)) (mw_store w) = (b, r)" by fastforce
  show ?thesis
  proof (cases b)
    case False
    with e have "r = mw_store w" by (auto simp: profile_erase_def split: if_splits)
    with e False assms(1) show ?thesis by (simp add: delete_profile_def)
  next
    case True
    then have del: "erased (mc_guid mc) (pf_id (?ps ! ?n)) (mw_store w) r" using e by (auto simp: erased_def)
    have r: "registry_ok r" using erase_registry_ok[OF e w(1)] .
    note a = store.del_current[OF w(1) del w(4,2,6)]
    show ?thesis
    proof (cases "?rest = []")
      case False
      have ps: "?ps = take ?n ?ps @ ?ps ! ?n # drop (Suc ?n) ?ps" using w(2) by (rule id_take_nth_drop)
      have "ids_distinct ?rest" using w(4) by (subst (asm) ps) (auto simp: ids_distinct_def)
      moreover have "set ?rest \<subseteq> set ?ps" using set_take_subset[of ?n ?ps] set_drop_subset[of "Suc ?n" ?ps] by auto
      moreover have "length ?rest \<le> kMaximumProfiles" using w(2,3) by simp
      ultimately have s: "all_stored mc ?rest r" using a r w(5) False unfolding all_stored_def by blast
      let ?w = "w\<lparr>mw_store := r, mw_profiles := ?rest\<rparr>"
      have "well_formed mc (let first_id = pf_id (hd (mw_profiles ?w)); w = refresh_profile_combo first_id ?w
         in w\<lparr>mw_store := snd (set_active (mc_guid mc) oka first_id (mw_store w))\<rparr>)"
        by (rule first_active_ok) (use s in simp)
      with False e True show ?thesis by (simp add: delete_profile_def Let_def)
    next
      case empty: True
      obtain b2 r2 where n: "profile_save (mc_guid mc) ok ?p True r = (b2, r2)" by fastforce
      have c: "mw_profiles w ! ?n = ?ps ! ?n" by simp
      note new = saved_new[OF n r, of "[]"]
      show ?thesis
      proof (cases "create_id created = [] \<or> \<not> b2")
        case True
        have "registry_ok r2" by (rule save_registry_ok[OF n r])
        with True r empty e \<open>b\<close> n show ?thesis by (auto simp: delete_profile_def Let_def well_formed_def)
      next
        case False
        then have s: "all_stored mc [?p] r2" using new(1) by (simp add: agrees_def ids_distinct_def kMaximumProfiles_def)
        let ?w = "w\<lparr>mw_store := r2, mw_profiles := [?p]\<rparr>"
        have "well_formed mc (let first_id = pf_id (hd (mw_profiles ?w)); w = refresh_profile_combo first_id ?w
           in w\<lparr>mw_store := snd (set_active (mc_guid mc) oka first_id (mw_store w))\<rparr>)"
          by (rule first_active_ok) (use s in simp)
        with False empty e \<open>b\<close> n show ?thesis by (simp add: delete_profile_def Let_def)
      qed
    qed
  qed
qed

lemma initialize_ok:
  assumes "initialize_state mc a created sp ok r = Some w" and "registry_ok r"
  shows "well_formed mc w" and "processes_ok mc w" and "idle w" and "mw_open w"
proof -
  let ?window = "\<lambda>profiles r. \<lparr>mw_profiles = profiles, mw_current = 0, mw_form = hd profiles, mw_store = r,
    mw_busy = False, mw_in_doubt = False, mw_lock = [], mw_changes_enabled = True, mw_others_enabled = True,
    mw_log = [], mw_open = True\<rparr>"
  let ?p = "fresh_profile created my_game_name sp"
  obtain ps i where l: "profile_load (mc_guid mc) a r = Inr (ps, i)"
    using assms(1) by (auto simp: initialize_state_def split: sum.splits)
  have "\<exists>ps r' i. w = refresh_profile_combo i (?window ps r') \<and> all_stored mc ps r'"
  proof (cases "ps = []")
    case False
    with load_ids[OF l assms(2)] load_agrees[OF l assms(2)] load_at_most[OF l] assms(2)
    have "all_stored mc ps r" by (simp add: all_stored_def)
    moreover from assms(1) l False have "w = refresh_profile_combo i (?window ps r)" by (simp add: initialize_state_def Let_def)
    ultimately show ?thesis by blast
  next
    case True
    obtain b r' where s: "profile_save (mc_guid mc) ok ?p True r = (b, r')" by fastforce
    with assms(1) l True have "b" and w: "w = refresh_profile_combo (create_id created) (?window [?p] r')"
      by (auto simp: initialize_state_def Let_def split: if_splits bool.splits)
    with saved_new(1)[OF s assms(2), where ps = "[]"] have "all_stored mc [?p] r'"
      by (simp add: agrees_def ids_distinct_def kMaximumProfiles_def)
    with w show ?thesis by blast
  qed
  then obtain ps r' i where w: "w = refresh_profile_combo i (?window ps r')" "all_stored mc ps r'" by blast
  then show "well_formed mc w" by (auto intro: refresh_ok)
  have "processes w = ([], False, [])" "controls w = (False, True, True)" by (simp_all add: w(1)) (simp_all add: parts)
  then show "processes_ok mc w" "idle w" by (simp_all add: processes_ok_def idle_def processes_def)
  show "mw_open w" by (simp add: w(1))
qed

lemma step_well_formed:
  assumes "window_step mc w c w'" and "well_formed mc w" and "processes_ok mc w" and "idle w"
    and "\<And>ok created ok_new p. c = Some (NewProfile ok created ok_new) \<Longrightarrow> p \<in> set (mw_profiles w) \<Longrightarrow>
           \<not> same_key (pf_id p) (create_id created)"
  shows "well_formed mc w'"
  using assms(1)
proof (cases rule: window_step.cases)
  case (command d)
  have nb: "\<not> mw_busy w" using assms(4) by (simp add: idle_def controls_def)
  have save: "well_formed mc (snd (save_current mc ok w))" for ok
    using save_current_profiles(1)[of mc ok w "fst (save_current mc ok w)" "snd (save_current mc ok w)"]
      assms(2) command(2) by simp
  show ?thesis
  proof (cases "changes_installation d")
    case True
    with command(3) assms(3,4) have m: "may_start mc w"
      by (auto simp: command_enabled_def may_start_def idle_def controls_def)
    from changing_command[OF command(4) True m] obtain ok b w1 where
      s: "save_current mc ok w = (b, w1)" and h: "handled mc w1 w'" .
    from save[of ok] s h well_formed_cong[of w' w1 mc] show ?thesis by (simp add: handled_def)
  next
    case False
    show ?thesis
    proof (cases d)
      case (NewProfile ok created ok_new)
      with new_profile_ok[OF assms(2) command(2)] assms(5) command nb show ?thesis by (auto simp: handle_command_def)
    next
      case (SelectProfile n ok oka)
      with select_profile_ok[OF assms(2) command(2)] command(4) nb show ?thesis by (auto simp: handle_command_def)
    next
      case (DeleteProfile confirmed deleted created sp ok oka)
      with delete_profile_ok[OF assms(2) command(2)] assms(2) command(4) nb show ?thesis
        by (auto simp: handle_command_def split: if_splits)
    next
      case (BrowseGame x)
      with assms(2) command(4) nb show ?thesis
        by (cases x) (auto simp: handle_command_def browse_game_def Let_def)
    next
      case (BrowseSimHub x)
      with assms(2) command(4) nb show ?thesis
        by (cases x) (auto simp: handle_command_def browse_simhub_def)
    qed (use False save command(4) nb in \<open>auto simp: handle_command_def\<close>)
  qed
next
  case (typing form)
  with assms(2) show ?thesis by simp
next
  case closing
  with assms(2) show ?thesis by (simp add: handle_close_def well_formed_def)
qed

section \<open>The windows that can be reached\<close>

text \<open>A new identifier is none of those in use: \<open>CoCreateGuid\<close> makes a new one at each call.\<close>

definition fresh_command :: "command option \<Rightarrow> window \<Rightarrow> bool" where
  "fresh_command c w = (case c of
       Some (NewProfile ok created ok_new) \<Rightarrow> (\<forall>p \<in> set (mw_profiles w). \<not> same_key (pf_id p) (create_id created))
     | _ \<Rightarrow> True)"

inductive window_reachable :: "manager_consts \<Rightarrow> window \<Rightarrow> bool" for mc :: manager_consts where
  starting: "registry_ok r \<Longrightarrow> initialize_state mc a created simhub_path ok r = Some w \<Longrightarrow> window_reachable mc w"
| stepping: "window_reachable mc w \<Longrightarrow> window_step mc w c w' \<Longrightarrow> fresh_command c w \<Longrightarrow> window_reachable mc w'"

lemma reachable_invariant:
  "window_reachable mc w \<Longrightarrow> well_formed mc w \<and> processes_ok mc w \<and> idle w"
proof (induction rule: window_reachable.induct)
  case (starting r a created sp ok w)
  from initialize_ok[OF this(2,1)] show ?case by blast
next
  case (stepping w c w')
  then have inv: "well_formed mc w" "processes_ok mc w" "idle w" by auto
  have "well_formed mc w'"
    by (rule step_well_formed[OF stepping.hyps(2) inv]) (use stepping.hyps(3) in \<open>auto simp: fresh_command_def\<close>)
  with step_processes[OF stepping.hyps(2) inv(2,3)] show ?case by blast
qed

section \<open>The properties\<close>


text \<open>C34: While the window is open it has a current profile among its at most 64 profiles, whose
  identifiers are GUIDs and, in any case, different; the store is in order, and every profile but the
  current one, which the user may be editing, is what the store holds for its identifier, even after
  calls of Windows that failed.\<close>

theorem open_window_is_well_formed:
  assumes "window_reachable mc w"
  shows "registry_ok (mw_store w)
    \<and> (mw_open w \<longrightarrow> mw_current w < length (mw_profiles w) \<and> length (mw_profiles w) \<le> kMaximumProfiles
         \<and> ids_distinct (mw_profiles w) \<and> (\<forall>p \<in> set (mw_profiles w). valid_profile_id (mc_guid mc) (pf_id p))
         \<and> (\<forall>n < length (mw_profiles w). n \<noteq> mw_current w \<longrightarrow>
              stored (mw_store w) (pf_id (mw_profiles w ! n)) = Some (settings (mw_profiles w ! n))))"
  using reachable_invariant[OF assms] by (simp add: well_formed_def profiles_ok_def agrees_but_def)

section \<open>A run\<close>

definition sample_consts :: manager_consts where
  "sample_consts = \<lparr>mc_executable = sample_manager, mc_layout = full_layout, mc_stable_build = True, mc_signer = [],
     mc_split = (\<lambda>_. Some []), mc_guid = sample_guid\<rparr>"

definition sample_view :: manager_view where
  "sample_view = \<lparr>mv_files = full_package, mv_bytes = (\<lambda>_. None), mv_elevation = Some False, mv_pipe = False,
     mv_snapshot = Some []\<rparr>"

text \<open>The helper is started and does not end in time.\<close>

definition late_script :: script_answers where
  "late_script = \<lparr>sa_elevation = Some False, sa_system = full_system, sa_descriptor = True,
     sa_attempts = (\<lambda>_. \<lparr>ea_entropy = Some (replicate 32 0), ea_created = True, ea_existed = False\<rparr>),
     sa_process = \<lparr>pa_created = True, pa_clock = 0, pa_rounds = [\<lparr>wr_waited = 0x102, wr_exit = None,
        wr_signalled = False, wr_pumped = True, wr_now = 600000\<rparr>]\<rparr>\<rparr>"

definition sample_id :: wstring where "sample_id = pf_id sample_profile"

lemma short_saved:
  assumes "profile_acceptable sample_guid p" and "length (pf_id p) < 1000"
    and "0 \<notin> set (pf_id p)" and "list_all (\<lambda>t. length t < 1000) [pf_name p, pf_game_path p, pf_game_arguments p, pf_simhub_path p]"
  shows "\<exists>r'. profile_save sample_guid (\<lambda>_. True) p act r = (True, r')"
proof -
  have w: "write_registry_string True t = Some (RegSz (t @ [0]))" if "length t < 1000" "0 \<notin> set t" for t
    using that by (simp add: write_registry_string_def kMaximumRegistryStringBytes_def)
  then have "write_registry_string True (f p) = Some (RegSz (f p @ [0]))"
    if "f \<in> {pf_id, pf_name, pf_game_path, pf_game_arguments, pf_simhub_path}" for f
    using assms that by (auto simp: profile_acceptable_def)
  moreover have "valid_profile_id sample_guid (pf_id p)" using assms(1) by (simp add: profile_acceptable_def)
  ultimately show ?thesis using assms(1)
    by (simp add: profile_save_def set_active_def Let_def)
qed

definition first_profile :: Profile where "first_profile = fresh_profile (Some sample_id) my_game_name []"

lemma first_profile_saved:
  "\<exists>r'. profile_save sample_guid (\<lambda>_. True) first_profile act r = (True, r')" "pf_id first_profile \<noteq> []"
proof -
  have c: "c_str sample_id = sample_id" by (rule c_str_id) (simp add: sample_id_def sample_profile_def)
  have i: "pf_id first_profile = sample_id" by (simp add: first_profile_def create_id_def c)
  then show "pf_id first_profile \<noteq> []" by (simp add: sample_id_def sample_profile_def)
  have "valid_profile_id sample_guid sample_id" using sample_valid by (simp add: sample_id_def)
  then have "profile_acceptable sample_guid first_profile"
    by (simp add: profile_acceptable_def i) (simp add: first_profile_def fresh_profile_def my_game_name_def)
  then show "\<exists>r'. profile_save sample_guid (\<lambda>_. True) first_profile act r = (True, r')"
    by (rule short_saved)
      (simp_all add: i, simp_all add: sample_id_def sample_profile_def first_profile_def fresh_profile_def my_game_name_def)
qed

lemma first_window:
  "\<exists>w. initialize_state sample_consts all_opens (Some sample_id) [] (\<lambda>_. True) empty_registry = Some w
     \<and> mw_log w = [] \<and> \<not> mw_in_doubt w
     \<and> mw_profiles w = [first_profile] \<and> mw_current w = 0 \<and> mw_form w = first_profile"
proof -
  obtain r' where "profile_save sample_guid (\<lambda>_. True) first_profile True empty_registry = (True, r')"
    using first_profile_saved(1) by blast
  with first_profile_saved(2) show ?thesis
    by (simp add: initialize_state_def empty_registry_ok sample_consts_def Let_def refresh_profile_combo_def
        load_profile_to_form_def first_profile_def[symmetric] del: fresh_id)
qed

theorem open_window_is_well_formed_witness:
  "\<exists>w. window_reachable sample_consts w \<and> mw_open w \<and> mw_profiles w = [first_profile]
     \<and> mw_current w < length (mw_profiles w)"
proof -
  from first_window obtain w where
    w: "initialize_state sample_consts all_opens (Some sample_id) [] (\<lambda>_. True) empty_registry = Some w"
    "mw_profiles w = [first_profile]" by blast
  from window_reachable.starting[OF empty_registry_ok(1) w(1)] have r: "window_reachable sample_consts w" .
  from open_window_is_well_formed[OF r] initialize_ok(4)[OF w(1) empty_registry_ok(1)] w(2) r show ?thesis by auto
qed

lemma sample_policy_of: "mc_policy sample_consts = sample_policy"
  by (simp add: mc_policy_def sample_consts_def build_signature_policy_def compile_time_signer_thumbprint_def sample_policy_def)

lemma sample_ready:
  "rd_package_ok (collect_readiness sample_consts sample_view p)" "rd_privilege_ok (collect_readiness sample_consts sample_view p)"
proof -
  from full_trusted have t: "ir_valid (verify_package_integrity full_package full_layout)"
    "sr_allowed (verify_package_signatures full_package full_layout sample_manager sample_policy)"
    by (auto simp: trusted_package_def)
  show "rd_package_ok (collect_readiness sample_consts sample_view p)"
    using t by (simp add: collect_readiness_def Let_def sample_policy_of sample_consts_def[THEN arg_cong[where f = mc_layout]]
        sample_consts_def[THEN arg_cong[where f = mc_executable]] sample_view_def)
  show "rd_privilege_ok (collect_readiness sample_consts sample_view p)"
    by (simp add: privilege_ok sample_view_def)
qed

lemma late_run:
  "\<exists>s. run_elevated_process full_package sample_manager (system_directory_for_power_shell sample_shell)
      (helper_arguments UninstallOperation (kManagerInvocationEventPrefix @ bytes_to_hex (replicate 32 0)) []) True 600000
      (sa_process late_script)
    = Some \<lparr>rr_ok = False, rr_exit = None, rr_timed_out = True, rr_may_be_running = True, rr_started = Some s\<rparr>"
proof -
  have "path_is_absolute_local (\<lambda>_. 3) sample_manager"
    "path_is_absolute_local (\<lambda>_. 3) (system_directory_for_power_shell sample_shell)"
    by (code_simp, code_simp)
  moreover have "file_is_regular full_package sample_manager" by (simp add: file_is_regular_def open_plain manager_plain)
  moreover obtain parameters where "build_parameter_text (helper_arguments UninstallOperation
      (kManagerInvocationEventPrefix @ bytes_to_hex (replicate 32 0)) []) = Some parameters"
    using sample_parameters by blast
  ultimately show ?thesis
    by (simp add: run_elevated_process_def late_script_def waited_result_def)
qed

lemma late_script_run:
  "\<exists>handles s. run_script sample_consts (pl_uninstaller_script full_layout) p late_script w
     = Some (False, 1, keep_in_doubt handles
         \<lparr>rr_ok = False, rr_exit = None, rr_timed_out = True, rr_may_be_running = True, rr_started = Some s\<rparr>
         (log_start full_package handles (Some False)
           \<lparr>rr_ok = False, rr_exit = None, rr_timed_out = True, rr_may_be_running = True, rr_started = Some s\<rparr> w))"
proof -
  from full_trusted obtain handles where t: "acquire_package_read_lock full_package full_layout [] = (None, handles)"
    "ir_valid (verify_package_integrity full_package full_layout)"
    "sr_allowed (verify_package_signatures full_package full_layout sample_manager sample_policy)"
    by (auto simp: trusted_package_def)
  from late_run obtain s where r: "run_elevated_process full_package sample_manager
      (system_directory_for_power_shell sample_shell)
      (helper_arguments UninstallOperation (kManagerInvocationEventPrefix @ bytes_to_hex (replicate 32 0)) []) True 600000
      (sa_process late_script)
    = Some \<lparr>rr_ok = False, rr_exit = None, rr_timed_out = True, rr_may_be_running = True, rr_started = Some s\<rparr>" by blast
  have op: "\<not> wcsicmp_eq (pl_uninstaller_script full_layout) (pl_installer_script full_layout)"
    "wcsicmp_eq (pl_uninstaller_script full_layout) (pl_uninstaller_script full_layout)"
    by (code_simp, code_simp)
  have h: "helper_arguments UninstallOperation e path = helper_arguments UninstallOperation e []" for e path
    by (simp add: helper_arguments_def)
  have c: "mc_layout sample_consts = full_layout" "mc_executable sample_consts = sample_manager"
    by (simp_all add: sample_consts_def)
  have a: "sa_elevation late_script = Some False" "sa_system late_script = full_system"
    "create_manager_invocation_event (sa_descriptor late_script) (sa_attempts late_script)
       = Inr (kManagerInvocationEventPrefix @ bytes_to_hex (replicate 32 0))"
    by (simp_all add: late_script_def create_manager_invocation_event_def numeral_eq_Suc)
  have f: "sy_files full_system = full_package" by (simp add: full_system_def)
  show ?thesis
    by (rule exI[of _ handles], rule exI[of _ s])
      (simp add: run_script_def Let_def c a f op t full_locate sample_policy_of h[of _ "pf_simhub_path p"] r)
qed


end
