(* ===== verification/System_Queries.thy ===== *)
theory System_Queries imports Launch Elevated_Request Package_Trust begin

text \<open>
  The small questions that the programs ask Windows: whether they are elevated
  (\<open>current_process_is_elevated\<close> of \<open>src/launcher/injector.cpp\<close>, \<open>query_current_process_elevation\<close> of
  \<open>src/launcher/manager_model.cpp\<close>), the thumbprint of a certificate, the path of a loaded module, the text
  of an error, the clock.  Each returns what the code makes of the answers of Windows, on every path.  The
  other theories take these results as given.
\<close>

section \<open>Elevation\<close>

text \<open>The token, the size Windows reports and \<open>TokenIsElevated\<close>.  The size of the structure is 4.\<close>

record token_env =
  tk_opened :: bool
  tk_information :: bool
  tk_returned :: nat
  tk_elevated :: u32

definition token_elevation_size :: nat where "token_elevation_size = 4"

text \<open>The answer, and what is stored; \<open>None\<close> when nothing can be stored.\<close>

definition current_process_is_elevated :: "bool \<Rightarrow> token_env \<Rightarrow> bool \<times> bool option" where
  "current_process_is_elevated valid_out e =
     (if \<not> valid_out then (False, None)
      else if \<not> tk_opened e then (False, Some False)
      else if \<not> tk_information e \<or> tk_returned e < token_elevation_size then (False, Some False)
      else (True, Some (tk_elevated e \<noteq> 0)))"

definition query_current_process_elevation :: "bool \<Rightarrow> token_env \<Rightarrow> bool \<times> bool option" where
  "query_current_process_elevation valid_out e =
     (if \<not> valid_out then (False, None)
      else if \<not> tk_opened e then (False, Some False)
      else if \<not> tk_information e \<or> tk_returned e < token_elevation_size then (False, Some False)
      else (True, Some (tk_elevated e \<noteq> 0)))"

text \<open>What the checks of the launcher and of the manager make of it.\<close>

definition known_elevation :: "bool \<times> bool option \<Rightarrow> bool option" where
  "known_elevation r = (if fst r then snd r else None)"

text \<open>A process counts as not elevated only when Windows has said so.\<close>

lemma elevation_is_known:
  "known_elevation (query_current_process_elevation True e) = known_elevation (current_process_is_elevated True e)"
  "known_elevation (current_process_is_elevated True e) = Some False
     \<longleftrightarrow> tk_opened e \<and> tk_information e \<and> token_elevation_size \<le> tk_returned e \<and> tk_elevated e = 0"
  by (auto simp: known_elevation_def query_current_process_elevation_def current_process_is_elevated_def)

text \<open>So the launcher starts nothing when the question fails.\<close>

lemma unknown_elevation_starts_nothing:
  assumes "le_elevation e = known_elevation (current_process_is_elevated True t)" and "\<not> tk_opened t"
  shows "le_elevation e = None"
  using assms by (simp add: known_elevation_def current_process_is_elevated_def)

section \<open>The thumbprint of a signer\<close>

text \<open>The size of the property and its bytes, and the answer of the hash function, which is asked for 32
  bytes.\<close>

record certificate_env =
  ce_size :: "nat option"
  ce_property :: "byte list option"
  ce_hash :: "byte list option"

definition signer_thumbprint :: "certificate_env option \<Rightarrow> wstring" where
  "signer_thumbprint certificate =
     (case certificate of
        None \<Rightarrow> []
      | Some e \<Rightarrow>
          let stored_hash = (case ce_size e of
                None \<Rightarrow> None
              | Some n \<Rightarrow> if n > 0 \<and> n \<le> 128 then ce_property e else None)
          in case stored_hash of
               Some bs \<Rightarrow> bytes_to_hex bs
             | None \<Rightarrow> (case ce_hash e of None \<Rightarrow> [] | Some bs \<Rightarrow> bytes_to_hex bs))"

text \<open>With a digest of 32 bytes the thumbprint is one that the signature policy accepts as a text.\<close>

lemma upper_hex_range: "upper_hex c \<Longrightarrow> 0x30 \<le> c \<and> c \<le> 0x39 \<or> 0x61 \<le> c \<and> c \<le> 0x66 \<or> 0x41 \<le> c \<and> c \<le> 0x46"
  by (auto simp: upper_hex_def)

lemma thumbprint_is_valid:
  assumes "\<And>bs. ce_property e = Some bs \<or> ce_hash e = Some bs \<Longrightarrow> length bs = 32"
  shows "signer_thumbprint (Some e) = [] \<or> valid_sha256_text (signer_thumbprint (Some e))"
proof -
  have "valid_sha256_text (bytes_to_hex bs)" if "length bs = 32" for bs
    using bytes_to_hex_upper[of bs] length_bytes_to_hex[of bs] that upper_hex_range
    by (auto simp: valid_sha256_text_def list_all_iff)
  with assms show ?thesis by (auto simp: signer_thumbprint_def Let_def split: option.splits)
qed

section \<open>The path of a module\<close>

text \<open>\<open>file\<close> is the handle of the debug event; \<open>required\<close> and \<open>written\<close> are the answers of the two calls, and
  \<open>buffer\<close> what the second stored.\<close>

definition path_from_debug_file :: "nat \<Rightarrow> nat \<Rightarrow> nat \<Rightarrow> wstring \<Rightarrow> wstring" where
  "path_from_debug_file file_handle required written buffer =
     (if file_handle = 0 \<or> file_handle = 2 ^ 64 - 1 then []
      else if required = 0 then []
      else if written = 0 \<or> required + 1 \<le> written then []
      else strip_extended_prefix (take written buffer))"

text \<open>Nothing outside the buffer of \<open>required + 1\<close> characters is read.\<close>

lemma module_path_in_buffer:
  "path_from_debug_file h required written buffer = path_from_debug_file h required written (take (required + 1) buffer)"
  by (simp add: path_from_debug_file_def min_def)

section \<open>The text of an error\<close>

fun to_wstring :: "nat \<Rightarrow> wstring" where
  "to_wstring n = (if n < 10 then [0x30 + word_of_nat n] else to_wstring (n div 10) @ [0x30 + word_of_nat (n mod 10)])"

declare to_wstring.simps [simp del]

definition line_end :: "wchar \<Rightarrow> bool" where "line_end c \<longleftrightarrow> c = 0x0D \<or> c = 0x0A"

text \<open>\<open>message\<close> is what \<open>FormatMessageW\<close> allocates, without its terminator.\<close>

definition windows_error :: "wstring \<Rightarrow> u32 \<Rightarrow> wstring option \<Rightarrow> wstring" where
  "windows_error context code message =
     context @ wide '' ('' @ to_wstring (unat code) @ wide '')''
       @ (case message of
            None \<Rightarrow> []
          | Some m \<Rightarrow> if m = [] then [] else wide '': '' @ rev (dropWhile line_end (rev m)))"

text \<open>An error is one line when its context and the message of Windows are.\<close>

lemma to_wstring_digits: "c \<in> set (to_wstring n) \<Longrightarrow> 0x30 \<le> c \<and> c \<le> 0x39"
proof (induction n rule: to_wstring.induct)
  case (1 n)
  have digit: "(0x30 :: wchar) \<le> 0x30 + word_of_nat k \<and> (0x30 :: wchar) + word_of_nat k \<le> 0x39" if "k < 10" for k :: nat
  proof -
    from that have "unat (0x30 + word_of_nat k :: wchar) = 48 + k" by (simp add: unat_word_ariths unat_of_nat)
    with that show ?thesis by (simp add: word_le_nat_alt)
  qed
  show ?case using "1.prems" "1.IH" digit by (auto simp: to_wstring.simps[of n] split: if_splits)
qed

lemma error_is_one_line:
  assumes "list_all (\<lambda>c. \<not> line_end c) context" and "message = Some (m @ ends)"
    and "list_all (\<lambda>c. \<not> line_end c) m" and "list_all line_end ends"
  shows "list_all (\<lambda>c. \<not> line_end c) (windows_error context code message)"
proof -
  have "dropWhile line_end (rev ends @ rev m) = dropWhile line_end (rev m)"
    using assms(4) by (intro dropWhile_append2) (auto simp: list_all_iff)
  moreover have "dropWhile line_end (rev m) = rev m"
    using assms(3) by (cases "rev m") (auto simp: list_all_iff dest!: arg_cong[of "rev m" _ set])
  ultimately have "rev (dropWhile line_end (rev (m @ ends))) = m" by simp
  moreover have "\<not> line_end c" if "c \<in> set (to_wstring n)" for c n
    using to_wstring_digits[OF that] by (auto simp: line_end_def)
  moreover have "\<not> line_end c" if "c \<in> set (wide '' ('') \<union> set (wide '')'') \<union> set (wide '': '')" for c
    using that by (auto simp: wide_def line_end_def)
  ultimately show ?thesis using assms(1,3) by (auto simp: windows_error_def assms(2) list_all_iff)
qed

section \<open>The breakpoint\<close>

definition restore_entry_breakpoint ::
  "write_env \<Rightarrow> nat \<Rightarrow> byte option \<Rightarrow> memory \<Rightarrow> launch_error option \<times> memory" where
  "restore_entry_breakpoint e entry armed mem =
     (case armed of None \<Rightarrow> (None, mem) | Some original \<Rightarrow> write_remote_code_byte e entry original mem)"

text \<open>What is armed and restored without an error leaves the memory as it was.\<close>

lemma arm_and_restore:
  "arm_entry_breakpoint e entry mem = (Inr original, mem') \<Longrightarrow>
   restore_entry_breakpoint e' entry (Some original) mem' = (None, mem'') \<Longrightarrow> mem'' = mem"
  by (auto simp: arm_entry_breakpoint_def restore_entry_breakpoint_def write_remote_code_byte_def Let_def
      intro!: ext split: option.splits if_splits prod.splits)

section \<open>Clock, pipe and literals\<close>

definition qpc_now :: "int \<Rightarrow> u64" where "qpc_now counter = word_of_int counter"

definition qpc_frequency :: "int \<Rightarrow> u32" where
  "qpc_frequency frequency = (if frequency > 0 then word_of_int frequency else 1)"

lemma qpc_frequency_positive: "frequency < 2 ^ 32 \<Longrightarrow> qpc_frequency frequency \<noteq> 0"
  by (auto simp: qpc_frequency_def word_of_int_eq_0_iff dest: zdvd_imp_le)

definition simhub_pipe_ready :: "(u32 \<Rightarrow> int) \<Rightarrow> u32 \<Rightarrow> bool" where
  "simhub_pipe_ready wait_named_pipe milliseconds = (wait_named_pipe milliseconds \<noteq> 0)"

text \<open>\<open>converted\<close> is the UTF-16 text with its terminator.\<close>

definition utf8_literal_to_wide :: "wstring option \<Rightarrow> wstring" where
  "utf8_literal_to_wide converted = (case converted of None \<Rightarrow> wide ''dev'' | Some chars \<Rightarrow> c_str chars)"

end
