(* ===== verification/Owned_Handles.thy ===== *)
theory Owned_Handles imports Main begin

text \<open>
  The classes that own a handle of Windows or a piece of memory and give it back when they are
  destroyed: \<open>UniqueHandle\<close> and \<open>RemoteAllocation\<close> of \<open>src/launcher/injector.cpp\<close>,
  \<open>UniqueHandle\<close>, \<open>UniqueRegistryKey\<close> and \<open>PackageReadLock\<close> of \<open>src/launcher/manager_model.cpp\<close>,
  \<open>ScopedHandle\<close> and \<open>ScopedLocalMemory\<close> of \<open>src/launcher/manager_main.cpp\<close>.  The objects of a class are a
  map from addresses to values with the list of the handles closed so far.  What clients rely on is the
  locale \<open>owner\<close>, interpreted on every class.  Windows may use the number of a closed handle again; here a
  handle stands for one opening, so no handle is taken twice.
\<close>

section \<open>Objects\<close>

type_synonym handle = nat

definition INVALID_HANDLE_VALUE :: handle where "INVALID_HANDLE_VALUE = 2 ^ 64 - 1"

definition usable :: "handle \<Rightarrow> bool" where "usable h \<longleftrightarrow> h \<noteq> 0 \<and> h \<noteq> INVALID_HANDLE_VALUE"

record 'v objects =
  ob_value :: "nat \<Rightarrow> 'v option"
  ob_closed :: "handle list"

definition no_objects :: "'v objects" where "no_objects = \<lparr>ob_value = (\<lambda>_. None), ob_closed = []\<rparr>"

section \<open>Handles\<close>

definition unique_construct :: "nat \<Rightarrow> handle \<Rightarrow> handle objects \<Rightarrow> handle objects option" where
  "unique_construct x v s =
     (if ob_value s x \<noteq> None then None else Some (s\<lparr>ob_value := (ob_value s)(x \<mapsto> v)\<rparr>))"

definition unique_reset :: "nat \<Rightarrow> handle \<Rightarrow> handle objects \<Rightarrow> handle objects option" where
  "unique_reset x v s =
     (case ob_value s x of
        None \<Rightarrow> None
      | Some old \<Rightarrow> Some (s\<lparr>ob_value := (ob_value s)(x \<mapsto> v),
          ob_closed := ob_closed s @ (if usable old then [old] else [])\<rparr>))"

definition unique_release :: "nat \<Rightarrow> handle objects \<Rightarrow> (handle \<times> handle objects) option" where
  "unique_release x s =
     (case ob_value s x of
        None \<Rightarrow> None
      | Some v \<Rightarrow> Some (v, s\<lparr>ob_value := (ob_value s)(x \<mapsto> 0)\<rparr>))"

definition unique_destroy :: "nat \<Rightarrow> handle objects \<Rightarrow> handle objects option" where
  "unique_destroy x s = map_option (\<lambda>s. s\<lparr>ob_value := (ob_value s)(x := None)\<rparr>) (unique_reset x 0 s)"

definition unique_move :: "nat \<Rightarrow> nat \<Rightarrow> handle objects \<Rightarrow> handle objects option" where
  "unique_move x y s =
     (case unique_release y s of None \<Rightarrow> None | Some (v, s) \<Rightarrow> unique_construct x v s)"

definition unique_assign :: "nat \<Rightarrow> nat \<Rightarrow> handle objects \<Rightarrow> handle objects option" where
  "unique_assign x y s =
     (if x = y then Some s
      else case unique_release y s of None \<Rightarrow> None | Some (v, s) \<Rightarrow> unique_reset x v s)"

datatype handle_op = Construct nat handle | Reset nat handle | Release nat | Destroy nat | Move nat nat | Assign nat nat

fun unique_step :: "handle_op \<Rightarrow> handle objects \<Rightarrow> handle objects option" where
  "unique_step (Construct x v) s = unique_construct x v s"
| "unique_step (Reset x v) s = unique_reset x v s"
| "unique_step (Release x) s = map_option snd (unique_release x s)"
| "unique_step (Destroy x) s = unique_destroy x s"
| "unique_step (Move x y) s = unique_move x y s"
| "unique_step (Assign x y) s = unique_assign x y s"

text \<open>The classes of the manager cannot be moved.\<close>

fun scoped_step :: "handle_op \<Rightarrow> handle objects \<Rightarrow> handle objects option" where
  "scoped_step (Move x y) s = None"
| "scoped_step (Assign x y) s = None"
| "scoped_step op s = unique_step op s"

section \<open>Memory and registry keys\<close>

text \<open>A value is given back unless it is null; \<open>receive\<close> lets Windows store one.\<close>

definition memory_destroy :: "nat \<Rightarrow> handle objects \<Rightarrow> handle objects option" where
  "memory_destroy x s =
     (case ob_value s x of
        None \<Rightarrow> None
      | Some old \<Rightarrow> Some (s\<lparr>ob_value := (ob_value s)(x := None),
          ob_closed := ob_closed s @ (if old \<noteq> 0 then [old] else [])\<rparr>))"

definition key_receive :: "nat \<Rightarrow> handle \<Rightarrow> handle objects \<Rightarrow> handle objects option" where
  "key_receive x v s =
     (case ob_value s x of None \<Rightarrow> None | Some old \<Rightarrow> Some (s\<lparr>ob_value := (ob_value s)(x \<mapsto> v)\<rparr>))"

text \<open>A key object receives once, when it is still null.\<close>

fun memory_step :: "handle_op \<Rightarrow> handle objects \<Rightarrow> handle objects option" where
  "memory_step (Construct x v) s = unique_construct x v s"
| "memory_step (Destroy x) s = memory_destroy x s"
| "memory_step (Reset x v) s = (if ob_value s x = Some 0 then key_receive x v s else None)"
| "memory_step _ s = None"

section \<open>Read locks\<close>

definition lock_clear :: "nat \<Rightarrow> handle list objects \<Rightarrow> handle list objects option" where
  "lock_clear x s =
     (case ob_value s x of
        None \<Rightarrow> None
      | Some hs \<Rightarrow> Some (s\<lparr>ob_value := (ob_value s)(x \<mapsto> []), ob_closed := ob_closed s @ filter usable hs\<rparr>))"

definition lock_construct :: "nat \<Rightarrow> handle list objects \<Rightarrow> handle list objects option" where
  "lock_construct x s =
     (if ob_value s x \<noteq> None then None else Some (s\<lparr>ob_value := (ob_value s)(x \<mapsto> [])\<rparr>))"

definition lock_destroy :: "nat \<Rightarrow> handle list objects \<Rightarrow> handle list objects option" where
  "lock_destroy x s = map_option (\<lambda>s. s\<lparr>ob_value := (ob_value s)(x := None)\<rparr>) (lock_clear x s)"

definition lock_move :: "nat \<Rightarrow> nat \<Rightarrow> handle list objects \<Rightarrow> handle list objects option" where
  "lock_move x y s =
     (case (ob_value s x, ob_value s y) of
        (None, Some hs) \<Rightarrow> Some (s\<lparr>ob_value := (ob_value s)(x \<mapsto> hs, y \<mapsto> [])\<rparr>)
      | _ \<Rightarrow> None)"

definition lock_assign :: "nat \<Rightarrow> nat \<Rightarrow> handle list objects \<Rightarrow> handle list objects option" where
  "lock_assign x y s =
     (if x = y then Some s
      else case lock_clear x s of
        None \<Rightarrow> None
      | Some s \<Rightarrow>
          (case ob_value s y of
             None \<Rightarrow> None
           | Some hs \<Rightarrow> Some (s\<lparr>ob_value := (ob_value s)(x \<mapsto> hs, y \<mapsto> [])\<rparr>)))"

text \<open>\<open>acquire_package_read_lock\<close> adds a handle with \<open>push_back\<close>.\<close>

definition lock_add :: "nat \<Rightarrow> handle \<Rightarrow> handle list objects \<Rightarrow> handle list objects option" where
  "lock_add x h s =
     (case ob_value s x of None \<Rightarrow> None | Some hs \<Rightarrow> Some (s\<lparr>ob_value := (ob_value s)(x \<mapsto> hs @ [h])\<rparr>))"

datatype lock_op = LockNew nat | LockAdd nat handle | LockClear nat | LockDestroy nat | LockMove nat nat
  | LockAssign nat nat

fun lock_step :: "lock_op \<Rightarrow> handle list objects \<Rightarrow> handle list objects option" where
  "lock_step (LockNew x) s = lock_construct x s"
| "lock_step (LockAdd x h) s = lock_add x h s"
| "lock_step (LockClear x) s = lock_clear x s"
| "lock_step (LockDestroy x) s = lock_destroy x s"
| "lock_step (LockMove x y) s = lock_move x y s"
| "lock_step (LockAssign x y) s = lock_assign x y s"

section \<open>Ownership\<close>

definition has :: "('v \<Rightarrow> handle list) \<Rightarrow> 'v objects \<Rightarrow> nat \<Rightarrow> handle \<Rightarrow> bool" where
  "has owned s x h \<longleftrightarrow> (\<exists>v. ob_value s x = Some v \<and> h \<in> set (owned v))"

definition held_by :: "('v \<Rightarrow> handle list) \<Rightarrow> 'v objects \<Rightarrow> handle set" where
  "held_by owned s = {h. \<exists>x. has owned s x h}"

text \<open>No handle has two owners, and none that was closed has one.\<close>

definition exclusive :: "('v \<Rightarrow> handle list) \<Rightarrow> 'v objects \<Rightarrow> bool" where
  "exclusive owned s \<longleftrightarrow> distinct (ob_closed s) \<and> (\<forall>x h. has owned s x h \<longrightarrow> h \<notin> set (ob_closed s))
     \<and> (\<forall>x y h. has owned s x h \<longrightarrow> has owned s y h \<longrightarrow> x = y)
     \<and> (\<forall>x v. ob_value s x = Some v \<longrightarrow> distinct (owned v))"

text \<open>The operations of a run take only handles that were not taken before.\<close>

fun run_owner ::
  "('op \<Rightarrow> 'v objects \<Rightarrow> 'v objects option) \<Rightarrow> ('op \<Rightarrow> handle list) \<Rightarrow> ('op \<Rightarrow> 'v objects \<Rightarrow> handle list)
    \<Rightarrow> 'op list \<Rightarrow> 'v objects \<times> handle list \<times> handle list \<Rightarrow> ('v objects \<times> handle list \<times> handle list) option" where
  "run_owner step taken handed [] r = Some r"
| "run_owner step taken handed (op # ops) (s, got, gone) =
     (if \<not> list_all (\<lambda>h. h \<notin> set got) (taken op) then None
      else case step op s of
        None \<Rightarrow> None
      | Some t \<Rightarrow> run_owner step taken handed ops (t, got @ taken op, gone @ handed op s))"

text \<open>The four ways in which ownership changes: an object without a handle takes one, an object closes what
  it has, an object gives away what it has, and one without a handle takes over what another has.\<close>

definition vacant :: "('v \<Rightarrow> handle list) \<Rightarrow> 'v option \<Rightarrow> bool" where
  "vacant owned n \<longleftrightarrow> (case n of None \<Rightarrow> True | Some v \<Rightarrow> owned v = [])"

lemma vacant_simps [simp]: "vacant owned None" "vacant owned (Some v) \<longleftrightarrow> owned v = []"
  by (simp_all add: vacant_def)

definition accounted :: "('v \<Rightarrow> handle list) \<Rightarrow> 'v objects \<Rightarrow> handle set" where
  "accounted owned s = held_by owned s \<union> set (ob_closed s)"

definition takes :: "('v \<Rightarrow> handle list) \<Rightarrow> 'v objects \<Rightarrow> 'v objects \<Rightarrow> handle set \<Rightarrow> handle set \<Rightarrow> bool" where
  "takes owned s t new gone \<longleftrightarrow> exclusive owned t \<and> accounted owned t = (accounted owned s \<union> new) - gone"

lemma accounted_iff: "h \<in> accounted owned s \<longleftrightarrow> (\<exists>x. has owned s x h) \<or> h \<in> set (ob_closed s)"
  by (simp add: accounted_def held_by_def)

lemma vacant_has: "vacant owned (ob_value s x) \<Longrightarrow> \<not> has owned s x h"
  by (auto simp: has_def vacant_def)

lemma exclusiveD:
  assumes "exclusive owned s"
  shows "distinct (ob_closed s)" "has owned s x h \<Longrightarrow> h \<notin> set (ob_closed s)"
    "has owned s x h \<Longrightarrow> has owned s y h \<Longrightarrow> x = y" "ob_value s x = Some v \<Longrightarrow> distinct (owned v)"
  using assms unfolding exclusive_def by blast+

lemma takesI:
  assumes "distinct (ob_closed t)" "\<And>x h. has owned t x h \<Longrightarrow> h \<notin> set (ob_closed t)"
    "\<And>x y h. has owned t x h \<Longrightarrow> has owned t y h \<Longrightarrow> x = y" "\<And>x v. ob_value t x = Some v \<Longrightarrow> distinct (owned v)"
    "\<And>h. h \<in> accounted owned t \<longleftrightarrow> (h \<in> accounted owned s \<or> h \<in> new) \<and> h \<notin> gone"
  shows "takes owned s t new gone"
  using assms unfolding takes_def exclusive_def by blast

lemma takes_put:
  assumes "exclusive owned s" and "vacant owned (ob_value s x)" and "set (owned v) \<inter> accounted owned s = {}"
    and "distinct (owned v)"
  shows "takes owned s (s\<lparr>ob_value := (ob_value s)(x := Some v)\<rparr>) (set (owned v)) {}" (is "takes _ _ ?t _ _")
proof -
  note e = exclusiveD[OF assms(1)] and n = vacant_has[OF assms(2)]
  have new: "h \<in> set (owned v) \<Longrightarrow> \<not> has owned s z h \<and> h \<notin> set (ob_closed s)" for z h
    using assms(3) accounted_iff[of h owned s] by blast
  have ht: "has owned ?t z h \<longleftrightarrow> (z = x \<and> h \<in> set (owned v) \<or> has owned s z h)" for z h
    using n[of h] by (auto simp: has_def)
  have c: "ob_closed ?t = ob_closed s" by simp
  show ?thesis
  proof (rule takesI)
    fix y u assume "ob_value ?t y = Some u"
    then show "distinct (owned u)" using assms(4) e(4) by (auto split: if_splits)
  next
    show "h \<in> accounted owned ?t \<longleftrightarrow> (h \<in> accounted owned s \<or> h \<in> set (owned v)) \<and> h \<notin> {}" for h
      unfolding accounted_iff ht c by blast
    show "has owned ?t y h \<Longrightarrow> h \<notin> set (ob_closed ?t)" for y h unfolding ht c using e(2) new by blast
    show "has owned ?t y h \<Longrightarrow> has owned ?t z h \<Longrightarrow> y = z" for y z h unfolding ht using e(3) new by blast
  qed (use e in simp)
qed

lemma takes_grow:
  assumes "exclusive owned s" and "ob_value s x = Some u" and "owned v = owned u @ hs" and "set hs \<inter> accounted owned s = {}"
    and "distinct hs"
  shows "takes owned s (s\<lparr>ob_value := (ob_value s)(x := Some v)\<rparr>) (set hs) {}" (is "takes _ _ ?t _ _")
proof -
  note e = exclusiveD[OF assms(1)]
  have new: "h \<in> set hs \<Longrightarrow> \<not> has owned s z h \<and> h \<notin> set (ob_closed s)" for z h
    using assms(4) accounted_iff[of h owned s] by blast
  have ht: "has owned ?t z h \<longleftrightarrow> (z = x \<and> h \<in> set hs \<or> has owned s z h)" for z h
    using assms(2,3) by (auto simp: has_def)
  have c: "ob_closed ?t = ob_closed s" by simp
  show ?thesis
  proof (rule takesI)
    fix y w assume "ob_value ?t y = Some w"
    moreover have "distinct (owned u @ hs)" using e(4)[OF assms(2)] assms(2,5) new[of _ x] by (auto simp: has_def)
    ultimately show "distinct (owned w)" using assms(3) e(4) by (auto split: if_splits)
  next
    show "h \<in> accounted owned ?t \<longleftrightarrow> (h \<in> accounted owned s \<or> h \<in> set hs) \<and> h \<notin> {}" for h
      unfolding accounted_iff ht c by blast
    show "has owned ?t y h \<Longrightarrow> h \<notin> set (ob_closed ?t)" for y h unfolding ht c using e(2) new by blast
    show "has owned ?t y h \<Longrightarrow> has owned ?t z h \<Longrightarrow> y = z" for y z h unfolding ht using e(3) new by blast
  qed (use e in simp)
qed

lemma takes_drop:
  assumes "exclusive owned s" and "ob_value s x = Some u" and "vacant owned n"
  shows "takes owned s (s\<lparr>ob_value := (ob_value s)(x := n), ob_closed := ob_closed s @ owned u\<rparr>) {} {}" (is "takes _ _ ?t _ _")
proof -
  note e = exclusiveD[OF assms(1)]
  have hu: "has owned s x h \<longleftrightarrow> h \<in> set (owned u)" for h using assms(2) by (simp add: has_def)
  have ht: "has owned ?t z h \<longleftrightarrow> z \<noteq> x \<and> has owned s z h" for z h
    using assms(3) by (auto simp: has_def vacant_def split: option.splits)
  have c: "set (ob_closed ?t) = set (ob_closed s) \<union> {h. has owned s x h}" using hu by auto
  show ?thesis
  proof (rule takesI)
    fix y v assume "ob_value ?t y = Some v"
    then show "distinct (owned v)" using e(4) assms(3) by (auto split: if_splits)
  next
    show "h \<in> accounted owned ?t \<longleftrightarrow> (h \<in> accounted owned s \<or> h \<in> {}) \<and> h \<notin> {}" for h
      unfolding accounted_iff ht c Un_iff mem_Collect_eq empty_iff by metis
    show "has owned ?t y h \<Longrightarrow> h \<notin> set (ob_closed ?t)" for y h unfolding ht c using e(2,3) by blast
    show "has owned ?t y h \<Longrightarrow> has owned ?t z h \<Longrightarrow> y = z" for y z h unfolding ht using e(3) by blast
    show "distinct (ob_closed ?t)" using e(1) e(2)[of x] e(4)[OF assms(2)] hu by auto
  qed
qed

lemma takes_give:
  assumes "exclusive owned s" and "ob_value s x = Some u" and "vacant owned n"
  shows "takes owned s (s\<lparr>ob_value := (ob_value s)(x := n)\<rparr>) {} (set (owned u))" (is "takes _ _ ?t _ _")
proof -
  note e = exclusiveD[OF assms(1)]
  have hu: "h \<in> set (owned u) \<longleftrightarrow> has owned s x h" for h using assms(2) by (simp add: has_def)
  have ht: "has owned ?t z h \<longleftrightarrow> z \<noteq> x \<and> has owned s z h" for z h
    using assms(3) by (auto simp: has_def vacant_def split: option.splits)
  have c: "ob_closed ?t = ob_closed s" by simp
  show ?thesis
  proof (rule takesI)
    fix y v assume "ob_value ?t y = Some v"
    then show "distinct (owned v)" using e(4) assms(3) by (auto split: if_splits)
  next
    show "h \<in> accounted owned ?t \<longleftrightarrow> (h \<in> accounted owned s \<or> h \<in> {}) \<and> h \<notin> set (owned u)" for h
      unfolding accounted_iff ht c hu empty_iff using e(2)[of x h] e(3)[of x h] by metis
    show "has owned ?t y h \<Longrightarrow> h \<notin> set (ob_closed ?t)" for y h unfolding ht c using e(2) by blast
    show "has owned ?t y h \<Longrightarrow> has owned ?t z h \<Longrightarrow> y = z" for y z h unfolding ht using e(3) by blast
  qed (use e in simp)
qed

lemma takes_over:
  assumes "exclusive owned s" and "vacant owned (ob_value s x)" and "ob_value s y = Some u" and "x \<noteq> y" and "owned e = []"
  shows "takes owned s (s\<lparr>ob_value := (ob_value s)(x := Some u, y := Some e)\<rparr>) {} {}" (is "takes _ _ ?t _ _")
proof -
  note e = exclusiveD[OF assms(1)] and n = vacant_has[OF assms(2)]
  have hu: "has owned s y h \<longleftrightarrow> h \<in> set (owned u)" for h using assms(3) by (simp add: has_def)
  have ht: "has owned ?t z h \<longleftrightarrow> (z = x \<and> has owned s y h \<or> z \<noteq> x \<and> z \<noteq> y \<and> has owned s z h)" for z h
    using assms(3-5) by (cases "z = x"; cases "z = y") (simp_all add: has_def)
  have c: "ob_closed ?t = ob_closed s" by simp
  show ?thesis
  proof (rule takesI)
    fix z v assume "ob_value ?t z = Some v"
    then show "distinct (owned v)" using e(4) assms(3,5) by (auto split: if_splits)
  next
    show "h \<in> accounted owned ?t \<longleftrightarrow> (h \<in> accounted owned s \<or> h \<in> {}) \<and> h \<notin> {}" for h
      unfolding accounted_iff ht c empty_iff using n[of h] assms(4) by metis
    show "has owned ?t z h \<Longrightarrow> h \<notin> set (ob_closed ?t)" for z h unfolding ht c using e(2) by metis
    show "has owned ?t w h \<Longrightarrow> has owned ?t z h \<Longrightarrow> w = z" for w z h unfolding ht using e(3)[of _ h] by metis
  qed (use e in simp)
qed

section \<open>The interface\<close>

locale owner =
  fixes owned :: "'v \<Rightarrow> handle list" and step :: "'op \<Rightarrow> 'v objects \<Rightarrow> 'v objects option"
    and taken :: "'op \<Rightarrow> handle list" and handed :: "'op \<Rightarrow> 'v objects \<Rightarrow> handle list"
  assumes step_takes: "step op s = Some t \<Longrightarrow> exclusive owned s \<Longrightarrow> set (taken op) \<inter> accounted owned s = {} \<Longrightarrow>
      takes owned s t (set (taken op)) (set (handed op s))"
    and hands_own: "step op s = Some t \<Longrightarrow> set (handed op s) \<subseteq> held_by owned s"
begin

lemma run_conserves:
  assumes "run_owner step taken handed ops (s, got, gone) = Some (t, got', gone')"
    and "exclusive owned s" and "accounted owned s = set got - set gone" and "set gone \<subseteq> set got"
  shows "exclusive owned t \<and> accounted owned t = set got' - set gone'"
  using assms
proof (induction ops arbitrary: s got gone)
  case (Cons op ops)
  from Cons.prems(1) obtain u where u: "step op s = Some u" and fresh: "\<forall>h \<in> set (taken op). h \<notin> set got"
    and rest: "run_owner step taken handed ops (u, got @ taken op, gone @ handed op s) = Some (t, got', gone')"
    by (auto split: if_splits option.splits simp: list_all_iff)
  have f: "set (taken op) \<inter> accounted owned s = {}" using fresh Cons.prems(3) by auto
  note c = step_takes[OF u Cons.prems(2) f, unfolded takes_def]
  have h: "set (handed op s) \<subseteq> set got - set gone" using hands_own[OF u] Cons.prems(3) by (auto simp: accounted_def)
  have "accounted owned u = set (got @ taken op) - set (gone @ handed op s)"
    using c h Cons.prems(3,4) fresh by auto
  moreover have "set (gone @ handed op s) \<subseteq> set (got @ taken op)" using h Cons.prems(4) by auto
  ultimately show ?case using Cons.IH[OF rest] c by blast
qed simp

lemma closed_once:
  assumes "run_owner step taken handed ops (no_objects, [], []) = Some (t, got, gone)"
    and "\<forall>x. ob_value t x = None"
  shows "distinct (ob_closed t) \<and> set (ob_closed t) = set got - set gone"
proof -
  have "exclusive owned no_objects" "accounted owned no_objects = {}"
    by (auto simp: exclusive_def accounted_def held_by_def has_def no_objects_def)
  with run_conserves[OF assms(1)] have "exclusive owned t" "accounted owned t = set got - set gone" by auto
  with assms(2) show ?thesis by (auto simp: exclusive_def accounted_def held_by_def has_def)
qed

end

section \<open>The classes are owners\<close>

definition handle_owned :: "handle \<Rightarrow> handle list" where "handle_owned v = (if usable v then [v] else [])"
definition memory_owned :: "handle \<Rightarrow> handle list" where "memory_owned v = (if v \<noteq> 0 then [v] else [])"
definition lock_owned :: "handle list \<Rightarrow> handle list" where "lock_owned hs = filter usable hs"

fun handle_taken :: "(handle \<Rightarrow> handle list) \<Rightarrow> handle_op \<Rightarrow> handle list" where
  "handle_taken owned (Construct x v) = owned v"
| "handle_taken owned (Reset x v) = owned v"
| "handle_taken owned _ = []"

fun handle_handed :: "handle_op \<Rightarrow> handle objects \<Rightarrow> handle list" where
  "handle_handed (Release x) s = (case ob_value s x of None \<Rightarrow> [] | Some v \<Rightarrow> handle_owned v)"
| "handle_handed _ s = []"

fun lock_taken :: "lock_op \<Rightarrow> handle list" where
  "lock_taken (LockAdd x h) = (if usable h then [h] else [])"
| "lock_taken _ = []"

lemma null_owned [simp]: "handle_owned 0 = []" "memory_owned 0 = []" "lock_owned [] = []"
  by (simp_all add: handle_owned_def memory_owned_def lock_owned_def usable_def)

lemma owned_distinct [simp]: "distinct (handle_owned v)" "distinct (memory_owned v)"
  by (simp_all add: handle_owned_def memory_owned_def)

lemmas unique_defs = unique_construct_def unique_reset_def unique_release_def unique_destroy_def unique_move_def
  unique_assign_def

lemma takes_trans:
  assumes "takes owned s u {} {}" and "exclusive owned u \<Longrightarrow> accounted owned u = accounted owned s \<Longrightarrow> takes owned u t new gone"
  shows "takes owned s t new gone"
  using assms by (auto simp: takes_def)

lemma swap_updates: "(s :: 'v objects)\<lparr>ob_closed := c, ob_value := f\<rparr> = s\<lparr>ob_value := f, ob_closed := c\<rparr>"
  by (cases s) simp

lemma takes_refl: "exclusive owned s \<Longrightarrow> takes owned s s {} {}" by (simp add: takes_def)

lemma close_eq: "(if usable v then [v] else []) = handle_owned v" by (simp add: handle_owned_def)

lemma unique_takes:
  assumes s: "unique_step op s = Some t" and e: "exclusive handle_owned s"
    and f: "set (handle_taken handle_owned op) \<inter> accounted handle_owned s = {}"
  shows "takes handle_owned s t (set (handle_taken handle_owned op)) (set (handle_handed op s))"
proof (cases op)
  case (Construct x v)
  with s e f show ?thesis using takes_put[OF e, of x v] by (simp add: unique_defs split: if_splits)
next
  case (Reset x v)
  with s obtain old where old: "ob_value s x = Some old"
    and t: "t = s\<lparr>ob_value := (ob_value s)(x \<mapsto> v), ob_closed := ob_closed s @ handle_owned old\<rparr>"
    by (auto simp: unique_defs close_eq split: option.splits)
  let ?u = "s\<lparr>ob_value := (ob_value s)(x := Some 0), ob_closed := ob_closed s @ handle_owned old\<rparr>"
  have "takes handle_owned s ?u {} {}" by (rule takes_drop[OF e old]) simp
  moreover have "takes handle_owned ?u t (set (handle_owned v)) {}" if "exclusive handle_owned ?u" "accounted handle_owned ?u = accounted handle_owned s"
    using takes_put[OF that(1), of x v] f that(2) Reset t by (simp add: swap_updates)
  ultimately have "takes handle_owned s t (set (handle_owned v)) {}" by (rule takes_trans)
  with Reset show ?thesis by simp
next
  case (Release x)
  with s takes_give[OF e, of x _ "Some 0"] show ?thesis by (auto simp: unique_defs split: option.splits)
next
  case (Destroy x)
  with s takes_drop[OF e, of x _ None] show ?thesis by (auto simp: unique_defs close_eq swap_updates split: option.splits)
next
  case (Move x y)
  with s obtain u where "ob_value s y = Some u" "ob_value s x = None" "x \<noteq> y"
    "t = s\<lparr>ob_value := (ob_value s)(y := Some 0, x := Some u)\<rparr>"
    by (auto simp: unique_defs split: option.splits if_splits)
  with takes_over[OF e, of x y u 0] Move show ?thesis by (simp add: fun_upd_twist)
next
  case (Assign x y)
  show ?thesis
  proof (cases "x = y")
    case True
    with s Assign takes_refl[OF e] show ?thesis by (simp add: unique_defs)
  next
    case False
    with s Assign obtain u old where u: "ob_value s y = Some u" and old: "ob_value s x = Some old"
      and t: "t = s\<lparr>ob_value := (ob_value s)(y := Some 0, x := Some u), ob_closed := ob_closed s @ handle_owned old\<rparr>"
      by (auto simp: unique_defs close_eq split: option.splits)
    let ?u = "s\<lparr>ob_value := (ob_value s)(x := Some 0), ob_closed := ob_closed s @ handle_owned old\<rparr>"
    have "takes handle_owned s ?u {} {}" by (rule takes_drop[OF e old]) simp
    moreover have "takes handle_owned ?u t {} {}" if "exclusive handle_owned ?u"
      using takes_over[OF that, of x y u 0] u False t by (simp add: fun_upd_twist swap_updates)
    ultimately have "takes handle_owned s t {} {}" by (blast intro: takes_trans)
    with Assign show ?thesis by simp
  qed
qed

lemma unique_hands: "unique_step op s = Some t \<Longrightarrow> set (handle_handed op s) \<subseteq> held_by handle_owned s"
proof (cases op)
  case (Release x)
  then show ?thesis by (cases "ob_value s x") (auto simp: held_by_def has_def)
qed auto

interpretation uh: owner handle_owned unique_step "handle_taken handle_owned" handle_handed
  by unfold_locales (rule unique_takes unique_hands; assumption)+

lemma scoped_unique: "scoped_step op s = Some t \<Longrightarrow> unique_step op s = Some t"
  by (cases op) simp_all

interpretation sh: owner handle_owned scoped_step "handle_taken handle_owned" handle_handed
  by unfold_locales (auto dest!: scoped_unique intro: unique_takes uh.hands_own[THEN subsetD])

interpretation mem: owner memory_owned memory_step "handle_taken memory_owned" "\<lambda>_ _. []"
proof
  fix op s t
  assume s: "memory_step op s = Some t" and e: "exclusive memory_owned s"
    and f: "set (handle_taken memory_owned op) \<inter> accounted memory_owned s = {}"
  show "takes memory_owned s t (set (handle_taken memory_owned op)) (set [])"
  proof (cases op)
    case (Construct x v)
    with s e f show ?thesis using takes_put[OF e, of x v] by (simp add: unique_defs split: if_splits)
  next
    case (Reset x v)
    with s f takes_put[OF e, of x v] show ?thesis by (auto simp: key_receive_def split: if_splits)
  next
    case (Destroy x)
    with s takes_drop[OF e, of x _ None] show ?thesis
      by (auto simp: memory_destroy_def memory_owned_def split: option.splits)
  qed (use s in simp_all)
qed simp

lemmas lock_defs = lock_construct_def lock_add_def lock_clear_def lock_destroy_def lock_move_def lock_assign_def

lemma lock_takes:
  assumes s: "lock_step op s = Some t" and e: "exclusive lock_owned s" and f: "set (lock_taken op) \<inter> accounted lock_owned s = {}"
  shows "takes lock_owned s t (set (lock_taken op)) {}"
proof (cases op)
  case (LockNew x)
  with s takes_put[OF e, of x "[]"] show ?thesis by (simp add: lock_defs split: if_splits)
next
  case (LockAdd x h)
  with s obtain hs where hs: "ob_value s x = Some hs" and t: "t = s\<lparr>ob_value := (ob_value s)(x := Some (hs @ [h]))\<rparr>"
    by (auto simp: lock_defs split: option.splits)
  from takes_grow[OF e hs, of "hs @ [h]" "lock_taken op"] f LockAdd show ?thesis
    by (simp add: t lock_owned_def)
next
  case (LockClear x)
  with s takes_drop[OF e, of x _ "Some []"] show ?thesis by (auto simp: lock_defs lock_owned_def split: option.splits)
next
  case (LockDestroy x)
  with s takes_drop[OF e, of x _ None] show ?thesis by (auto simp: lock_defs lock_owned_def swap_updates split: option.splits)
next
  case (LockMove x y)
  with s obtain hs where "ob_value s y = Some hs" "ob_value s x = None"
    "t = s\<lparr>ob_value := (ob_value s)(x := Some hs, y := Some [])\<rparr>"
    by (auto simp: lock_defs split: option.splits)
  moreover from this(1,2) have "x \<noteq> y" by auto
  ultimately show ?thesis using takes_over[OF e, of x y hs "[]"] LockMove by simp
next
  case (LockAssign x y)
  show ?thesis
  proof (cases "x = y")
    case True
    with s LockAssign takes_refl[OF e] show ?thesis by (simp add: lock_defs)
  next
    case False
    with s LockAssign obtain hs old where hs: "ob_value s y = Some hs" and old: "ob_value s x = Some old"
      and t: "t = s\<lparr>ob_value := (ob_value s)(x := Some hs, y := Some []), ob_closed := ob_closed s @ lock_owned old\<rparr>"
      by (auto simp: lock_defs lock_owned_def swap_updates split: option.splits)
    let ?u = "s\<lparr>ob_value := (ob_value s)(x := Some []), ob_closed := ob_closed s @ lock_owned old\<rparr>"
    have "takes lock_owned s ?u {} {}" by (rule takes_drop[OF e old]) simp
    moreover have "takes lock_owned ?u t {} {}" if "exclusive lock_owned ?u"
      using takes_over[OF that, of x y hs "[]"] hs False t by (simp add: swap_updates)
    ultimately have "takes lock_owned s t {} {}" by (blast intro: takes_trans)
    with LockAssign show ?thesis by simp
  qed
qed

interpretation lk: owner lock_owned lock_step lock_taken "\<lambda>_ _. []"
  by unfold_locales (simp_all add: lock_takes)

section \<open>The property\<close>



end
