(* ===== verification/Manager_Controls.thy ===== *)
theory Manager_Controls imports Window_Invariants begin

text \<open>
  The controls of the window of the manager (\<open>src/launcher/manager_main.cpp\<close>): the identifiers, what
  \<open>initialize_controls\<close> creates and where, which of them \<open>set_busy\<close> enables, and which command a message
  of a control stands for.  Manager_Window has only two flags for what is enabled and commands for the
  messages; here these are proved to be what the controls do.  The texts of the controls are not modelled.
\<close>

section \<open>The controls\<close>

datatype ControlId =
    kProfileCombo | kNewProfile | kSaveProfile | kDeleteProfile | kProfileName | kGamePath | kBrowseGame
  | kGameArguments | kSimHubPath | kBrowseSimHub | kAutoStartSimHub | kCheckEnvironment | kInstallPlugin
  | kUninstallPlugin | kLaunch | kDiagnostics | kCopyDiagnostics

fun control_id :: "ControlId \<Rightarrow> nat" where
  "control_id kProfileCombo = 100"
| "control_id kNewProfile = 101"
| "control_id kSaveProfile = 102"
| "control_id kDeleteProfile = 103"
| "control_id kProfileName = 110"
| "control_id kGamePath = 120"
| "control_id kBrowseGame = 121"
| "control_id kGameArguments = 130"
| "control_id kSimHubPath = 140"
| "control_id kBrowseSimHub = 141"
| "control_id kAutoStartSimHub = 150"
| "control_id kCheckEnvironment = 160"
| "control_id kInstallPlugin = 161"
| "control_id kUninstallPlugin = 162"
| "control_id kLaunch = 163"
| "control_id kDiagnostics = 170"
| "control_id kCopyDiagnostics = 171"

definition all_ids :: "ControlId list" where
  "all_ids = [kProfileCombo, kNewProfile, kSaveProfile, kDeleteProfile, kProfileName, kGamePath, kBrowseGame,
     kGameArguments, kSimHubPath, kBrowseSimHub, kAutoStartSimHub, kCheckEnvironment, kInstallPlugin,
     kUninstallPlugin, kLaunch, kDiagnostics, kCopyDiagnostics]"

datatype control_class = STATIC | COMBOBOX | BUTTON | EDIT

datatype style = WS_CHILD | WS_VISIBLE | WS_TABSTOP | WS_BORDER | WS_VSCROLL | SS_LEFT | CBS_DROPDOWNLIST
  | BS_PUSHBUTTON | BS_DEFPUSHBUTTON | BS_AUTOCHECKBOX | ES_AUTOHSCROLL | ES_MULTILINE | ES_AUTOVSCROLL
  | ES_READONLY | WS_EX_CLIENTEDGE

record control =
  ct_class :: control_class
  ct_style :: "style list"
  ct_x :: nat
  ct_y :: nat
  ct_width :: nat
  ct_height :: nat
  ct_id :: nat
  ct_extended :: "style list"

definition add_control ::
  "control_class \<Rightarrow> style list \<Rightarrow> nat \<Rightarrow> nat \<Rightarrow> nat \<Rightarrow> nat \<Rightarrow> nat \<Rightarrow> style list \<Rightarrow> control" where
  "add_control class_name styles x y width height i extended_style =
     \<lparr>ct_class = class_name, ct_style = WS_CHILD # WS_VISIBLE # styles, ct_x = x, ct_y = y, ct_width = width,
      ct_height = height, ct_id = i, ct_extended = extended_style\<rparr>"

definition add_label :: "nat \<Rightarrow> nat \<Rightarrow> nat \<Rightarrow> nat \<Rightarrow> control" where
  "add_label x y width height = add_control STATIC [SS_LEFT] x y width height 0 []"

definition edit_line :: "nat \<Rightarrow> nat \<Rightarrow> nat \<Rightarrow> ControlId \<Rightarrow> control" where
  "edit_line x y width i =
     add_control EDIT [WS_BORDER, ES_AUTOHSCROLL, WS_TABSTOP] x y width 28 (control_id i) [WS_EX_CLIENTEDGE]"

definition push_button :: "nat \<Rightarrow> nat \<Rightarrow> nat \<Rightarrow> nat \<Rightarrow> ControlId \<Rightarrow> control" where
  "push_button x y width height i =
     add_control BUTTON [BS_PUSHBUTTON, WS_TABSTOP] x y width height (control_id i) []"

definition initialize_controls :: "control list" where
  "initialize_controls =
     [add_label 24 18 500 30, add_label 24 50 850 26,
      add_label 24 88 120 24,
      add_control COMBOBOX [CBS_DROPDOWNLIST, WS_TABSTOP] 145 84 390 300 (control_id kProfileCombo) [],
      push_button 545 83 90 30 kNewProfile, push_button 643 83 90 30 kSaveProfile,
      push_button 741 83 90 30 kDeleteProfile,
      add_label 24 128 120 24, edit_line 145 124 686 kProfileName,
      add_label 24 168 120 24, edit_line 145 164 590 kGamePath, push_button 741 163 90 30 kBrowseGame,
      add_label 24 208 120 24, edit_line 145 204 686 kGameArguments,
      add_label 24 248 120 24, edit_line 145 244 590 kSimHubPath, push_button 741 243 90 30 kBrowseSimHub,
      add_control BUTTON [BS_AUTOCHECKBOX, WS_TABSTOP] 145 280 360 28 (control_id kAutoStartSimHub) [],
      push_button 24 322 145 36 kCheckEnvironment, push_button 178 322 165 36 kInstallPlugin,
      push_button 352 322 165 36 kUninstallPlugin,
      add_control BUTTON [BS_DEFPUSHBUTTON, WS_TABSTOP] 658 318 173 44 (control_id kLaunch) [],
      add_label 24 380 150 24, push_button 674 374 157 32 kCopyDiagnostics,
      add_control EDIT [WS_BORDER, ES_MULTILINE, ES_AUTOVSCROLL, ES_READONLY, WS_VSCROLL] 24 412 807 285
        (control_id kDiagnostics) [WS_EX_CLIENTEDGE],
      add_label 24 712 850 28]"

text \<open>The size that \<open>create\<close> gives the window.\<close>

definition window_width :: nat where "window_width = 920"
definition window_height :: nat where "window_height = 780"

section \<open>Texts of controls\<close>

text \<open>\<open>GetWindowTextW\<close> stores at most what fits the buffer, with the terminating zero; \<open>shown\<close> is the text
  of the window at that time.\<close>

definition get_window_text :: "int \<Rightarrow> wstring \<Rightarrow> wstring" where
  "get_window_text len shown = (if len \<le> 0 then [] else c_str (take (nat len) shown @ [0]))"

lemma get_window_text_stored:
  assumes "0 \<notin> set shown" shows "get_window_text (int (length shown)) shown = shown"
proof -
  have "takeWhile (\<lambda>c. c \<noteq> 0) (shown @ [0]) = shown @ takeWhile (\<lambda>c. c \<noteq> 0) [0]"
    by (rule takeWhile_append2) (use assms in auto)
  then show ?thesis by (simp add: get_window_text_def c_str_def)
qed

section \<open>What is enabled\<close>

definition busy_ids :: "ControlId list" where
  "busy_ids = [kProfileCombo, kProfileName, kGamePath, kGameArguments, kSimHubPath, kAutoStartSimHub, kNewProfile,
     kSaveProfile, kDeleteProfile, kBrowseGame, kBrowseSimHub, kCheckEnvironment, kInstallPlugin, kUninstallPlugin,
     kLaunch]"

definition change_ids :: "ControlId list" where "change_ids = [kInstallPlugin, kUninstallPlugin, kLaunch]"

definition enable_windows :: "ControlId list \<Rightarrow> bool \<Rightarrow> (ControlId \<Rightarrow> bool) \<Rightarrow> ControlId \<Rightarrow> bool" where
  "enable_windows ids b enabled = fold (\<lambda>i enabled. enabled(i := b)) ids enabled"

definition set_busy_controls :: "bool \<Rightarrow> bool \<Rightarrow> (ControlId \<Rightarrow> bool) \<Rightarrow> ControlId \<Rightarrow> bool" where
  "set_busy_controls busy operation_in_doubt enabled =
     (let enabled = enable_windows busy_ids (\<not> busy) enabled in
      if \<not> busy \<and> operation_in_doubt then enable_windows change_ids False enabled else enabled)"

text \<open>The controls of a window of Manager_Window.\<close>

definition control_enabled :: "window \<Rightarrow> ControlId \<Rightarrow> bool" where
  "control_enabled w i =
     (if i \<in> set change_ids then mw_changes_enabled w
      else if i \<in> set busy_ids then mw_others_enabled w else True)"

lemma enable_windows_iff: "enable_windows ids b enabled i = (if i \<in> set ids then b else enabled i)"
  unfolding enable_windows_def by (induction ids arbitrary: enabled) auto

lemma set_busy_refines: "control_enabled (set_busy b w) = set_busy_controls b (mw_in_doubt w) (control_enabled w)"
proof
  fix i
  have "i \<in> set change_ids \<Longrightarrow> i \<in> set busy_ids" by (auto simp: change_ids_def busy_ids_def)
  then show "control_enabled (set_busy b w) i = set_busy_controls b (mw_in_doubt w) (control_enabled w) i"
    by (auto simp: control_enabled_def set_busy_controls_def Let_def enable_windows_iff set_busy_def)
qed

section \<open>The messages of the controls\<close>

datatype reaction = OnSelect | OnNew | OnSave | OnDelete | OnBrowseGame | OnBrowseSimHub | OnCheck | OnInstall
  | OnUninstall | OnLaunch | OnCopy

definition CBN_SELCHANGE :: nat where "CBN_SELCHANGE = 1"

definition command_reaction :: "nat \<Rightarrow> nat \<Rightarrow> reaction option" where
  "command_reaction i notification =
     (if i = control_id kProfileCombo \<and> notification = CBN_SELCHANGE then Some OnSelect
      else if i = control_id kNewProfile then Some OnNew
      else if i = control_id kSaveProfile then Some OnSave
      else if i = control_id kDeleteProfile then Some OnDelete
      else if i = control_id kBrowseGame then Some OnBrowseGame
      else if i = control_id kBrowseSimHub then Some OnBrowseSimHub
      else if i = control_id kCheckEnvironment then Some OnCheck
      else if i = control_id kInstallPlugin then Some OnInstall
      else if i = control_id kUninstallPlugin then Some OnUninstall
      else if i = control_id kLaunch then Some OnLaunch
      else if i = control_id kCopyDiagnostics then Some OnCopy
      else None)"

fun reaction_of :: "command \<Rightarrow> reaction" where
  "reaction_of (SelectProfile _ _ _) = OnSelect"
| "reaction_of (NewProfile _ _ _) = OnNew"
| "reaction_of (SaveProfile _) = OnSave"
| "reaction_of (DeleteProfile _ _ _ _ _ _) = OnDelete"
| "reaction_of (BrowseGame _) = OnBrowseGame"
| "reaction_of (BrowseSimHub _) = OnBrowseSimHub"
| "reaction_of (CheckEnvironment _) = OnCheck"
| "reaction_of (InstallPlugin _ _) = OnInstall"
| "reaction_of (UninstallPlugin _ _ _ _) = OnUninstall"
| "reaction_of (LaunchGame _ _) = OnLaunch"

text \<open>Windows sends \<open>WM_COMMAND\<close> for an enabled control; the window is told the commands.\<close>

definition sends :: "window \<Rightarrow> ControlId \<Rightarrow> nat \<Rightarrow> command \<Rightarrow> bool" where
  "sends w i notification c \<longleftrightarrow>
     control_enabled w i \<and> command_reaction (control_id i) notification = Some (reaction_of c)"

lemma sends_enabled: "sends w i notification c \<Longrightarrow> command_enabled c w"
  by (cases i; cases c) (auto simp: sends_def command_reaction_def command_enabled_def control_enabled_def change_ids_def busy_ids_def
      split: if_splits)

fun sender :: "reaction \<Rightarrow> ControlId" where
  "sender OnSelect = kProfileCombo"
| "sender OnNew = kNewProfile"
| "sender OnSave = kSaveProfile"
| "sender OnDelete = kDeleteProfile"
| "sender OnBrowseGame = kBrowseGame"
| "sender OnBrowseSimHub = kBrowseSimHub"
| "sender OnCheck = kCheckEnvironment"
| "sender OnInstall = kInstallPlugin"
| "sender OnUninstall = kUninstallPlugin"
| "sender OnLaunch = kLaunch"
| "sender OnCopy = kCopyDiagnostics"

lemma reaction_sender: "command_reaction (control_id i) CBN_SELCHANGE = Some r \<longleftrightarrow> i = sender r"
  by (cases i; cases r) (simp_all add: command_reaction_def)

lemma sender_enabled: "control_enabled w (sender (reaction_of c)) = command_enabled c w"
  by (cases c) (simp_all add: command_enabled_def control_enabled_def change_ids_def busy_ids_def)

lemma sends_iff: "sends w i CBN_SELCHANGE c \<longleftrightarrow> i = sender (reaction_of c) \<and> command_enabled c w"
  unfolding sends_def reaction_sender using sender_enabled by auto

section \<open>The layout\<close>

definition apart :: "control \<Rightarrow> control \<Rightarrow> bool" where
  "apart a b \<longleftrightarrow> ct_x a + ct_width a \<le> ct_x b \<or> ct_x b + ct_width b \<le> ct_x a
     \<or> ct_y a + ct_height a \<le> ct_y b \<or> ct_y b + ct_height b \<le> ct_y a"

fun all_apart :: "control list \<Rightarrow> bool" where
  "all_apart [] = True"
| "all_apart (c # cs) = (list_all (apart c) cs \<and> all_apart cs)"

definition inside_window :: "control \<Rightarrow> bool" where
  "inside_window c \<longleftrightarrow> ct_x c + ct_width c \<le> window_width \<and> ct_y c + ct_height c \<le> window_height"

lemmas control_defs = initialize_controls_def add_label_def edit_line_def push_button_def add_control_def

lemma layout_apart: "all_apart (filter (\<lambda>c. ct_class c \<noteq> COMBOBOX) initialize_controls)"
  by (simp add: control_defs apart_def)

lemma layout_inside: "list_all inside_window initialize_controls"
  by (simp add: control_defs inside_window_def window_width_def window_height_def)

lemma layout_ids: "filter (\<lambda>i. i \<noteq> 0) (map ct_id initialize_controls) =
    map control_id [kProfileCombo, kNewProfile, kSaveProfile, kDeleteProfile, kProfileName, kGamePath, kBrowseGame,
     kGameArguments, kSimHubPath, kBrowseSimHub, kAutoStartSimHub, kCheckEnvironment, kInstallPlugin,
     kUninstallPlugin, kLaunch, kCopyDiagnostics, kDiagnostics]"
  by (simp add: control_defs)

lemma all_ids_complete: "i \<in> set all_ids" by (cases i) (simp_all add: all_ids_def)

lemma ids_distinct: "distinct (map control_id all_ids)" by (simp add: all_ids_def)

lemma layout_launch: "map ct_id (filter (\<lambda>c. BS_DEFPUSHBUTTON \<in> set (ct_style c)) initialize_controls) = [control_id kLaunch]"
  by (simp add: control_defs)

lemma layout_keyboard: "list_all (\<lambda>c. ct_class c = STATIC \<or> WS_TABSTOP \<in> set (ct_style c) \<or> ct_id c = control_id kDiagnostics)
    initialize_controls"
  by (simp add: control_defs)

section \<open>The property\<close>


end
