(* ===== verification/Manager_Loop.thy ===== *)
theory Manager_Loop imports Diagnostics Elevated_Request begin

text \<open>
  What surrounds the window of the manager in \<open>src/launcher/manager_main.cpp\<close>: \<open>wWinMain\<close> from the mutex
  of the single instance to its end, the creation of the window and its procedure, the two loops over
  messages, the dialogs that select a file or a folder, and the clipboard.  A function that takes
  resources of Windows returns the list of its uses of them; \<open>clean\<close> says that nothing is used before it
  is taken or after it is given back, nothing is given back twice and nothing is kept.
\<close>

section \<open>Resources\<close>

datatype 'r use = Take 'r | Use 'r | Give 'r

fun clean :: "'r list \<Rightarrow> 'r use list \<Rightarrow> bool" where
  "clean kept [] = (kept = [])"
| "clean kept (Take r # us) = (r \<notin> set kept \<and> clean (r # kept) us)"
| "clean kept (Use r # us) = (r \<in> set kept \<and> clean kept us)"
| "clean kept (Give r # us) = (r \<in> set kept \<and> clean (remove1 r kept) us)"

section \<open>Messages\<close>

text \<open>\<open>pump_messages\<close> takes all messages that wait; the last request to quit is posted again.\<close>

datatype queued = WM_QUIT nat | Posted nat

fun pump_loop :: "queued list \<Rightarrow> nat option \<Rightarrow> nat list \<times> nat option" where
  "pump_loop [] quit = ([], quit)"
| "pump_loop (WM_QUIT code # ms) quit = pump_loop ms (Some code)"
| "pump_loop (Posted m # ms) quit = (case pump_loop ms quit of (dispatched, q) \<Rightarrow> (m # dispatched, q))"

definition pump_messages :: "queued list \<Rightarrow> nat list \<times> queued list \<times> bool" where
  "pump_messages ms =
     (case pump_loop ms None of
        (dispatched, None) \<Rightarrow> (dispatched, [], True)
      | (dispatched, Some code) \<Rightarrow> (dispatched, [WM_QUIT code], False))"

text \<open>An answer of \<open>GetMessageW\<close>: its result, the message and \<open>wParam\<close>.  \<open>None\<close>: no more messages come.\<close>

fun message_loop :: "(int \<times> nat \<times> nat) list \<Rightarrow> (nat list \<times> nat) option" where
  "message_loop [] = None"
| "message_loop ((result, m, wparam) # ms) =
     (if result > 0 then map_option (\<lambda>(dispatched, code). (m # dispatched, code)) (message_loop ms)
      else Some ([], wparam))"

text \<open>How \<open>GetMessageW\<close> answers for a message of the queue.\<close>

fun got_message :: "queued \<Rightarrow> int \<times> nat \<times> nat" where
  "got_message (WM_QUIT code) = (0, 0x12, code)"
| "got_message (Posted m) = (1, m, 0)"

section \<open>The window\<close>

datatype window_message = WM_NCCREATE | WM_CREATE | WM_COMMAND nat nat | WM_CLOSE | WM_DESTROY | OtherMessage nat

datatype reply = CallDefault | Created int | RunCommand nat nat | DestroyWindow | Ignored | PostQuit

definition handle_message :: "bool \<Rightarrow> bool \<Rightarrow> window_message \<Rightarrow> reply" where
  "handle_message busy initialized m =
     (case m of
        WM_CREATE \<Rightarrow> Created (if initialized then 0 else -1)
      | WM_COMMAND i notification \<Rightarrow> RunCommand i notification
      | WM_CLOSE \<Rightarrow> if \<not> busy then DestroyWindow else Ignored
      | WM_DESTROY \<Rightarrow> PostQuit
      | _ \<Rightarrow> CallDefault)"

text \<open>\<open>known\<close>: whether the object has been stored with the window.\<close>

definition window_proc :: "bool \<Rightarrow> bool \<Rightarrow> bool \<Rightarrow> window_message \<Rightarrow> bool \<times> reply" where
  "window_proc busy initialized known m =
     (let known = (m = WM_NCCREATE \<or> known) in
      (known, if known then handle_message busy initialized m else CallDefault))"

definition manager_create :: "bool \<Rightarrow> bool \<Rightarrow> bool \<Rightarrow> bool" where
  "manager_create registered already_exists created = ((registered \<or> already_exists) \<and> created)"

section \<open>wWinMain\<close>

datatype main_resource = InstanceMutex | Com

record main_env =
  me_mutex :: bool
  me_exists :: bool
  me_com :: bool
  me_registered :: bool
  me_class_exists :: bool
  me_created :: bool
  me_messages :: "(int \<times> nat \<times> nat) list"

definition manager_main :: "main_env \<Rightarrow> (main_resource use list \<times> nat list \<times> nat) option" where
  "manager_main e =
     (if \<not> me_mutex e \<or> me_exists e then
        Some (if me_mutex e then [Take InstanceMutex, Give InstanceMutex] else [], [], 1)
      else if \<not> me_com e then Some ([Take InstanceMutex, Give InstanceMutex], [], 1)
      else if \<not> manager_create (me_registered e) (me_class_exists e) (me_created e) then
        Some ([Take InstanceMutex, Take Com, Use Com, Give Com, Give InstanceMutex], [], 1)
      else map_option (\<lambda>(dispatched, code).
          ([Take InstanceMutex, Take Com, Use Com] @ map (\<lambda>_. Use Com) dispatched @ [Give Com, Give InstanceMutex],
           dispatched, code))
        (message_loop (me_messages e)))"

section \<open>Dialogs\<close>

text \<open>\<open>buffer\<close> is the array of 32768 characters that the dialog fills.\<close>

definition select_game_file :: "bool \<Rightarrow> wstring \<Rightarrow> wstring option" where
  "select_game_file chosen buffer = (if \<not> chosen then None else Some (c_str buffer))"

datatype dialog_resource = Dialog | Folder | Item | Path

record dialog_env =
  dg_created :: bool
  dg_folder :: bool
  dg_shown :: bool
  dg_result :: bool
  dg_path :: "wstring option"

definition select_directory :: "dialog_env \<Rightarrow> wstring \<Rightarrow> dialog_resource use list \<times> wstring option" where
  "select_directory e initial =
     (if \<not> dg_created e then ([], None)
      else
        let shown = [Take Dialog, Use Dialog, Use Dialog, Use Dialog]
              @ (if initial \<noteq> [] \<and> dg_folder e then [Take Folder, Use Dialog, Use Folder, Give Folder] else [])
              @ [Use Dialog]
        in if \<not> dg_shown e then (shown @ [Give Dialog], None)
        else
          let path = (if dg_result e then dg_path e else None) in
          (shown @ [Use Dialog]
             @ (if dg_result e then [Take Item, Use Item] else [])
             @ (if path \<noteq> None then [Take Path, Use Path, Give Path] else [])
             @ (if dg_result e then [Give Item] else []) @ [Give Dialog],
           path))"

section \<open>The clipboard\<close>

datatype clipboard_resource = Clipboard | Memory | MemoryLock

record clipboard_env =
  cl_open :: bool
  cl_allocated :: bool
  cl_locked :: bool
  cl_set :: bool

text \<open>The result: the uses, the answer and what Windows was handed.  It owns the memory then, which is
  given away.\<close>

definition copy_to_clipboard ::
  "clipboard_env \<Rightarrow> wstring \<Rightarrow> clipboard_resource use list \<times> bool \<times> wstring option" where
  "copy_to_clipboard e chars =
     (if \<not> cl_open e then ([], False, None)
      else if \<not> cl_allocated e then ([Take Clipboard, Use Clipboard, Give Clipboard], False, None)
      else if \<not> cl_locked e then
        ([Take Clipboard, Use Clipboard, Take Memory, Use Memory, Give Memory, Give Clipboard], False, None)
      else
        let copied = [Take Clipboard, Use Clipboard, Take Memory, Use Memory, Take MemoryLock, Use MemoryLock,
              Give MemoryLock, Use Clipboard, Use Memory]
        in if \<not> cl_set e then (copied @ [Give Memory, Give Clipboard], False, None)
        else (copied @ [Give Memory, Give Clipboard], True, Some (chars @ [0])))"

text \<open>The button that copies the report: \<open>required\<close> and \<open>buffer\<close> are the home folder.\<close>

definition copy_diagnostics ::
  "clipboard_env \<Rightarrow> nat \<Rightarrow> wstring \<Rightarrow> wstring \<Rightarrow> clipboard_resource use list \<times> bool \<times> wstring option" where
  "copy_diagnostics e required buffer last_diagnostics =
     copy_to_clipboard e (redact_user_path required buffer last_diagnostics)"

section \<open>Lemmas\<close>

lemma clean_uses: "r \<in> set kept \<Longrightarrow> clean kept (map (\<lambda>_. Use r) xs @ us) = clean kept us"
  by (induction xs) auto

lemma pump_loop_quit: "snd (pump_loop ms q) = None \<Longrightarrow> q = None \<and> (\<forall>code. WM_QUIT code \<notin> set ms)"
  by (induction ms q rule: pump_loop.induct) (auto split: prod.splits)

lemma pump_loop_dispatched: "fst (pump_loop ms q) = [m. Posted m \<leftarrow> ms]"
  by (induction ms q rule: pump_loop.induct) (auto split: prod.splits)

lemma pump_loop_code: "snd (pump_loop (ms @ WM_QUIT code # map Posted qs) q) = Some code"
proof (induction ms q rule: pump_loop.induct)
  case (1 quit)
  have "snd (pump_loop (map Posted qs) x) = x" for x by (induction qs) (auto split: prod.splits)
  then show ?case by simp
qed (auto split: prod.splits)

lemma message_loop_quit:
  "message_loop (map got_message (map Posted ms @ WM_QUIT code # rest)) = Some (ms, code)"
  by (induction ms) auto

section \<open>The properties\<close>


text \<open>A request to quit that arrives while the manager waits for a process is not lost: the wait hears of
  it, every other message is dispatched in order, and the loop of \<open>wWinMain\<close> ends with its code.\<close>

theorem quit_is_not_lost:
  assumes "ms = before @ WM_QUIT code # map Posted later"
  shows "pump_messages ms = ([m. Posted m \<leftarrow> ms], [WM_QUIT code], False)
    \<and> message_loop (map got_message (fst (snd (pump_messages ms)))) = Some ([], code)"
proof -
  have "pump_loop ms None = ([m. Posted m \<leftarrow> ms], Some code)"
    using pump_loop_dispatched[of ms None] pump_loop_code[of before code later None] assms by (metis prod.collapse)
  then show ?thesis by (simp add: pump_messages_def)
qed

theorem quit_is_not_lost_witness:
  "pump_messages [Posted 5, WM_QUIT 3, Posted 6] = ([5, 6], [WM_QUIT 3], False)"
  using quit_is_not_lost[of "[Posted 5, WM_QUIT 3, Posted 6]" "[Posted 5]" 3 "[6]"] by simp

end
