(* ===== verification/Spec2Isabelle.thy ===== *)
theory Spec2Isabelle
  imports Viewer_Decode Effect_Capture End_To_End Telemetry_Bench Proxy_Dll Hook_Dll Launch Diagnostics Window_Invariants System_Queries Owned_Handles Manager_Controls Manager_Loop
begin

text \<open>
  Verification of the FFB Interceptor: a DirectInput 8 proxy and hook that reports the force feedback of
  a game to local viewers, the launcher that brings the hook into a game, and the manager around it.

  \<^bold>\<open>The program and its theories.\<close>  The native library \<open>src/src\<close> wraps \<open>IDirectInput8\<close>, its devices
  and its effects; every call is forwarded to the real object and described by an event, which a
  telemetry engine sends over named pipes.
    \<^item> FFB_Prelude holds machine types, little-endian words, chained checks and the collections of
      facts (\<open>codec\<close>, \<open>slist\<close>, \<open>result\<close>).
    \<^item> Wire_Codec, Utf8_Text and Wire_Event model \<open>telemetry_protocol.h/.cpp\<close>: the writers of numbers
      and strings, the events, \<open>serialize_event\<close> and \<open>valid_frame\<close>.  Viewer_Decode models the other
      end, \<open>decode_frame\<close> and \<open>iter_frames\<close> of \<open>viewer/src/ffb_visualizer/protocol.py\<close>.
    \<^item> Effect_Capture models \<open>fill_effect_parameters\<close>, which copies the effect structures of a game
      under a guard against access violations (a sum whose left side is the state at the fault).
    \<^item> Slist_Pool, Telemetry, Telemetry_Invariants and Telemetry_Io model \<open>telemetry.cpp\<close>: the pool of
      nodes behind interlocked lists (a locale, interpreted on the model's lists), the two sinks with
      their workers as a step relation over any number of emitting threads, the hello event and
      \<open>send_frame\<close>; Telemetry_Bench models the accessors of test builds.
    \<^item> Com_Registry, Com_Effect, Com_Device and Com_Input model \<open>wrapper_effect.cpp\<close>,
      \<open>wrapper_device8.cpp\<close>, \<open>wrapper_dinput8.cpp\<close> and \<open>intercept_create.cpp\<close> over a heap of
      wrappers and the reference counts of the real objects; Com_Calls the methods that hand a call on
      and the runs of a game that makes any calls, from within callbacks too.
    \<^item> Iat_Hook models \<open>iat_hook.cpp\<close> on the bytes of a mapped module, Hook_Dll the state machine of
      \<open>hook_dll.cpp\<close>, Proxy_Dll the drop-in library \<open>proxy.cpp\<close> and \<open>dllmain.cpp\<close>.
  The launcher and the manager are in \<open>src/launcher\<close>.
    \<^item> Command_Line models the quoting of \<open>injector.cpp\<close> and \<open>manager_model.cpp\<close> and the arguments of
      \<open>launcher_main.cpp\<close>, against the rules by which Windows splits a command line; Win_Text the path
      functions; Pe_Arch \<open>pe_arch.cpp\<close>.
    \<^item> Debug_Session models the launcher as a debugger and Launch its main function,
      \<open>launch_offline_game\<close>, both of \<open>injector.cpp\<close>.
    \<^item> Package_Manifest, Package_Files and Package_Trust model how \<open>manager_model.cpp\<close> checks a package:
      the manifest, the enumeration and the hashes of the files, the signatures and the read lock.
    \<^item> Elevated_Request models how the manager asks its elevated helper for an installation, Elevated_Helper
      the environment of the shell that the helper runs and Elevated_Run the helper itself
      (\<open>run_elevated_plugin_operation\<close>); Package_Sample is a complete package, on which they are run.
    \<^item> Manager_Process models how \<open>manager_main.cpp\<close> starts processes and waits for them, Diagnostics the
      redaction of its texts, Profile_Store the profiles in the registry behind a locale, a map from
      identifiers to settings.
    \<^item> Manager_Readiness and Manager_Window model \<open>ManagerWindow\<close>: what it checks, its state and its
      commands as functions and a step relation; Window_Invariants proves what every reachable window
      keeps.
    \<^item> Manager_Controls models the controls of that window, which of them are enabled and the commands they
      send; Manager_Loop what is around it: \<open>wWinMain\<close>, the loops over messages, the dialogs and the
      clipboard, each with the uses it makes of resources of Windows.
    \<^item> Owned_Handles models the classes of launcher and manager that own handles, behind a locale;
      System_Queries the small questions to Windows, whose answers the other theories take as given.

  \<^bold>\<open>What the lemmas show.\<close>  Of the wire format: frames decode to the events they were made from, the two
  validators agree, texts stay valid UTF-8 within their buffers.  Of the capture: bounds, redaction of
  opaque effects, the values captured.  Of the telemetry engine, by invariants over all interleavings:
  nodes are conserved, sequence numbers increase on the wire, every event is delivered, counted or
  pending; and a worker left alone delivers.  Of the wrappers: reference counts balance, calls are
  transparent, failures leave the real object.  Of the hooks: only slots that hold the real function
  are changed, and one thread initializes.  Of the launcher: arguments arrive as typed, only a checked
  game is left running with its hook, its code unchanged at the entry, and every launch ends.
  Of the manager: a manifest lists canonical paths within the package, a valid package is exactly its
  manifest, an accepted one is signed and a locked one cannot change; the helper does what was asked
  for, with a verified script in a fresh environment; the registry refines a map of profiles; and in
  every reachable window the profiles agree with the store, and a process whose end was not seen keeps
  its package locked and blocks every other change.
  The form of the window enables and sends what the model of the window says, and every resource and
  every handle is given back once.

  \<^bold>\<open>The whole.\<close>  End_To_End composes game, wrappers, engine and viewer: for every run of calls of a game
  (\<open>com_run\<close>), interleaved in any way with the steps of the engine, the viewer splits what reaches a pipe into
  the hello, drop notices and events that wrappers emitted, each at most once and in the order of the game.  It takes from Com_Calls
  that calls only append events that fit a frame, from Telemetry_Invariants the order and from
  Viewer_Decode the inverse of the serializer.

  \<^bold>\<open>Bounds and fuel.\<close>  Sizes of the program are constants of the model (pool 1024 nodes, frames 65536
  bytes, 8 axes, 260 characters).  Loops over data are structural or have a measure.  Loops over
  answers of Windows run over a list of rounds, with \<open>None\<close> for a list that ends too early; \<open>launch_ends\<close>
  shows that a round at the deadline is enough, and the walk of the import descriptors has as fuel the
  number of descriptors that fit the table.

  \<^bold>\<open>Answers of Windows\<close> (files, processes, threads, registry, clocks, random numbers, signatures) are
  parameters: fields of environment records or function arguments.  The real DirectInput objects are
  reference counts and answers.  Structured exception handling is a sum; memory outside a readable
  range faults.

  \<^bold>\<open>Not modelled.\<close>  The texts of messages and controls, which are constructors or left out; the arguments
  that the wrappers of effects hand on unread; the C# plugin, the Python viewer but for its decoder, the
  PowerShell scripts and the tests, which are not part of the native program.  Declarations and includes
  have no counterpart.
\<close>

end
